(* ===== verification/Prelude.thy ===== *)
theory Prelude
  imports
    Main
    "HOL-Library.Word"
    "HOL-Library.Multiset"
    "HOL-Library.Char_ord"
    "HOL-Library.List_Lexorder"
begin

unbundle bit_operations_syntax

text \<open>
  Shared vocabulary of the development: the fixed-width integers of
  \<^verbatim>\<open>src/src/change_lib/defines.hpp\<close>, the ways a C++ call can fail to return a value, and the
  list counterparts of the standard algorithms the sources call (\<^verbatim>\<open>std::ranges::find\<close>,
  \<^verbatim>\<open>std::vector::erase\<close>, \<^verbatim>\<open>std::ranges::merge\<close>, the C string read through
  \<^verbatim>\<open>string_view::data\<close>), with the lemmas about them that the components share.
\<close>

section \<open>Integers and failures\<close>

type_synonym u8 = "8 word"
type_synonym u16 = "16 word"
type_synonym u32 = "32 word"
type_synonym u64 = "64 word"

text \<open>
  The exceptions the sources can meet: those of the standard library, those that
  \<^verbatim>\<open>nlohmann::json\<close> documents for its accessors, conversions and parsers, and those of
  \<^verbatim>\<open>boost::program_options\<close>.
\<close>

datatype cpp_exception =
    Bad_optional_access
  | Std_out_of_range
  | Filesystem_error
  | Json_type_error
  | Json_out_of_range
  | Json_parse_error
  | Bad_any_cast
  | Bad_variant_access
  | Bad_expected_access
  | Std_length_error
  | Program_options_error
  | Spdlog_error
  | Asio_error

text \<open>
  A call that does not return a value has undefined behaviour (an iterator or index past the
  end is dereferenced), throws, or ends the process because the exception leaves a
  \<^verbatim>\<open>noexcept\<close> function (\<^verbatim>\<open>std::terminate\<close>), or does not return at all.
\<close>

datatype fault =
    Undefined
  | Throws cpp_exception
  | Terminates cpp_exception
  | Never_returns

type_synonym 'a result = "fault + 'a"

lemma ucast_u32_u64_u32 [simp]: "ucast (ucast x :: u64) = (x :: u32)"
  by (rule bit_eqI) (auto simp: bit_simps dest: bit_imp_le_length)

definition rbind :: "'e + 'a \<Rightarrow> ('a \<Rightarrow> 'e + 'b) \<Rightarrow> 'e + 'b" where
  "rbind r f = (case r of Inl e \<Rightarrow> Inl e | Inr x \<Rightarrow> f x)"

definition noexcept_call :: "'a result \<Rightarrow> 'a result" where
  "noexcept_call r = (case r of Inl (Throws e) \<Rightarrow> Inl (Terminates e) | _ \<Rightarrow> r)"

primrec traverse :: "('a \<Rightarrow> 'e + 'b) \<Rightarrow> 'a list \<Rightarrow> 'e + 'b list" where
  "traverse f [] = Inr []"
| "traverse f (x # xs) = rbind (f x) (\<lambda>y. rbind (traverse f xs) (\<lambda>ys. Inr (y # ys)))"

named_theorems fault_simps \<open>evaluation of the failure monad\<close>

lemma rbind_Inl [simp, fault_simps]: "rbind (Inl e) f = Inl e"
  by (simp add: rbind_def)

lemma rbind_Inr [simp, fault_simps]: "rbind (Inr x) f = f x"
  by (simp add: rbind_def)

lemma rbind_assoc: "rbind (rbind r f) g = rbind r (\<lambda>x. rbind (f x) g)"
  by (cases r) simp_all

lemma rbind_eq_Inr_iff: "rbind r f = Inr y \<longleftrightarrow> (\<exists>x. r = Inr x \<and> f x = Inr y)"
  by (cases r) auto

lemma rbind_eq_Inl_iff:
  "rbind r f = Inl e \<longleftrightarrow> r = Inl e \<or> (\<exists>x. r = Inr x \<and> f x = Inl e)"
  by (cases r) auto

lemma noexcept_call_simps [simp, fault_simps]:
  "noexcept_call (Inr x) = Inr x"
  "noexcept_call (Inl Undefined) = Inl Undefined"
  "noexcept_call (Inl (Throws e)) = Inl (Terminates e)"
  "noexcept_call (Inl (Terminates e)) = Inl (Terminates e)"
  "noexcept_call (Inl Never_returns) = Inl Never_returns"
  by (simp_all add: noexcept_call_def)

lemma noexcept_call_never_throws: "noexcept_call r \<noteq> Inl (Throws e)"
  by (auto simp: noexcept_call_def split: sum.splits fault.splits)

lemma noexcept_call_eq_Inr_iff [simp]: "noexcept_call r = Inr x \<longleftrightarrow> r = Inr x"
  by (auto simp: noexcept_call_def split: sum.splits fault.splits)

lemma traverse_roundtrip:
  "(\<And>x. x \<in> set xs \<Longrightarrow> g (f x) = Inr x) \<Longrightarrow> traverse g (map f xs) = Inr xs"
  by (induction xs) auto

lemma traverse_all_Inr: "(\<And>x. x \<in> set xs \<Longrightarrow> f x = Inr (g x)) \<Longrightarrow> traverse f xs = Inr (map g xs)"
  by (induction xs) auto

section \<open>Standard algorithms on sequences\<close>

text \<open>
  \<^verbatim>\<open>std::ranges::find_if\<close> returns an iterator; its position is the index of the first match and
  the length of the range (the end iterator) when nothing matches.
\<close>

primrec find_pos :: "('a \<Rightarrow> bool) \<Rightarrow> 'a list \<Rightarrow> nat" where
  "find_pos p [] = 0"
| "find_pos p (x # xs) = (if p x then 0 else Suc (find_pos p xs))"

definition erase_at :: "nat \<Rightarrow> 'a list \<Rightarrow> 'a list" where
  "erase_at i xs = take i xs @ drop (Suc i) xs"

text \<open>\<^verbatim>\<open>std::ranges::merge\<close>: the second range wins only when its head is strictly smaller.\<close>

fun merge_ranges :: "'a::linorder list \<Rightarrow> 'a list \<Rightarrow> 'a list" where
  "merge_ranges [] ys = ys"
| "merge_ranges xs [] = xs"
| "merge_ranges (x # xs) (y # ys) =
     (if y < x then y # merge_ranges (x # xs) ys else x # merge_ranges xs (y # ys))"

text \<open>
  The string a function taking \<^verbatim>\<open>const char *\<close> reads from \<^verbatim>\<open>string_view::data()\<close> of a
  null-terminated buffer: it stops at the first null character.
\<close>

definition c_str :: "string \<Rightarrow> string" where
  "c_str s = takeWhile (\<lambda>c. c \<noteq> CHR 0x00) s"

named_theorems seq_simps \<open>positions and updates in sequences\<close>

lemma find_pos_le: "find_pos p xs \<le> length xs"
  by (induction xs) auto

lemma find_pos_end_iff [seq_simps]: "find_pos p xs = length xs \<longleftrightarrow> (\<forall>x \<in> set xs. \<not> p x)"
  by (induction xs) auto

lemma find_pos_less_iff [seq_simps]: "find_pos p xs < length xs \<longleftrightarrow> (\<exists>x \<in> set xs. p x)"
  by (induction xs) auto

lemma find_pos_nth: "find_pos p xs < length xs \<Longrightarrow> p (xs ! find_pos p xs)"
  by (induction xs) auto

lemma find_pos_before: "i < find_pos p xs \<Longrightarrow> \<not> p (xs ! i)"
proof (induction xs arbitrary: i)
  case Nil
  then show ?case by simp
next
  case (Cons x xs)
  then show ?case by (cases i) (auto split: if_splits)
qed

lemma find_pos_split:
  assumes "find_pos p xs < length xs"
  shows "xs = take (find_pos p xs) xs @ xs ! find_pos p xs # drop (Suc (find_pos p xs)) xs"
  using assms by (rule id_take_nth_drop)

lemma find_pos_take_none: "x \<in> set (take (find_pos p xs) xs) \<Longrightarrow> \<not> p x"
  by (induction xs) (auto split: if_splits)

lemma find_pos_eqI:
  "i < length xs \<Longrightarrow> p (xs ! i) \<Longrightarrow> (\<And>j. j < i \<Longrightarrow> \<not> p (xs ! j)) \<Longrightarrow> find_pos p xs = i"
  by (metis find_pos_before find_pos_less_iff find_pos_nth linorder_neqE_nat nth_mem)

lemma find_pos_distinct_key:
  "distinct (map f xs) \<Longrightarrow> i < length xs \<Longrightarrow> find_pos (\<lambda>x. f x = f (xs ! i)) xs = i"
  by (rule find_pos_eqI) (auto simp: distinct_conv_nth)

lemma length_erase_at [simp]: "i < length xs \<Longrightarrow> length (erase_at i xs) = length xs - 1"
  by (simp add: erase_at_def)

lemma mset_erase_at: "i < length xs \<Longrightarrow> mset (erase_at i xs) = mset xs - {#xs ! i#}"
proof -
  assume "i < length xs"
  then have "mset xs = mset (take i xs @ xs ! i # drop (Suc i) xs)"
    by (simp only: id_take_nth_drop [symmetric])
  then show ?thesis by (simp add: erase_at_def)
qed

lemma map_erase_at: "map f (erase_at i xs) = erase_at i (map f xs)"
  by (simp add: erase_at_def take_map drop_map)

lemma set_erase_at_subset: "set (erase_at i xs) \<subseteq> set xs"
  by (auto simp: erase_at_def dest: in_set_takeD in_set_dropD)

lemma distinct_erase_at: "distinct xs \<Longrightarrow> distinct (erase_at i xs)"
  by (auto simp: erase_at_def set_take_disj_set_drop_if_distinct)

lemma set_erase_at_distinct:
  assumes "distinct xs" and "i < length xs"
  shows "set (erase_at i xs) = set xs - {xs ! i}"
proof -
  from assms(2) have split: "xs = take i xs @ xs ! i # drop (Suc i) xs"
    by (rule id_take_nth_drop)
  from assms(1) have "distinct (take i xs @ xs ! i # drop (Suc i) xs)"
    by (subst (asm) split)
  moreover from split have "set xs = set (take i xs) \<union> {xs ! i} \<union> set (drop (Suc i) xs)"
    by (metis Un_insert_right list.simps(15) set_append sup_bot.right_neutral Un_insert_left)
  ultimately show ?thesis by (auto simp: erase_at_def)
qed

lemma erase_at_filter:
  assumes "distinct xs" and "i < length xs"
  shows "erase_at i xs = filter (\<lambda>x. x \<noteq> xs ! i) xs"
proof -
  from assms(2) have split: "xs = take i xs @ xs ! i # drop (Suc i) xs"
    by (rule id_take_nth_drop)
  with assms(1) have "xs ! i \<notin> set (take i xs)" "xs ! i \<notin> set (drop (Suc i) xs)"
    by (metis distinct_append distinct.simps(2) not_distinct_conv_prefix disjoint_insert(1) list.simps(15))+
  then have "filter (\<lambda>x. x \<noteq> xs ! i) (take i xs) = take i xs"
    "filter (\<lambda>x. x \<noteq> xs ! i) (drop (Suc i) xs) = drop (Suc i) xs"
    by (auto intro!: filter_True)
  then have "filter (\<lambda>x. x \<noteq> xs ! i) (take i xs @ xs ! i # drop (Suc i) xs) = erase_at i xs"
    by (simp add: erase_at_def)
  with split show ?thesis by simp
qed

lemma nth_erase_at:
  "i < length xs \<Longrightarrow> j < length xs - 1 \<Longrightarrow> erase_at i xs ! j = (if j < i then xs ! j else xs ! Suc j)"
  by (auto simp: erase_at_def nth_append)

lemma mset_merge_ranges: "mset (merge_ranges xs ys) = mset xs + mset ys"
  by (induction xs ys rule: merge_ranges.induct) auto

lemma set_merge_ranges: "set (merge_ranges xs ys) = set xs \<union> set ys"
  by (induction xs ys rule: merge_ranges.induct) auto

lemma length_merge_ranges [simp]: "length (merge_ranges xs ys) = length xs + length ys"
  by (induction xs ys rule: merge_ranges.induct) auto

lemma sorted_merge_ranges: "sorted xs \<Longrightarrow> sorted ys \<Longrightarrow> sorted (merge_ranges xs ys)"
  by (induction xs ys rule: merge_ranges.induct) (auto simp: set_merge_ranges)

lemma c_str_id: "CHR 0x00 \<notin> set s \<Longrightarrow> c_str s = s"
  by (auto simp: c_str_def takeWhile_eq_all_conv)

section \<open>Association lists searched and updated by position\<close>

lemma key_pos_less_iff:
  "find_pos (\<lambda>s. fst s = k) xs < length xs \<longleftrightarrow> k \<in> fst ` set xs"
  by (auto simp: find_pos_less_iff)

lemma key_pos_nth:
  "k \<in> fst ` set xs \<Longrightarrow> fst (xs ! find_pos (\<lambda>s. fst s = k) xs) = k"
  using find_pos_nth [of "\<lambda>s. fst s = k" xs] by (simp add: key_pos_less_iff)

lemma map_of_key_pos:
  "k \<in> fst ` set xs \<Longrightarrow> map_of xs k = Some (snd (xs ! find_pos (\<lambda>s. fst s = k) xs))"
  by (induction xs) auto

lemma map_of_put_pos:
  "k \<in> fst ` set xs \<Longrightarrow>
    map_of (xs[find_pos (\<lambda>s. fst s = k) xs := (k, v)]) = (map_of xs)(k \<mapsto> v)"
proof (induction xs)
  case Nil
  then show ?case by simp
next
  case (Cons x xs)
  show ?case
  proof (cases "fst x = k")
    case True
    then show ?thesis by (cases x) (auto simp: fun_eq_iff)
  next
    case False
    with Cons show ?thesis by (cases x) (force simp: fun_upd_twist)
  qed
qed

lemma map_of_erase_pos:
  "distinct (map fst xs) \<Longrightarrow> k \<in> fst ` set xs \<Longrightarrow>
    map_of (erase_at (find_pos (\<lambda>s. fst s = k) xs) xs) = (map_of xs)(k := None)"
proof (induction xs)
  case Nil
  then show ?case by simp
next
  case (Cons x xs)
  show ?case
  proof (cases "fst x = k")
    case True
    with Cons.prems have "map_of xs k = None" by (auto simp: map_of_eq_None_iff)
    with True show ?thesis by (cases x) (auto simp: erase_at_def fun_eq_iff)
  next
    case False
    with Cons show ?thesis
      by (cases x) (force simp: erase_at_def fun_upd_twist simp del: map_of_append)
  qed
qed

lemma map_of_rename_pos:
  "distinct (map fst xs) \<Longrightarrow> k \<in> fst ` set xs \<Longrightarrow> k' \<notin> fst ` set xs \<Longrightarrow>
    map_of (xs[find_pos (\<lambda>s. fst s = k) xs := (k', snd (xs ! find_pos (\<lambda>s. fst s = k) xs))])
      = (map_of xs)(k := None, k' := map_of xs k)"
proof (induction xs)
  case Nil
  then show ?case by simp
next
  case (Cons x xs)
  show ?case
  proof (cases "fst x = k")
    case True
    with Cons.prems have "map_of xs k = None" by (auto simp: map_of_eq_None_iff)
    with True show ?thesis by (cases x) (auto simp: fun_eq_iff)
  next
    case False
    with Cons show ?thesis
      by (cases x) (force simp: fun_upd_twist fun_eq_iff)
  qed
qed

lemma map_of_snoc: "k \<notin> fst ` set xs \<Longrightarrow> map_of (xs @ [(k, v)]) = (map_of xs)(k \<mapsto> v)"
  by (induction xs) (auto simp: fun_eq_iff)

lemma map_of_absent: "k \<notin> fst ` set xs \<Longrightarrow> map_of xs k = None"
  by (simp add: map_of_eq_None_iff)

section \<open>Encoders and decoders\<close>

text \<open>
  The contract every pair of conversion functions of the sources is meant to keep: decoding
  what was encoded gives the value back. A list of values is encoded element by element.
\<close>

locale codec =
  fixes enc :: "'a \<Rightarrow> 'b"
    and dec :: "'b \<Rightarrow> 'e + 'a"
    and valid :: "'a \<Rightarrow> bool"
  assumes dec_enc: "valid x \<Longrightarrow> dec (enc x) = Inr x"
begin

lemma enc_inject: "valid x \<Longrightarrow> valid y \<Longrightarrow> enc x = enc y \<longleftrightarrow> x = y"
  by (metis dec_enc Inr_inject)

lemma dec_enc_list: "list_all valid xs \<Longrightarrow> traverse dec (map enc xs) = Inr xs"
  by (rule traverse_roundtrip) (simp add: dec_enc list_all_iff)

lemma enc_list_inject:
  "list_all valid xs \<Longrightarrow> list_all valid ys \<Longrightarrow> map enc xs = map enc ys \<longleftrightarrow> xs = ys"
  by (metis dec_enc_list Inr_inject)

end

section \<open>Stores that keep the first value\<close>

text \<open>
  The contract of a container that rejects what it already holds: adding a value appends it or
  changes nothing. Loading a whole list keeps the first occurrences, in order.
\<close>

definition first_occurrences :: "'a list \<Rightarrow> 'a list" where
  "first_occurrences xs = rev (remdups (rev xs))"

lemma first_occurrences_snoc:
  "first_occurrences (xs @ [x]) =
    (if x \<in> set xs then first_occurrences xs else first_occurrences xs @ [x])"
  by (simp add: first_occurrences_def)

lemma set_first_occurrences [simp]: "set (first_occurrences xs) = set xs"
  by (simp add: first_occurrences_def)

lemma distinct_first_occurrences [simp]: "distinct (first_occurrences xs)"
  by (simp add: first_occurrences_def)

lemma first_occurrences_Nil [simp]: "first_occurrences [] = []"
  by (simp add: first_occurrences_def)

locale value_store =
  fixes empty :: "'c"
    and contains :: "'c \<Rightarrow> 'v \<Rightarrow> bool"
    and add :: "'v \<Rightarrow> 'c \<Rightarrow> 'c"
    and vals :: "'c \<Rightarrow> 'v list"
  assumes vals_empty: "vals empty = []"
    and contains_iff: "contains c v \<longleftrightarrow> v \<in> set (vals c)"
    and vals_add: "vals (add v c) = (if contains c v then vals c else vals c @ [v])"
begin

lemma contains_add: "contains (add v c) w \<longleftrightarrow> w = v \<or> contains c w"
  by (auto simp: contains_iff vals_add)

lemma distinct_add: "distinct (vals c) \<Longrightarrow> distinct (vals (add v c))"
  by (auto simp: contains_iff vals_add)

lemma vals_fold: "vals (fold add vs c) = vals c @ filter (\<lambda>v. v \<notin> set (vals c)) (first_occurrences vs)"
proof (induction vs rule: rev_induct)
  case Nil
  then show ?case by simp
next
  case (snoc v vs)
  then show ?case
    by (auto simp: vals_add contains_iff first_occurrences_snoc)
qed

lemma vals_load: "vals (fold add vs empty) = first_occurrences vs"
  by (simp add: vals_fold vals_empty)

lemma set_vals_fold: "set (vals (fold add vs c)) = set (vals c) \<union> set vs"
  by (auto simp: vals_fold)

lemma distinct_fold: "distinct (vals c) \<Longrightarrow> distinct (vals (fold add vs c))"
  by (auto simp: vals_fold)

lemma contains_load: "contains (fold add vs empty) v \<longleftrightarrow> v \<in> set vs"
  by (simp add: contains_iff set_vals_fold vals_empty)

end

section \<open>Checksums\<close>

text \<open>
  What the framing of messages and the table of paths expect of a checksum: it tells apart two
  texts that differ only inside a window of a few bytes.
\<close>

locale block_checksum =
  fixes sum :: "u8 list \<Rightarrow> u32"
    and window :: nat
  assumes detects: "length bs = length bs' \<Longrightarrow> length bs \<le> window \<Longrightarrow> bs \<noteq> bs' \<Longrightarrow>
    sum (xs @ bs @ ys) \<noteq> sum (xs @ bs' @ ys)"
begin

lemma differs_prefix: "length bs = length bs' \<Longrightarrow> length bs \<le> window \<Longrightarrow> bs \<noteq> bs' \<Longrightarrow> sum (bs @ ys) \<noteq> sum (bs' @ ys)"
  using detects [of bs bs' "[]" ys] by simp

lemma short_inject: "length bs = length bs' \<Longrightarrow> length bs \<le> window \<Longrightarrow> sum bs = sum bs' \<longleftrightarrow> bs = bs'"
  using detects [of bs bs' "[]" "[]"] by auto

end

section \<open>Numbers in texts\<close>

text \<open>\<^verbatim>\<open>std::to_string\<close> of an unsigned number.\<close>

fun dec_string :: "nat \<Rightarrow> string" where
  "dec_string n =
     (if n < 10 then [''0123456789'' ! n] else dec_string (n div 10) @ [''0123456789'' ! (n mod 10)])"

declare dec_string.simps [simp del]

lemma dec_string_length: "n < 10 ^ Suc k \<Longrightarrow> length (dec_string n) \<le> Suc k"
proof (induction k arbitrary: n)
  case 0
  then show ?case by (simp add: dec_string.simps [of n])
next
  case (Suc k)
  then have "length (dec_string (n div 10)) \<le> Suc k" by simp
  then show ?case by (simp add: dec_string.simps [of n])
qed

end
