(* ===== verification/Crc32.thy ===== *)
theory Crc32
  imports Prelude
begin

text \<open>
  The checksum of \<^verbatim>\<open>src/src/change_lib/crc32.hpp\<close>: the table of
  \<^verbatim>\<open>generate_crc_table\<close> and the byte loop of \<^verbatim>\<open>crc\<close>, at the width of
  \<^verbatim>\<open>std::uint_fast32_t\<close>, which is 64 bits on one platform and 32 on the other and is
  therefore a type parameter here. The reference is the bit-serial shift register.
\<close>

section \<open>The code\<close>

definition reverse_polynomial :: "'w::len word" where
  "reverse_polynomial = 0xEDB88320"

text \<open>One turn of the loop in \<^verbatim>\<open>byte_checksum::operator()\<close>.\<close>

definition crc_round :: "'w::len word \<Rightarrow> 'w word" where
  "crc_round checksum =
     drop_bit 1 checksum XOR (if checksum AND 1 \<noteq> 0 then reverse_polynomial else 0)"

definition byte_checksum :: "nat \<Rightarrow> 'w::len word" where
  "byte_checksum n = (crc_round ^^ 8) (of_nat n)"

definition generate_crc_table :: "'w::len word list" where
  "generate_crc_table = map byte_checksum [0..<256]"

text \<open>The function object that \<^verbatim>\<open>std::accumulate\<close> folds over the bytes.\<close>

definition crc_index :: "'w::len word \<Rightarrow> u8 \<Rightarrow> nat" where
  "crc_index checksum v = unat ((checksum XOR ucast v) AND 0xFF)"

definition crc_step :: "'w::len word \<Rightarrow> u8 \<Rightarrow> 'w word" where
  "crc_step checksum v =
     (generate_crc_table ! crc_index checksum v) XOR drop_bit 8 checksum"

definition crc :: "u8 list \<Rightarrow> 'w::len word" where
  "crc bytes = 0xFFFFFFFF AND NOT (foldl crc_step (NOT 0 AND 0xFFFFFFFF) bytes)"

text \<open>
  A \<^verbatim>\<open>std::string\<close> is iterated as \<^verbatim>\<open>char\<close>s, each converted to \<^verbatim>\<open>uint_fast8_t\<close>, and
  callers cast the sum to \<^verbatim>\<open>u32\<close>.
\<close>

definition string_bytes :: "string \<Rightarrow> u8 list" where
  "string_bytes s = map of_char s"

definition crc_u32 :: "u8 list \<Rightarrow> u32" where
  "crc_u32 bytes = ucast (crc bytes :: u64)"

section \<open>The reference: CRC-32 as a polynomial remainder, most significant bit first\<close>

text \<open>
  The textbook register shifts left under the polynomial \<open>0x04C11DB7\<close> and takes the message
  one bit at a time, least significant bit of each byte first; the remainder is reflected and
  complemented at the end. Nothing of the code's table or of its reversed polynomial is used.
\<close>

definition reflect :: "u32 \<Rightarrow> u32" where
  "reflect w = horner_sum of_bool 2 (map (bit w) (rev [0..<32]))"

definition crc32_bit :: "u32 \<Rightarrow> bool \<Rightarrow> u32" where
  "crc32_bit r b = push_bit 1 r XOR (if bit r 31 \<noteq> b then 0x04C11DB7 else 0)"

definition message_bits :: "u8 list \<Rightarrow> bool list" where
  "message_bits bytes = concat (map (\<lambda>v. map (bit v) [0..<8]) bytes)"

definition crc32_spec :: "u8 list \<Rightarrow> u32" where
  "crc32_spec bytes = NOT (reflect (foldl crc32_bit (NOT 0) (message_bits bytes)))"

text \<open>Between the two: the code's register fed a whole byte at a time, with no table.\<close>

definition crc_shift :: "'w::len word \<Rightarrow> u8 \<Rightarrow> 'w word" where
  "crc_shift checksum v = (crc_round ^^ 8) (checksum XOR ucast v)"

definition crc_reference :: "u8 list \<Rightarrow> u32" where
  "crc_reference bytes = NOT (foldl crc_shift (NOT 0) bytes)"

section \<open>The register is linear\<close>

lemma and_one_bit: "x AND 1 \<noteq> 0 \<longleftrightarrow> bit (x::'w::len word) 0"
  by (auto simp: and_one_eq odd_iff_mod_2_eq_one bit_0)

lemma crc_round_bit:
  "crc_round x = drop_bit 1 x XOR (if bit x 0 then reverse_polynomial else 0)"
  by (simp add: crc_round_def and_one_bit)

lemma crc_round_xor: "crc_round (x XOR y) = crc_round x XOR crc_round y"
  by (rule bit_eqI) (auto simp: crc_round_bit bit_xor_iff bit_drop_bit_eq)

lemma crc_rounds_xor: "(crc_round ^^ n) (x XOR y) = (crc_round ^^ n) x XOR (crc_round ^^ n) y"
  by (induction n) (simp_all add: crc_round_xor)

lemma crc_rounds_low_zero:
  "(\<And>i. i < n \<Longrightarrow> \<not> bit x i) \<Longrightarrow> (crc_round ^^ n) x = drop_bit n x"
proof (induction n)
  case 0
  then show ?case by simp
next
  case (Suc n)
  then have "(crc_round ^^ n) x = drop_bit n x" by simp
  moreover have "\<not> bit (drop_bit n x) 0"
    using Suc.prems [of n] by (simp add: bit_drop_bit_eq)
  ultimately show ?case by (simp add: crc_round_bit [of "drop_bit n x"])
qed

section \<open>The table lookup is eight rounds\<close>

lemma mask8: "(0xFF :: 'w::len word) = mask 8"
  by (simp add: mask_eq_exp_minus_1)

lemma crc_index_less: "crc_index checksum v < 256"
  unfolding crc_index_def mask8 take_bit_eq_mask [symmetric] unsigned_take_bit_eq
  using take_bit_nat_less_exp [of 8] by simp

lemma crc_step_eq_shift: "crc_step checksum v = crc_shift checksum v"
proof -
  let ?x = "checksum XOR ucast v"
  have "generate_crc_table ! crc_index checksum v = (crc_round ^^ 8) (?x AND 0xFF)"
    using crc_index_less [of checksum v]
    by (simp add: generate_crc_table_def byte_checksum_def crc_index_def)
  moreover have "(crc_round ^^ 8) (?x AND NOT 0xFF) = drop_bit 8 (?x AND NOT 0xFF)"
    by (rule crc_rounds_low_zero) (auto simp: bit_simps mask8)
  moreover have "drop_bit 8 (?x AND NOT 0xFF) = drop_bit 8 checksum"
    by (rule bit_eqI) (auto simp: bit_simps mask8 dest: bit_imp_le_length)
  moreover have "(?x AND 0xFF) XOR (?x AND NOT 0xFF) = ?x"
    by (rule bit_eqI) (auto simp: bit_simps)
  ultimately show ?thesis
    unfolding crc_step_def crc_shift_def by (metis crc_rounds_xor)
qed

section \<open>Only the low 32 bits matter\<close>

lemma mask32: "32 \<le> LENGTH('w) \<Longrightarrow> (0xFFFFFFFF :: 'w::len word) = mask 32"
  by (simp add: mask_eq_exp_minus_1)

lemma ucast_poly:
  assumes "32 \<le> LENGTH('w::len)"
  shows "ucast (reverse_polynomial :: u32) = (reverse_polynomial :: 'w word)"
  by (simp add: reverse_polynomial_def)

lemma ucast_crc_round:
  assumes "32 \<le> LENGTH('w::len)"
  shows "crc_round (ucast x :: 'w word) = ucast (crc_round (x :: u32))"
proof -
  have "drop_bit 1 (ucast x :: 'w word) = ucast (drop_bit 1 x)"
    using assms by (intro bit_eqI) (auto simp: bit_simps dest: bit_imp_le_length)
  moreover have "bit (ucast x :: 'w word) 0 = bit x 0"
    by (simp add: bit_simps)
  moreover have "ucast (a XOR b) = (ucast a XOR ucast b :: 'w word)" for a b :: u32
    by (rule bit_eqI) (auto simp: bit_simps)
  ultimately show ?thesis
    by (simp add: crc_round_bit ucast_poly [OF assms])
qed

lemma ucast_crc_rounds:
  "32 \<le> LENGTH('w::len) \<Longrightarrow>
    (crc_round ^^ n) (ucast x :: 'w word) = ucast ((crc_round ^^ n) (x :: u32))"
  by (induction n) (simp_all add: ucast_crc_round)

lemma ucast_crc_shift:
  assumes "32 \<le> LENGTH('w::len)"
  shows "crc_shift (ucast x :: 'w word) v = ucast (crc_shift (x :: u32) v)"
proof -
  have "(ucast x XOR ucast v :: 'w word) = ucast (x XOR ucast v)"
    using assms by (intro bit_eqI) (auto simp: bit_simps dest: bit_imp_le_length)
  then show ?thesis by (simp add: crc_shift_def ucast_crc_rounds [OF assms])
qed

lemma ucast_fold_shift:
  "32 \<le> LENGTH('w::len) \<Longrightarrow>
    foldl crc_shift (ucast x :: 'w word) bytes = ucast (foldl crc_shift (x :: u32) bytes)"
  by (induction bytes arbitrary: x) (simp_all add: ucast_crc_shift)

lemma crc_step_shift: "crc_step = crc_shift"
  by (intro ext) (rule crc_step_eq_shift)

lemma crc_is_reference:
  "32 \<le> LENGTH('w::len) \<Longrightarrow> (crc bytes :: 'w word) = ucast (crc_reference bytes)"
proof -
  assume w: "32 \<le> LENGTH('w::len)"
  have start: "(NOT 0 AND 0xFFFFFFFF :: 'w word) = ucast (NOT 0 :: u32)"
    unfolding mask32 [OF w] by (rule bit_eqI) (auto simp: bit_simps)
  have "(0xFFFFFFFF AND NOT (ucast s) :: 'w word) = ucast (NOT s)" for s :: u32
    unfolding mask32 [OF w] by (rule bit_eqI) (auto simp: bit_simps dest: bit_imp_le_length)
  then show ?thesis
    unfolding crc_def crc_reference_def crc_step_shift start ucast_fold_shift [OF w] by simp
qed

lemma crc_u32_reference: "crc_u32 bytes = crc_reference bytes"
proof -
  have "(crc bytes :: u64) = ucast (crc_reference bytes)"
    by (rule crc_is_reference) simp
  then show ?thesis by (simp add: crc_u32_def)
qed

section \<open>Against the most-significant-bit-first specification\<close>

lemma bit_reflect: "bit (reflect w) i \<longleftrightarrow> i < 32 \<and> bit w (31 - i)"
  by (auto simp: reflect_def bit_horner_sum_bit_word_iff rev_nth dest: bit_imp_le_length)

lemma reflect_poly: "reflect 0x04C11DB7 = reverse_polynomial"
  by (simp add: reflect_def reverse_polynomial_def upt_rec)

lemma reflect_zero: "reflect 0 = 0"
  by (rule bit_eqI) (simp add: bit_reflect)

lemma reflect_xor: "reflect (x XOR y) = reflect x XOR reflect y"
  by (rule bit_eqI) (auto simp: bit_reflect bit_simps)

lemma reflect_crc32_bit: "reflect (crc32_bit r b) = crc_round (reflect r XOR of_bool b)"
proof -
  have "reflect (push_bit 1 r) = drop_bit 1 (reflect r XOR of_bool b)"
    by (rule bit_eqI) (auto simp: bit_reflect bit_drop_bit_eq bit_xor_iff bit_push_bit_iff bit_of_bool_iff
        simp del: push_bit_Suc)
  moreover have "bit (reflect r XOR of_bool b) 0 \<longleftrightarrow> bit r 31 \<noteq> b"
    by (auto simp: bit_reflect bit_simps)
  ultimately show ?thesis
    by (simp add: crc32_bit_def crc_round_bit reflect_xor reflect_poly reflect_zero)
qed

definition serial_round :: "u32 \<Rightarrow> bool \<Rightarrow> u32" where
  "serial_round c b = crc_round (c XOR of_bool b)"

lemma reflect_fold: "reflect (foldl crc32_bit r bs) = foldl serial_round (reflect r) bs"
  by (induction bs arbitrary: r) (simp_all add: reflect_crc32_bit serial_round_def)

lemma crc_rounds_serial:
  "(crc_round ^^ n) (c XOR take_bit n w) = foldl serial_round c (map (bit w) [0..<n])"
  for c w :: u32
proof (induction n)
  case 0
  then show ?case by simp
next
  case (Suc n)
  let ?top = "push_bit n (of_bool (bit w n)) :: u32"
  have "take_bit (Suc n) w = take_bit n w XOR ?top"
    by (rule bit_eqI) (auto simp: bit_simps less_Suc_eq)
  then have "(crc_round ^^ n) (c XOR take_bit (Suc n) w)
      = (crc_round ^^ n) (c XOR take_bit n w) XOR (crc_round ^^ n) ?top"
    by (simp add: crc_rounds_xor xor.assoc)
  moreover have "(crc_round ^^ n) ?top = drop_bit n ?top"
    by (rule crc_rounds_low_zero) (auto simp: bit_simps)
  moreover have "bit w n \<Longrightarrow> n < 32"
    by (auto dest: bit_imp_le_length)
  then have "drop_bit n ?top = of_bool (bit w n)"
    by (intro bit_eqI) (auto simp: bit_simps)
  ultimately show ?case using Suc.IH by (simp add: serial_round_def)
qed

lemma crc_shift_serial: "crc_shift c v = foldl serial_round c (map (bit v) [0..<8])"
proof -
  have "take_bit 8 (ucast v :: u32) = ucast v"
    by (rule bit_eqI) (auto simp: bit_simps dest: bit_imp_le_length)
  moreover have "map (bit (ucast v :: u32)) [0..<8] = map (bit v) [0..<8]"
    by (auto simp: bit_simps)
  ultimately show ?thesis
    using crc_rounds_serial [of 8 c "ucast v"] by (simp only: crc_shift_def)
qed

lemma fold_crc_shift_serial: "foldl crc_shift c bytes = foldl serial_round c (message_bits bytes)"
  by (induction bytes arbitrary: c) (simp_all add: message_bits_def crc_shift_serial)

lemma spec_is_reference: "crc32_spec bytes = crc_reference bytes"
proof -
  have "reflect (NOT 0) = NOT 0"
    by (rule bit_eqI) (auto simp: bit_reflect bit_simps)
  then show ?thesis
    by (simp add: crc32_spec_def crc_reference_def reflect_fold fold_crc_shift_serial)
qed

section \<open>The register loses no information\<close>

lemma crc_round_top_bit: "bit (crc_round (x :: u32)) 31 = bit x 0"
  by (auto simp: crc_round_bit bit_simps reverse_polynomial_def dest: bit_imp_le_length)

lemma crc_round_inject: "crc_round (x :: u32) = crc_round y \<longleftrightarrow> x = y"
proof
  assume eq: "crc_round x = crc_round y"
  then have low: "bit x 0 = bit y 0" by (metis crc_round_top_bit)
  with eq have "drop_bit 1 x = drop_bit 1 y"
    by (auto simp: crc_round_bit xor.assoc dest: arg_cong [where f = "\<lambda>w. w XOR reverse_polynomial"])
  then have "bit x (Suc i) = bit y (Suc i)" for i
    by (metis bit_drop_bit_eq comp_apply plus_1_eq_Suc)
  with low show "x = y"
    by (intro bit_eqI) (metis not0_implies_Suc)
qed simp

lemma crc_rounds_inject: "(crc_round ^^ n) (x :: u32) = (crc_round ^^ n) y \<longleftrightarrow> x = y"
  by (induction n) (simp_all add: crc_round_inject)

lemma word_xor_cancel: "x XOR z = y XOR z \<longleftrightarrow> x = (y :: 'w::len word)"
  by (metis word_bw_same(3) xor.assoc xor.right_neutral)

lemma fold_shift_inject:
  "foldl crc_shift (x :: u32) ys = foldl crc_shift y ys \<longleftrightarrow> x = y"
  by (induction ys arbitrary: x y) (simp_all add: crc_shift_def crc_rounds_inject word_xor_cancel)

primrec le_word :: "u8 list \<Rightarrow> u32" where
  "le_word [] = 0"
| "le_word (b # bs) = ucast b XOR push_bit 8 (le_word bs)"

lemma bit_le_word: "bit (le_word bs) i \<Longrightarrow> i < 8 * length bs"
  by (induction bs arbitrary: i)
    (fastforce simp: bit_simps dest: bit_imp_le_length)+

lemma le_word_inject:
  assumes "length bs = length bs'" and "length bs \<le> 4" and "le_word bs = le_word bs'"
  shows "bs = bs'"
  using assms
proof (induction bs bs' rule: list_induct2)
  case Nil
  then show ?case by simp
next
  case (Cons b bs b' bs')
  have eq: "bit (ucast b XOR push_bit 8 (le_word bs)) i = bit (ucast b' XOR push_bit 8 (le_word bs')) i" for i
    using Cons.prems(2) by simp
  have "b = b'"
  proof (rule bit_eqI)
    fix n assume "possible_bit TYPE(u8) n"
    then show "bit b n = bit b' n" using eq [of n] by (auto simp: bit_simps)
  qed
  moreover have "le_word bs = le_word bs'"
  proof (rule bit_eqI)
    fix n
    have "bit (le_word bs) n \<Longrightarrow> n < 24" "bit (le_word bs') n \<Longrightarrow> n < 24"
      using bit_le_word [of bs n] bit_le_word [of bs' n] Cons.hyps Cons.prems(1) by auto
    then show "bit (le_word bs) n = bit (le_word bs') n"
      using eq [of "n + 8"] by (auto simp: bit_simps dest: bit_imp_le_length)
  qed
  ultimately show ?case using Cons.IH Cons.prems(1) by simp
qed

lemma fold_shift_short:
  "length bs \<le> 4 \<Longrightarrow>
    foldl crc_shift (c :: u32) bs = (crc_round ^^ (8 * length bs)) (c XOR le_word bs)"
proof (induction bs arbitrary: c)
  case Nil
  then show ?case by simp
next
  case (Cons b bs)
  have low: "i < 24" if "bit (le_word bs) i" for i
    using bit_le_word [OF that] Cons.prems by simp
  have "(crc_round ^^ 8) (push_bit 8 (le_word bs)) = drop_bit 8 (push_bit 8 (le_word bs))"
    by (rule crc_rounds_low_zero) (simp add: bit_simps)
  also have "\<dots> = le_word bs"
    by (rule bit_eqI) (use low in \<open>fastforce simp: bit_simps\<close>)
  finally have "(crc_round ^^ 8) (c XOR le_word (b # bs)) = crc_shift c b XOR le_word bs"
    by (simp add: crc_shift_def crc_rounds_xor xor.assoc [symmetric])
  moreover have "(crc_round ^^ (8 * length (b # bs))) y = (crc_round ^^ (8 * length bs)) ((crc_round ^^ 8) y)"
    for y :: u32
    by (simp add: funpow_add [symmetric] add.commute flip: comp_apply [of "crc_round ^^ (8 * length bs)" "crc_round ^^ 8"])
  ultimately show ?case using Cons by simp
qed

lemma crc_shift_unrolled:
  "crc_shift c v = crc_round (crc_round (crc_round (crc_round (crc_round (crc_round (crc_round (crc_round (c XOR ucast v))))))))"
  by (simp add: crc_shift_def numeral_eq_Suc)


lemmas crc_eval = crc_u32_reference crc_reference_def string_bytes_def crc_shift_unrolled
  crc_round_def reverse_polynomial_def

lemma crc_u32_Nil [simp]: "crc_u32 [] = 0"
  by (simp add: crc_eval)

lemma crc_block_differs:
  assumes "length bs = length bs'" and "length bs \<le> 4" and "bs \<noteq> bs'"
  shows "crc_u32 (xs @ bs @ ys) \<noteq> crc_u32 (xs @ bs' @ ys)"
proof
  assume "crc_u32 (xs @ bs @ ys) = crc_u32 (xs @ bs' @ ys)"
  then have "NOT (foldl crc_shift (NOT 0 :: u32) (xs @ bs @ ys)) = NOT (foldl crc_shift (NOT 0) (xs @ bs' @ ys))"
    by (simp only: crc_u32_reference crc_reference_def)
  then have "foldl crc_shift (foldl crc_shift (NOT 0 :: u32) xs) bs
      = foldl crc_shift (foldl crc_shift (NOT 0) xs) bs'"
    by (simp only: bit.compl_eq_compl_iff foldl_append fold_shift_inject)
  then have "le_word bs = le_word bs'"
    using assms by (simp add: fold_shift_short crc_rounds_inject word_xor_cancel xor.commute [of _ "le_word _"])
  with assms show False by (simp add: le_word_inject)
qed

interpretation crc_sum: block_checksum crc_u32 4
  by unfold_locales (rule crc_block_differs)

section \<open>Properties\<close>

text \<open>
  C1: at every width of \<^verbatim>\<open>uint_fast32_t\<close> that the platforms use (at least 32 bits) the
  table-driven \<^verbatim>\<open>crc\<close> returns the CRC-32 of the bytes as the bit-serial specification
  computes it, with every higher bit zero, so the casts to \<^verbatim>\<open>u32\<close> at the call sites lose
  nothing.
\<close>

theorem crc_is_crc32:
  assumes "32 \<le> LENGTH('w::len)"
  shows "(crc bytes :: 'w word) = ucast (crc32_spec bytes)"
  using assms by (simp add: crc_is_reference spec_is_reference)

theorem crc_is_crc32_witness:
  "32 \<le> LENGTH(64) \<and> (crc (string_bytes ''123456789'') :: u64) = 0xCBF43926"
proof -
  have w: "32 \<le> LENGTH(64)" by simp
  have "crc32_spec (string_bytes ''123456789'') = 0xCBF43926"
    by (simp add: spec_is_reference crc_eval)
  with w crc_is_crc32 [OF w, of "string_bytes ''123456789''"] show ?thesis by simp
qed

text \<open>
  C21: the checksum detects every error confined to at most four consecutive bytes: replacing
  a block of a byte string by a different block of the same length changes the checksum. A
  corrupted message body of that kind is always rejected, and two directory names that
  differ only there never collide in the path table.
\<close>

theorem crc_detects_burst:
  assumes "length bs = length bs'" and "length bs \<le> 4" and "bs \<noteq> bs'"
  shows "crc_u32 (xs @ bs @ ys) \<noteq> crc_u32 (xs @ bs' @ ys)"
  using assms by (rule crc_sum.detects)

theorem crc_detects_burst_witness:
  "crc_u32 ([1] @ [2, 3] @ [4]) \<noteq> crc_u32 ([1] @ [7, 3] @ [4])"
  by (rule crc_detects_burst) simp_all

end
