(* ===== verification/Wall_Cache.thy ===== *)
theory Wall_Cache
  imports Prelude "HOL-Library.Product_Lexorder"
begin

text \<open>
  One collection of wallpapers: \<^verbatim>\<open>cache_item\<close> and the class template \<^verbatim>\<open>cache\<close> of
  \<^verbatim>\<open>src/src/change_lib/wall_cache.hpp\<close>. A cache is a vector of items in insertion order and a
  flag that says whether it has to be written back; an iterator is a position in the vector.
  The value type is a parameter, as in the template.
\<close>

section \<open>Items\<close>

datatype cache_state_e = Null | Unused | Used | Favorate

primrec state_code :: "cache_state_e \<Rightarrow> nat" where
  "state_code Null = 0"
| "state_code Unused = 1"
| "state_code Used = 2"
| "state_code Favorate = 3"

lemma state_code_inject [simp]: "state_code s = state_code t \<longleftrightarrow> s = t"
  by (cases s; cases t) simp_all

text \<open>Enumerators compare by their underlying value.\<close>

instantiation cache_state_e :: linorder
begin

definition less_eq_cache_state_e :: "cache_state_e \<Rightarrow> cache_state_e \<Rightarrow> bool" where
  "less_eq_cache_state_e s t \<longleftrightarrow> state_code s \<le> state_code t"

definition less_cache_state_e :: "cache_state_e \<Rightarrow> cache_state_e \<Rightarrow> bool" where
  "less_cache_state_e s t \<longleftrightarrow> state_code s < state_code t"

instance
  by standard (auto simp: less_eq_cache_state_e_def less_cache_state_e_def)

end

record 'v cache_item =
  cache_value :: 'v
  cache_state :: cache_state_e
  loc :: u32

lemma cache_item_eq_iff:
  "x = y \<longleftrightarrow> cache_value x = cache_value y \<and> cache_state x = cache_state y \<and> loc x = loc y \<and>
    cache_item.more x = cache_item.more y"
  by (cases x; cases y) simp

text \<open>The defaulted \<^verbatim>\<open>operator<=>\<close> compares the members in the order of their declaration.\<close>

definition item_less ::
    "('a :: linorder, 'b :: linorder) cache_item_scheme \<Rightarrow> ('a, 'b) cache_item_scheme \<Rightarrow> bool" where
  "item_less x y \<longleftrightarrow>
     cache_value x < cache_value y \<or>
     cache_value x = cache_value y \<and> (cache_state x < cache_state y \<or>
     cache_state x = cache_state y \<and> (loc x < loc y \<or>
     loc x = loc y \<and> cache_item.more x < cache_item.more y))"

instantiation cache_item_ext :: (linorder, linorder) linorder
begin

definition less_cache_item_ext ::
    "('a, 'b) cache_item_scheme \<Rightarrow> ('a, 'b) cache_item_scheme \<Rightarrow> bool" where
  "less_cache_item_ext x y \<longleftrightarrow> item_less x y"

definition less_eq_cache_item_ext ::
    "('a, 'b) cache_item_scheme \<Rightarrow> ('a, 'b) cache_item_scheme \<Rightarrow> bool" where
  "less_eq_cache_item_ext x y \<longleftrightarrow> x < y \<or> x = y"

instance
proof
  fix x y z :: "('a, 'b) cache_item_scheme"
  let ?key = "\<lambda>x :: ('a, 'b) cache_item_scheme. (cache_value x, cache_state x, loc x, cache_item.more x)"
  have less: "x < y \<longleftrightarrow> ?key x < ?key y" for x y
    by (simp only: less_cache_item_ext_def item_less_def less_prod_simp le_less) blast
  have le: "x \<le> y \<longleftrightarrow> ?key x \<le> ?key y" for x y
    unfolding less_eq_cache_item_ext_def less by (auto simp only: cache_item_eq_iff le_less prod.inject)
  show "x < y \<longleftrightarrow> x \<le> y \<and> \<not> y \<le> x" unfolding less le by (rule less_le_not_le)
  show "x \<le> x" unfolding le by (rule order_refl)
  show "x \<le> y \<Longrightarrow> y \<le> z \<Longrightarrow> x \<le> z" unfolding le by (rule order_trans)
  show "x \<le> y \<Longrightarrow> y \<le> x \<Longrightarrow> x = y"
    unfolding le using antisym [of "?key x" "?key y"] by (simp only: cache_item_eq_iff prod.inject)
  show "x \<le> y \<or> y \<le> x" unfolding le by (rule linear)
qed

end

text \<open>The default member initialisers; \<open>v\<close> is the value-initialised \<^verbatim>\<open>Value\<close>.\<close>

definition default_item :: "'v \<Rightarrow> 'v cache_item" where
  "default_item v = \<lparr>cache_value = v, cache_state = Null, loc = 0\<rparr>"

definition make_item :: "'v \<Rightarrow> cache_state_e \<Rightarrow> u32 \<Rightarrow> 'v cache_item" where
  "make_item v s l = \<lparr>cache_value = v, cache_state = s, loc = l\<rparr>"

section \<open>The container\<close>

record 'v cache =
  m_modified :: bool
  m_list :: "'v cache_item list"

lemma cache_eq_iff:
  "x = y \<longleftrightarrow> m_modified x = m_modified y \<and> m_list x = m_list y \<and> cache.more x = cache.more y"
  by (cases x; cases y) simp

text \<open>The defaulted \<^verbatim>\<open>operator<=>\<close> of the class: the flag first, then the items.\<close>

definition cache_less :: "('a :: linorder, 'b :: linorder) cache_scheme \<Rightarrow> ('a, 'b) cache_scheme \<Rightarrow> bool" where
  "cache_less x y \<longleftrightarrow>
     m_modified x < m_modified y \<or>
     m_modified x = m_modified y \<and> (m_list x < m_list y \<or>
     m_list x = m_list y \<and> cache.more x < cache.more y)"

instantiation cache_ext :: (linorder, linorder) linorder
begin

definition less_cache_ext :: "('a, 'b) cache_scheme \<Rightarrow> ('a, 'b) cache_scheme \<Rightarrow> bool" where
  "less_cache_ext x y \<longleftrightarrow> cache_less x y"

definition less_eq_cache_ext :: "('a, 'b) cache_scheme \<Rightarrow> ('a, 'b) cache_scheme \<Rightarrow> bool" where
  "less_eq_cache_ext x y \<longleftrightarrow> x < y \<or> x = y"

instance
  by standard (auto simp: less_cache_ext_def cache_less_def less_eq_cache_ext_def cache_eq_iff)

end

definition empty_cache :: "'v cache" where
  "empty_cache = \<lparr>m_modified = False, m_list = []\<rparr>"

definition sized_cache :: "'v \<Rightarrow> nat \<Rightarrow> 'v cache" where
  "sized_cache v n = \<lparr>m_modified = False, m_list = replicate n (default_item v)\<rparr>"

definition cache_contains :: "'v cache \<Rightarrow> 'v \<Rightarrow> bool" where
  "cache_contains c v \<longleftrightarrow> find_pos (\<lambda>x. cache_value x = v) (m_list c) \<noteq> length (m_list c)"

definition cache_insert :: "'v \<Rightarrow> u32 \<Rightarrow> 'v cache \<Rightarrow> 'v cache" where
  "cache_insert v l c =
     (if \<not> cache_contains c v
      then c\<lparr>m_list := m_list c @ [make_item v Unused l], m_modified := True\<rparr>
      else c)"

definition cache_insert_elem :: "'v cache_item \<Rightarrow> 'v cache \<Rightarrow> 'v cache" where
  "cache_insert_elem item c =
     (if find_pos (\<lambda>x. x = item) (m_list c) = length (m_list c)
      then c\<lparr>m_list := m_list c @ [item], m_modified := True\<rparr>
      else c)"

definition cache_clear :: "'v cache \<Rightarrow> 'v cache" where
  "cache_clear c = c\<lparr>m_list := [], m_modified := True\<rparr>"

text \<open>
  \<^verbatim>\<open>erase\<close> needs a dereferenceable iterator; it returns the iterator after the removed
  element.
\<close>

definition cache_erase :: "nat \<Rightarrow> 'v cache \<Rightarrow> (nat \<times> 'v cache) result" where
  "cache_erase pos c =
     (if pos < length (m_list c)
      then Inr (pos, c\<lparr>m_modified := True, m_list := erase_at pos (m_list c)\<rparr>)
      else Inl Undefined)"

definition cache_size :: "'v cache \<Rightarrow> nat" where
  "cache_size c = length (m_list c)"

definition cache_empty :: "'v cache \<Rightarrow> bool" where
  "cache_empty c \<longleftrightarrow> m_list c = []"

definition cache_modified :: "'v cache \<Rightarrow> bool" where
  "cache_modified c = m_modified c"

text \<open>
  The non-const \<^verbatim>\<open>data\<close>, \<^verbatim>\<open>begin\<close> and \<^verbatim>\<open>end\<close> raise the flag, because the caller may
  write through what they return; their const overloads do not.
\<close>

definition cache_data :: "'v cache \<Rightarrow> 'v cache_item list \<times> 'v cache" where
  "cache_data c = (let c' = c\<lparr>m_modified := True\<rparr> in (m_list c', c'))"

definition cache_data_const :: "'v cache \<Rightarrow> 'v cache_item list" where
  "cache_data_const c = m_list c"

definition cache_begin :: "'v cache \<Rightarrow> nat \<times> 'v cache" where
  "cache_begin c = (0, c\<lparr>m_modified := True\<rparr>)"

definition cache_end :: "'v cache \<Rightarrow> nat \<times> 'v cache" where
  "cache_end c = (length (m_list c), c\<lparr>m_modified := True\<rparr>)"

definition cache_cbegin :: "'v cache \<Rightarrow> nat" where
  "cache_cbegin c = 0"

definition cache_cend :: "'v cache \<Rightarrow> nat" where
  "cache_cend c = length (m_list c)"

text \<open>A reverse iterator is the number of elements in front of it.\<close>

definition cache_rbegin :: "'v cache \<Rightarrow> nat \<times> 'v cache" where
  "cache_rbegin c = (length (m_list c), c\<lparr>m_modified := True\<rparr>)"

definition cache_rend :: "'v cache \<Rightarrow> nat \<times> 'v cache" where
  "cache_rend c = (0, c\<lparr>m_modified := True\<rparr>)"

text \<open>
  The const overloads of \<^verbatim>\<open>rbegin\<close> and \<^verbatim>\<open>rend\<close> call \<^verbatim>\<open>rbegin()\<close> and \<^verbatim>\<open>rend()\<close> on a
  const object, that is, themselves; \<open>None\<close> is a call that never returns.
\<close>

partial_function (option) cache_rbegin_const :: "'v cache \<Rightarrow> nat option" where
  "cache_rbegin_const c = cache_rbegin_const c"

partial_function (option) cache_rend_const :: "'v cache \<Rightarrow> nat option" where
  "cache_rend_const c = cache_rend_const c"

definition cache_crbegin :: "'v cache \<Rightarrow> nat option" where
  "cache_crbegin c = cache_rbegin_const c"

definition cache_crend :: "'v cache \<Rightarrow> nat option" where
  "cache_crend c = cache_rend_const c"

text \<open>\<^verbatim>\<open>operator[]\<close> reads and writes through \<^verbatim>\<open>vector::at\<close>, which checks the index.\<close>

definition cache_at :: "'v cache \<Rightarrow> nat \<Rightarrow> 'v cache_item result" where
  "cache_at c idx =
     (if idx < length (m_list c) then Inr (m_list c ! idx) else Inl (Throws Std_out_of_range))"

definition cache_at_put :: "'v cache \<Rightarrow> nat \<Rightarrow> 'v cache_item \<Rightarrow> 'v cache result" where
  "cache_at_put c idx item =
     (if idx < length (m_list c)
      then Inr (c\<lparr>m_list := (m_list c)[idx := item]\<rparr>)
      else Inl (Throws Std_out_of_range))"

text \<open>
  \<^verbatim>\<open>std::ranges::find\<close> over a non-const cache asks it for \<^verbatim>\<open>begin()\<close> and \<^verbatim>\<open>end()\<close>: it returns
  a position and leaves the flag raised, whether or not anything is found.
\<close>

definition cache_find_value :: "'v \<Rightarrow> 'v cache \<Rightarrow> nat \<times> 'v cache" where
  "cache_find_value v c =
     (find_pos (\<lambda>x. cache_value x = v) (m_list c), snd (cache_end (snd (cache_begin c))))"

section \<open>Formatting\<close>

definition format_state :: "cache_state_e \<Rightarrow> string" where
  "format_state s =
     (case s of Null \<Rightarrow> ''null'' | Unused \<Rightarrow> ''unused'' | Used \<Rightarrow> ''used'' | Favorate \<Rightarrow> ''favorate'')"

definition hex_digit :: "nat \<Rightarrow> char" where
  "hex_digit d = ''0123456789ABCDEF'' ! d"

fun hex_upper :: "nat \<Rightarrow> string" where
  "hex_upper n = (if n < 16 then [hex_digit n] else hex_upper (n div 16) @ [hex_digit (n mod 16)])"

declare hex_upper.simps [simp del]

definition format_item :: "string cache_item \<Rightarrow> string" where
  "format_item x =
     ''Value:'' @ cache_value x @ [CHR 0x0A] @ ''State:'' @ format_state (cache_state x) @
     [CHR 0x0A] @ ''LocID:'' @ hex_upper (unat (loc x)) @ [CHR 0x0A]"

section \<open>What the operations do to the values\<close>

definition cache_values :: "'v cache \<Rightarrow> 'v list" where
  "cache_values c = map cache_value (m_list c)"

text \<open>The invariant the container means to keep: no value occurs twice.\<close>

definition wf_cache :: "'v cache \<Rightarrow> bool" where
  "wf_cache c \<longleftrightarrow> distinct (cache_values c)"

named_theorems cache_simps \<open>the operations of a cache in terms of its list\<close>

lemma make_item_simps [simp]:
  "cache_value (make_item v s l) = v"
  "cache_state (make_item v s l) = s"
  "loc (make_item v s l) = l"
  by (simp_all add: make_item_def)

lemma item_eta: "make_item (cache_value x) (cache_state x) (loc x) = (x :: 'v cache_item)"
  by (simp add: make_item_def)

lemma item_fields [simp]:
  "\<lparr>cache_value = cache_value x, cache_state = cache_state x, loc = loc x\<rparr> = (x :: 'v cache_item)"
  by (cases x) simp

lemma cache_contains_iff [cache_simps]: "cache_contains c v \<longleftrightarrow> v \<in> set (cache_values c)"
  by (auto simp: cache_contains_def cache_values_def find_pos_end_iff)

lemma cache_insert_elem_iff:
  "cache_insert_elem x c =
    (if x \<in> set (m_list c) then c else c\<lparr>m_list := m_list c @ [x], m_modified := True\<rparr>)"
  by (auto simp: cache_insert_elem_def find_pos_end_iff)

lemma empty_cache_simps [simp]:
  "m_list empty_cache = []" "m_modified empty_cache = False" "cache_values empty_cache = []"
  by (simp_all add: empty_cache_def cache_values_def)

lemma cache_values_insert [cache_simps]:
  "cache_values (cache_insert v l c) =
    (if v \<in> set (cache_values c) then cache_values c else cache_values c @ [v])"
  by (auto simp: cache_insert_def cache_contains_iff) (auto simp: cache_values_def)

lemma cache_values_insert_elem [cache_simps]:
  "cache_values (cache_insert_elem x c) =
    (if x \<in> set (m_list c) then cache_values c else cache_values c @ [cache_value x])"
  by (simp add: cache_insert_elem_iff cache_values_def)

lemma cache_erase_Inr [cache_simps]:
  "pos < cache_size c \<Longrightarrow>
    cache_erase pos c = Inr (pos, c\<lparr>m_modified := True, m_list := erase_at pos (m_list c)\<rparr>)"
  by (simp add: cache_erase_def cache_size_def)

lemma cache_find_value_simps [simp]:
  "fst (cache_find_value v c) = find_pos (\<lambda>x. cache_value x = v) (m_list c)"
  "snd (cache_find_value v c) = c\<lparr>m_modified := True\<rparr>"
  by (simp_all add: cache_find_value_def cache_begin_def cache_end_def)

lemma set_cache_values: "v \<in> set (cache_values c) \<longleftrightarrow> (\<exists>x \<in> set (m_list c). cache_value x = v)"
  by (auto simp: cache_values_def)

lemma find_value_less_iff:
  "find_pos (\<lambda>x. cache_value x = v) (m_list c) < cache_size c \<longleftrightarrow> v \<in> set (cache_values c)"
  by (simp add: cache_size_def find_pos_less_iff set_cache_values)

lemma cache_values_modified [simp]: "cache_values (c\<lparr>m_modified := b\<rparr>) = cache_values c"
  by (simp add: cache_values_def)

interpretation value_list: value_store empty_cache cache_contains "\<lambda>v. cache_insert v l" cache_values
  for l
  by unfold_locales (simp_all add: cache_simps)

subsection \<open>The invariant\<close>

lemma wf_empty_cache [simp, intro]: "wf_cache empty_cache"
  by (simp add: wf_cache_def)

lemma wf_cache_insert [intro]: "wf_cache c \<Longrightarrow> wf_cache (cache_insert v l c)"
  unfolding wf_cache_def by (rule value_list.distinct_add)

lemma wf_cache_clear [simp, intro]: "wf_cache (cache_clear c)"
  by (simp add: wf_cache_def cache_clear_def cache_values_def)

lemma wf_cache_erase: "wf_cache c \<Longrightarrow> cache_erase pos c = Inr (i, c') \<Longrightarrow> wf_cache c'"
  by (auto simp: cache_erase_def wf_cache_def cache_values_def map_erase_at distinct_erase_at
      split: if_splits)

lemma wf_cache_insert_elem_iff:
  "wf_cache c \<Longrightarrow> wf_cache (cache_insert_elem x c) \<longleftrightarrow>
    x \<in> set (m_list c) \<or> cache_value x \<notin> set (cache_values c)"
  by (auto simp: wf_cache_def cache_simps)

lemma wf_cache_item_unique:
  "wf_cache c \<Longrightarrow> x \<in> set (m_list c) \<Longrightarrow> y \<in> set (m_list c) \<Longrightarrow>
    cache_value x = cache_value y \<Longrightarrow> x = y"
  by (auto simp: wf_cache_def cache_values_def distinct_map dest: inj_onD)

subsection \<open>Loading a list of values\<close>

lemma m_list_insert:
  "m_list (cache_insert v l c) =
    (if v \<in> set (cache_values c) then m_list c else m_list c @ [make_item v Unused l])"
  by (simp add: cache_insert_def cache_contains_iff)

lemma m_list_load:
  "m_list (fold (\<lambda>v. cache_insert v l) vs empty_cache) =
    map (\<lambda>v. make_item v Unused l) (first_occurrences vs)"
proof (induction vs rule: rev_induct)
  case Nil
  then show ?case by simp
next
  case (snoc v vs)
  then show ?case
    using value_list.vals_load [of l vs] by (auto simp: m_list_insert first_occurrences_snoc)
qed

lemma modified_insert: "m_modified (cache_insert v l c) \<longleftrightarrow> m_modified c \<or> \<not> cache_contains c v"
  by (simp add: cache_insert_def)

lemma modified_load:
  "m_modified (fold (\<lambda>v. cache_insert v l) vs empty_cache) \<longleftrightarrow> vs \<noteq> []"
proof (induction vs rule: rev_induct)
  case Nil
  then show ?case by simp
next
  case (snoc v vs)
  then show ?case
    by (cases vs) (auto simp: modified_insert cache_contains_iff)
qed

subsection \<open>Reverse iterators and hexadecimal digits\<close>

lemma cache_rbegin_const_None: "cache_rbegin_const c = None"
proof (rule ccontr)
  assume "cache_rbegin_const c \<noteq> None"
  then obtain r where "cache_rbegin_const c = Some r" by auto
  then show False
    by (rule cache_rbegin_const.raw_induct [rotated]) blast
qed

lemma cache_rend_const_None: "cache_rend_const c = None"
proof (rule ccontr)
  assume "cache_rend_const c \<noteq> None"
  then obtain r where "cache_rend_const c = Some r" by auto
  then show False
    by (rule cache_rend_const.raw_induct [rotated]) blast
qed

definition hex_value :: "char \<Rightarrow> nat" where
  "hex_value ch = find_pos (\<lambda>d. d = ch) ''0123456789ABCDEF''"

definition hex_number :: "string \<Rightarrow> nat" where
  "hex_number s = foldl (\<lambda>n ch. 16 * n + hex_value ch) 0 s"

lemma hex_value_digit: "d < 16 \<Longrightarrow> hex_value (hex_digit d) = d"
proof -
  assume "d < 16"
  then have "d \<in> set [0..<16]" by simp
  moreover have "\<forall>d \<in> set [0..<16]. hex_value (hex_digit d) = d"
    by (simp add: hex_value_def hex_digit_def upt_rec)
  ultimately show ?thesis by blast
qed

lemma hex_number_upper: "hex_number (hex_upper n) = n"
proof (induction n rule: hex_upper.induct)
  case (1 n)
  show ?case
  proof (cases "n < 16")
    case True
    then show ?thesis by (simp add: hex_upper.simps hex_number_def hex_value_digit)
  next
    case False
    with 1 have "hex_number (hex_upper (n div 16)) = n div 16" by simp
    with False show ?thesis
      by (subst hex_upper.simps) (simp add: hex_number_def hex_value_digit)
  qed
qed

section \<open>Properties\<close>

text \<open>
  Inserting a list of values one by one into a new cache keeps the first occurrence of
  each, in order, as an unused item at the given location; the cache then contains exactly the
  listed values, each once, and is marked modified exactly when the list was not empty.
\<close>

theorem cache_load:
  "let c = fold (\<lambda>v. cache_insert v l) vs empty_cache in
    m_list c = map (\<lambda>v. make_item v Unused l) (first_occurrences vs) \<and>
    (\<forall>v. cache_contains c v \<longleftrightarrow> v \<in> set vs) \<and> wf_cache c \<and> (m_modified c \<longleftrightarrow> vs \<noteq> [])"
  by (simp add: Let_def wf_cache_def m_list_load value_list.contains_load value_list.vals_load modified_load)

text \<open>
  Insertion by value, removal and clearing keep every value unique. Insertion of a whole
  item does so exactly when the item is already there or its value is new: it compares whole
  items, so an item with a known value and another state or location becomes a duplicate.
\<close>

theorem cache_operations_unique:
  assumes "wf_cache c"
  shows "wf_cache (cache_insert v l c) \<and> wf_cache (cache_clear c) \<and>
    (case cache_erase pos c of Inl e \<Rightarrow> \<not> pos < cache_size c | Inr (i, c') \<Rightarrow> wf_cache c') \<and>
    (wf_cache (cache_insert_elem x c) \<longleftrightarrow>
      x \<in> set (m_list c) \<or> cache_value x \<notin> set (cache_values c))"
  using assms wf_cache_erase [OF assms, of pos]
  by (auto simp: wf_cache_insert wf_cache_insert_elem_iff cache_erase_def cache_size_def)

theorem cache_operations_unique_witness:
  "wf_cache (cache_insert ''a'' 1 empty_cache) \<and>
    \<not> wf_cache (cache_insert_elem (make_item ''a'' Used 1) (cache_insert ''a'' 1 empty_cache))"
proof -
  let ?c = "cache_insert ''a'' 1 empty_cache"
  have wf: "wf_cache ?c" by (simp add: wf_cache_insert)
  show ?thesis
    using wf cache_operations_unique [OF wf, of "''a''" 1 0 "make_item ''a'' Used 1"]
    by (simp add: cache_simps m_list_insert) (simp add: make_item_def)
qed

text \<open>
  The const overloads of the reverse iterators, and with them \<^verbatim>\<open>crbegin\<close> and
  \<^verbatim>\<open>crend\<close>, never return: each calls itself.
\<close>

theorem const_reverse_iterators_diverge:
  "cache_rbegin_const c = None \<and> cache_rend_const c = None \<and>
    cache_crbegin c = None \<and> cache_crend c = None"
  by (simp add: cache_crbegin_def cache_crend_def cache_rbegin_const_None cache_rend_const_None)

end
