(* ===== verification/Json_Helper.thy ===== *)
theory Json_Helper
  imports Wall_Cache
begin

text \<open>
  The conversions between caches and JSON documents of
  \<^verbatim>\<open>src/src/change_lib/json_helper.hpp\<close>. The class \<^verbatim>\<open>nlohmann::json\<close> is not part of the
  repository: its documents form a type parameter \<open>'j\<close>, its text form a type parameter \<open>'t\<close>, and
  the operations the sources call are the fields of a record that every definition takes. What
  the library documents of them are the assumptions of the locale \<open>json_library\<close>.
\<close>

section \<open>The interface of the JSON library\<close>

record ('j, 't) json_ops =
  j_null :: 'j
  j_bool :: "bool \<Rightarrow> 'j"
  j_unsigned :: "u64 \<Rightarrow> 'j"
  j_string :: "string \<Rightarrow> 'j"
  j_array :: "'j list \<Rightarrow> 'j"
  j_object :: "(string \<times> 'j) list \<Rightarrow> 'j"
  j_is_null :: "'j \<Rightarrow> bool"
  j_get_u32 :: "'j \<Rightarrow> u32 result"
  j_get_string :: "'j \<Rightarrow> string result"
  j_get_array :: "'j \<Rightarrow> 'j list result"
  j_iterate :: "'j \<Rightarrow> 'j list"
  j_at :: "'j \<Rightarrow> string \<Rightarrow> 'j result"
  j_index :: "'j \<Rightarrow> string \<Rightarrow> 'j result"
  j_index_const :: "'j \<Rightarrow> string \<Rightarrow> 'j result"
  j_put :: "'j \<Rightarrow> string \<Rightarrow> 'j \<Rightarrow> 'j result"
  j_dump :: "'j \<Rightarrow> 't"
  j_parse :: "'t \<Rightarrow> 'j result"

text \<open>
  \<open>j_object\<close> builds an object from a braced list of key and value pairs, \<open>j_at\<close> is the checked
  accessor, \<open>j_index\<close> reads through the non-const \<^verbatim>\<open>operator[]\<close> (a missing key reads as a
  null that is inserted), \<open>j_index_const\<close> through the const one (a missing key is undefined),
  \<open>j_put\<close> assigns through the non-const one, \<open>j_iterate\<close> is the range of a \<^verbatim>\<open>for\<close> loop, and
  \<open>j_dump\<close> and \<open>j_parse\<close> are the stream operators.
\<close>

locale json_library =
  fixes J :: "('j, 't) json_ops"
  assumes is_null_null: "j_is_null J (j_null J)"
    and is_null_string: "\<not> j_is_null J (j_string J s)"
    and is_null_array: "\<not> j_is_null J (j_array J xs)"
    and is_null_object: "\<not> j_is_null J (j_object J kvs)"
    and get_u32_unsigned: "j_get_u32 J (j_unsigned J n) = Inr (ucast n)"
    and get_string_string: "j_get_string J (j_string J s) = Inr s"
    and get_string_null: "j_get_string J (j_null J) = Inl (Throws Json_type_error)"
    and get_array_array: "j_get_array J (j_array J xs) = Inr xs"
    and iterate_array: "j_iterate J (j_array J xs) = xs"
    and at_object: "distinct (map fst kvs) \<Longrightarrow> j_at J (j_object J kvs) k =
          (case map_of kvs k of Some v \<Rightarrow> Inr v | None \<Rightarrow> Inl (Throws Json_out_of_range))"
    and index_object: "distinct (map fst kvs) \<Longrightarrow> j_index J (j_object J kvs) k =
          (case map_of kvs k of Some v \<Rightarrow> Inr v | None \<Rightarrow> Inr (j_null J))"
    and index_null: "j_index J (j_null J) k = Inr (j_null J)"
    and index_const_object: "distinct (map fst kvs) \<Longrightarrow> map_of kvs k = Some v \<Longrightarrow>
          j_index_const J (j_object J kvs) k = Inr v"
    and put_null: "j_put J (j_null J) k v = Inr (j_object J [(k, v)])"
    and put_object: "distinct (map fst kvs) \<Longrightarrow> k \<notin> fst ` set kvs \<Longrightarrow>
          j_put J (j_object J kvs) k v = Inr (j_object J (kvs @ [(k, v)]))"
    and parse_dump: "j_parse J (j_dump J j) = Inr j"
begin

lemmas json_simps =
  is_null_null is_null_string is_null_array is_null_object get_u32_unsigned get_string_string
  get_string_null get_array_array iterate_array at_object index_object index_null put_null
  put_object parse_dump

lemma string_inject: "j_string J s = j_string J t \<longleftrightarrow> s = t"
  by (metis get_string_string Inr_inject)

lemma string_not_null: "j_string J s \<noteq> j_null J"
  by (metis is_null_string is_null_null)

end

section \<open>Conversions\<close>

text \<open>
  \<^verbatim>\<open>NLOHMANN_JSON_SERIALIZE_ENUM\<close>: the table is searched from the front, by enumerator in
  one direction and by document in the other; what is not in the table maps to its first row.
\<close>

definition state_table :: "('j, 't) json_ops \<Rightarrow> (cache_state_e \<times> 'j) list" where
  "state_table J =
     [(Null, j_null J), (Unused, j_string J ''unused''), (Used, j_string J ''used''),
      (Favorate, j_string J ''favorate'')]"

definition enum_to_json :: "('e \<times> 'j) list \<Rightarrow> 'e \<Rightarrow> 'j" where
  "enum_to_json table e =
     (let i = find_pos (\<lambda>p. fst p = e) table in snd (table ! (if i = length table then 0 else i)))"

definition enum_from_json :: "('e \<times> 'j) list \<Rightarrow> 'j \<Rightarrow> 'e" where
  "enum_from_json table j =
     (let i = find_pos (\<lambda>p. snd p = j) table in fst (table ! (if i = length table then 0 else i)))"

definition item_to_json :: "('j, 't) json_ops \<Rightarrow> string cache_item \<Rightarrow> 'j" where
  "item_to_json J rhs = j_object J
     [(''value'', j_string J (cache_value rhs)),
      (''state'', enum_to_json (state_table J) (cache_state rhs)),
      (''loc'', j_unsigned J (ucast (loc rhs)))]"

definition item_from_json ::
    "('j, 't) json_ops \<Rightarrow> 'j \<Rightarrow> string cache_item \<Rightarrow> string cache_item result" where
  "item_from_json J j rhs =
     (if \<not> j_is_null J j
      then rbind (j_at J j ''value'') (\<lambda>v. rbind (j_get_string J v) (\<lambda>s.
           rbind (j_at J j ''state'') (\<lambda>st.
           rbind (j_at J j ''loc'') (\<lambda>l. rbind (j_get_u32 J l) (\<lambda>n.
             Inr (rhs\<lparr>cache_value := s, cache_state := enum_from_json (state_table J) st,
                      loc := n\<rparr>))))))
      else Inr rhs)"

definition cache_to_json :: "('j, 't) json_ops \<Rightarrow> string cache \<Rightarrow> 'j" where
  "cache_to_json J rhs =
     (if cache_empty rhs then j_null J else j_array J (map (item_to_json J) (m_list rhs)))"

primrec insert_documents ::
    "('j, 't) json_ops \<Rightarrow> 'j list \<Rightarrow> string cache \<Rightarrow> string cache result" where
  "insert_documents J [] rhs = Inr rhs"
| "insert_documents J (obj # objs) rhs =
     rbind (item_from_json J obj (default_item [])) (\<lambda>item.
       insert_documents J objs (cache_insert_elem item rhs))"

definition cache_from_json ::
    "('j, 't) json_ops \<Rightarrow> 'j \<Rightarrow> string cache \<Rightarrow> string cache result" where
  "cache_from_json J j rhs =
     (if \<not> j_is_null J j then insert_documents J (j_iterate J j) (cache_clear rhs) else Inr rhs)"

type_synonym cache_store = "string \<times> string cache"

definition store_to_json :: "('j, 't) json_ops \<Rightarrow> cache_store \<Rightarrow> 'j" where
  "store_to_json J rhs = j_object J
     [(''Name'', j_string J (fst rhs)),
      (''Count'', j_unsigned J (of_nat (cache_size (snd rhs)))),
      (''Store'', cache_to_json J (snd rhs))]"

definition store_from_json ::
    "('j, 't) json_ops \<Rightarrow> 'j \<Rightarrow> cache_store \<Rightarrow> cache_store result" where
  "store_from_json J j rhs =
     (if \<not> j_is_null J j
      then rbind (j_at J j ''Name'') (\<lambda>n.
           rbind (j_index_const J j ''Store'') (\<lambda>st.
           rbind (cache_from_json J st empty_cache) (\<lambda>c.
           rbind (j_get_string J n) (\<lambda>name. Inr (name, c)))))
      else Inr rhs)"

section \<open>A concrete JSON tree\<close>

text \<open>
  A document tree that satisfies the assumptions, with itself as its text form; the witnesses
  evaluate on it.
\<close>

datatype json_tree =
    Tree_null
  | Tree_bool bool
  | Tree_unsigned u64
  | Tree_string string
  | Tree_array "json_tree list"
  | Tree_object "(string \<times> json_tree) list"

definition tree_at :: "json_tree result \<Rightarrow> json_tree \<Rightarrow> string \<Rightarrow> json_tree result" where
  "tree_at missing j k =
     (case j of Tree_object kvs \<Rightarrow> (case map_of kvs k of Some v \<Rightarrow> Inr v | None \<Rightarrow> missing)
      | _ \<Rightarrow> Inl (Throws Json_type_error))"

definition json_tree_ops :: "(json_tree, json_tree) json_ops" where
  "json_tree_ops =
     \<lparr>j_null = Tree_null, j_bool = Tree_bool, j_unsigned = Tree_unsigned, j_string = Tree_string,
      j_array = Tree_array, j_object = Tree_object, j_is_null = (\<lambda>j. j = Tree_null),
      j_get_u32 = (\<lambda>j. case j of Tree_unsigned n \<Rightarrow> Inr (ucast n) | _ \<Rightarrow> Inl (Throws Json_type_error)),
      j_get_string = (\<lambda>j. case j of Tree_string s \<Rightarrow> Inr s | _ \<Rightarrow> Inl (Throws Json_type_error)),
      j_get_array = (\<lambda>j. case j of Tree_array xs \<Rightarrow> Inr xs | _ \<Rightarrow> Inl (Throws Json_type_error)),
      j_iterate = (\<lambda>j. case j of Tree_array xs \<Rightarrow> xs | Tree_object kvs \<Rightarrow> map snd kvs
                       | Tree_null \<Rightarrow> [] | _ \<Rightarrow> [j]),
      j_at = tree_at (Inl (Throws Json_out_of_range)),
      j_index = (\<lambda>j k. if j = Tree_null then Inr Tree_null else tree_at (Inr Tree_null) j k),
      j_index_const = tree_at (Inl Undefined),
      j_put = (\<lambda>j k v. case j of Tree_null \<Rightarrow> Inr (Tree_object [(k, v)])
                   | Tree_object kvs \<Rightarrow> Inr (Tree_object
                       (if k \<in> fst ` set kvs then map (\<lambda>(k', w). (k', if k' = k then v else w)) kvs
                        else kvs @ [(k, v)]))
                   | _ \<Rightarrow> Inl (Throws Json_type_error)),
      j_dump = (\<lambda>j. j), j_parse = Inr\<rparr>"

interpretation tree: json_library json_tree_ops
  by unfold_locales
    (simp_all add: json_tree_ops_def tree_at_def split: option.splits)

lemmas json_tree_eval = json_tree_ops_def tree_at_def

section \<open>Round trips\<close>

text \<open>
  What a cache becomes when it is written and read back: duplicates of whole items are
  dropped, and the flag is raised exactly when something was read.
\<close>

definition reloaded :: "'v cache \<Rightarrow> 'v cache" where
  "reloaded c = \<lparr>m_modified = (m_list c \<noteq> []), m_list = first_occurrences (m_list c)\<rparr>"

interpretation item_list: value_store empty_cache "\<lambda>c x. x \<in> set (m_list c)" cache_insert_elem m_list
  by unfold_locales (simp_all add: cache_insert_elem_iff)

lemma modified_insert_elems:
  "m_modified (fold cache_insert_elem xs c) \<longleftrightarrow> m_modified c \<or> \<not> set xs \<subseteq> set (m_list c)"
  by (induction xs arbitrary: c) (auto simp: cache_insert_elem_iff)

lemma first_occurrences_distinct: "distinct xs \<Longrightarrow> first_occurrences xs = xs"
  by (simp add: first_occurrences_def distinct_remdups_id)

context json_library begin

lemma state_roundtrip: "enum_from_json (state_table J) (enum_to_json (state_table J) s) = s"
  by (cases s)
    (simp_all add: enum_from_json_def enum_to_json_def state_table_def string_inject
      string_not_null string_not_null [symmetric])

lemma item_roundtrip: "item_from_json J (item_to_json J x) rhs = Inr (rhs\<lparr>cache_value := cache_value x,
    cache_state := cache_state x, loc := loc x\<rparr>)"
  by (simp add: item_from_json_def item_to_json_def json_simps state_roundtrip)

lemma insert_documents_items:
  "insert_documents J (map (item_to_json J) xs) c = Inr (fold cache_insert_elem xs c)"
  by (induction xs arbitrary: c) (simp_all add: item_roundtrip default_item_def)

lemma cache_roundtrip: "cache_from_json J (cache_to_json J c) empty_cache = Inr (reloaded c)"
proof (cases "m_list c")
  case Nil
  then show ?thesis
    by (simp add: cache_from_json_def cache_to_json_def cache_empty_def json_simps reloaded_def
        empty_cache_def)
next
  case Cons
  then have some: "m_list c \<noteq> []" by simp
  have clear: "m_list (cache_clear empty_cache) = []" "m_modified (cache_clear empty_cache)"
    by (simp_all add: cache_clear_def empty_cache_def)
  have "fold cache_insert_elem (m_list c) (cache_clear empty_cache) = reloaded c"
    by (rule cache.equality)
      (simp_all add: reloaded_def item_list.vals_fold clear modified_insert_elems some)
  with some show ?thesis
    by (simp add: cache_from_json_def cache_to_json_def cache_empty_def json_simps
        insert_documents_items)
qed

lemma store_roundtrip:
  "store_from_json J (store_to_json J (n, c)) rhs = Inr (n, reloaded c)"
  by (simp add: store_from_json_def store_to_json_def json_simps index_const_object cache_roundtrip)

end

sublocale json_library \<subseteq> item_codec: codec "item_to_json J" "\<lambda>j. item_from_json J j (default_item [])" "\<lambda>_. True"
  by unfold_locales (simp add: item_roundtrip default_item_def)

sublocale json_library \<subseteq> store_codec: codec "store_to_json J"
    "\<lambda>j. store_from_json J j ([], empty_cache)" "\<lambda>s. snd s = reloaded (snd s)"
  by unfold_locales (metis prod.collapse store_roundtrip)

section \<open>Properties\<close>

text \<open>
  A named cache written as JSON reads back with its name and its items in order, values,
  states and locations included; items that occur twice are kept once, so a cache with unique
  values comes back unchanged but for the flag, which is raised exactly when it is not empty.
\<close>

theorem store_json_roundtrip:
  assumes "json_library J"
  shows "\<exists>c'. store_from_json J (store_to_json J (n, c)) rhs = Inr (n, c') \<and>
    m_list c' = first_occurrences (m_list c) \<and> (wf_cache c \<longrightarrow> m_list c' = m_list c) \<and>
    (m_modified c' \<longleftrightarrow> m_list c \<noteq> [])"
proof -
  have "store_from_json J (store_to_json J (n, c)) rhs = Inr (n, reloaded c)"
    using assms by (rule json_library.store_roundtrip)
  moreover have "distinct (m_list c)" if "wf_cache c"
    using that by (simp add: wf_cache_def cache_values_def distinct_map)
  ultimately show ?thesis by (simp add: reloaded_def first_occurrences_distinct)
qed

theorem store_json_roundtrip_witness:
  "\<exists>c'. store_from_json json_tree_ops (store_to_json json_tree_ops (''a'', cache_insert ''x'' 7 empty_cache))
      ([], empty_cache) = Inr (''a'', c') \<and> m_list c' = [make_item ''x'' Unused 7]"
  using store_json_roundtrip [OF tree.json_library_axioms, of "''a''" "cache_insert ''x'' 7 empty_cache"]
  by (auto simp: m_list_insert first_occurrences_distinct)

end
