(* ===== verification/Wall_Error.thy ===== *)
theory Wall_Error
  imports Prelude
begin

text \<open>
  The error codes of \<^verbatim>\<open>src/src/change_lib/wall_error.hpp\<close> and \<^verbatim>\<open>wall_error.cpp\<close>: an
  enumeration with explicit values, its category, and the text the category gives a value.
\<close>

datatype wall_errc =
    Success
  | Cache_does_not_exists
  | Cache_exists
  | Cache_frm_cache_to_same
  | Cache_elem_not_exists
  | Cache_name_item_name_same

primrec errc_value :: "wall_errc \<Rightarrow> int" where
  "errc_value Success = 0"
| "errc_value Cache_does_not_exists = 1"
| "errc_value Cache_exists = 3"
| "errc_value Cache_frm_cache_to_same = 4"
| "errc_value Cache_elem_not_exists = 5"
| "errc_value Cache_name_item_name_same = 6"

record error_code =
  ec_value :: int
  ec_category :: string

definition category_name :: string where
  "category_name = ''wall_lib''"

text \<open>The \<^verbatim>\<open>switch\<close> of \<^verbatim>\<open>message\<close>, with its \<^verbatim>\<open>default\<close> branch.\<close>

definition category_message :: "int \<Rightarrow> string" where
  "category_message err_val =
     (if err_val = errc_value Cache_does_not_exists then ''Cache Does Not Exists''
      else if err_val = errc_value Cache_exists then ''Cache Already Exists''
      else if err_val = errc_value Cache_frm_cache_to_same
        then ''Cache From And Cache To Names Cannot Be Same''
      else if err_val = errc_value Cache_name_item_name_same
        then ''Cache Name And Item Name Are Same''
      else ''(Unrecognized Error)'')"

definition make_error_code :: "wall_errc \<Rightarrow> error_code" where
  "make_error_code err = \<lparr>ec_value = errc_value err, ec_category = category_name\<rparr>"

lemma errc_value_inject [simp]: "errc_value e = errc_value f \<longleftrightarrow> e = f"
  by (cases e; cases f) simp_all

lemma make_error_code_inject [simp]: "make_error_code e = make_error_code f \<longleftrightarrow> e = f"
  by (simp add: make_error_code_def)

section \<open>Property\<close>

text \<open>
  The error codes of the library are distinct, and two of them have no text of their own:
  besides success, a missing element is reported as an unrecognised error.
\<close>

theorem error_messages:
  "inj make_error_code \<and>
    (category_message (ec_value (make_error_code e)) = ''(Unrecognized Error)'' \<longleftrightarrow>
      e = Success \<or> e = Cache_elem_not_exists)"
  by (cases e) (auto simp: inj_def category_message_def make_error_code_def)

end
