(* ===== verification/Cache_Library.thy ===== *)
theory Cache_Library
  imports Json_Helper Wall_Error
begin

text \<open>
  The named collections: class \<^verbatim>\<open>cache_lib\<close> of
  \<^verbatim>\<open>src/src/change_lib/wall_cache_library.hpp\<close> and \<^verbatim>\<open>wall_cache_library.cpp\<close>. The state is
  the vector of (name, cache) pairs, the index of the current collection and the name of the
  active one. An operation takes the library last and returns its result and the new library;
  \<^verbatim>\<open>std::expected\<close> is a sum with the error code on the left. Where the C++ dereferences an
  iterator or an index it has not checked, the operation returns in \<^typ>\<open>'a result\<close>.
\<close>

section \<open>State\<close>

record cache_lib =
  m_cache_vec :: "cache_store list"
  m_current :: u32
  m_active_name :: string

definition new_lib :: cache_lib where
  "new_lib = \<lparr>m_cache_vec = [], m_current = 0, m_active_name = []\<rparr>"

text \<open>
  The defaulted \<^verbatim>\<open>operator<=>\<close>: the collections in order, each by its name, its flag and its
  items, then the current index and the active name.
\<close>

lemma cache_lib_eq_iff:
  "x = y \<longleftrightarrow> m_cache_vec x = m_cache_vec y \<and> m_current x = m_current y \<and> m_active_name x = m_active_name y \<and>
    cache_lib.more x = cache_lib.more y"
  by (cases x; cases y) simp

definition lib_less :: "'a :: linorder cache_lib_scheme \<Rightarrow> 'a cache_lib_scheme \<Rightarrow> bool" where
  "lib_less x y \<longleftrightarrow>
     m_cache_vec x < m_cache_vec y \<or>
     m_cache_vec x = m_cache_vec y \<and> (m_current x < m_current y \<or>
     m_current x = m_current y \<and> (m_active_name x < m_active_name y \<or>
     m_active_name x = m_active_name y \<and> cache_lib.more x < cache_lib.more y))"

instantiation cache_lib_ext :: (linorder) linorder
begin

definition less_cache_lib_ext :: "'a cache_lib_scheme \<Rightarrow> 'a cache_lib_scheme \<Rightarrow> bool" where
  "less_cache_lib_ext x y \<longleftrightarrow> lib_less x y"

definition less_eq_cache_lib_ext :: "'a cache_lib_scheme \<Rightarrow> 'a cache_lib_scheme \<Rightarrow> bool" where
  "less_eq_cache_lib_ext x y \<longleftrightarrow> x < y \<or> x = y"

instance
proof
  fix x y z :: "'a cache_lib_scheme"
  let ?key = "\<lambda>x :: 'a cache_lib_scheme. (m_cache_vec x, m_current x, m_active_name x, cache_lib.more x)"
  have less: "x < y \<longleftrightarrow> ?key x < ?key y" for x y
    by (simp only: less_cache_lib_ext_def lib_less_def less_prod_simp le_less) blast
  have le: "x \<le> y \<longleftrightarrow> ?key x \<le> ?key y" for x y
    unfolding less_eq_cache_lib_ext_def less by (auto simp only: cache_lib_eq_iff le_less prod.inject)
  show "x < y \<longleftrightarrow> x \<le> y \<and> \<not> y \<le> x" unfolding less le by (rule less_le_not_le)
  show "x \<le> x" unfolding le by (rule order_refl)
  show "x \<le> y \<Longrightarrow> y \<le> z \<Longrightarrow> x \<le> z" unfolding le by (rule order_trans)
  show "x \<le> y \<Longrightarrow> y \<le> x \<Longrightarrow> x = y"
    unfolding le using antisym [of "?key x" "?key y"] by (simp only: cache_lib_eq_iff prod.inject)
  show "x \<le> y \<or> y \<le> x" unfolding le by (rule linear)
qed

end

text \<open>A collection that was only looked at through a mutable iterator compares as greater.\<close>

lemma looked_at_is_greater:
  "\<not> m_modified c \<Longrightarrow> \<lparr>m_cache_vec = [(n, c)], m_current = i, m_active_name = a\<rparr> < \<lparr>m_cache_vec = [(n, snd (cache_begin c))], m_current = i, m_active_name = a\<rparr>"
  by (simp add: less_cache_lib_ext_def lib_less_def cache_begin_def less_cache_ext_def cache_less_def)

text \<open>\<^verbatim>\<open>std::ranges::find(m_cache_vec, name, &cache_store::first)\<close>\<close>

definition store_pos :: "cache_lib \<Rightarrow> string \<Rightarrow> nat" where
  "store_pos l name = find_pos (\<lambda>s. fst s = name) (m_cache_vec l)"

text \<open>The assignment of a new cache through an iterator to a store.\<close>

definition put_cache :: "nat \<Rightarrow> string cache \<Rightarrow> cache_lib \<Rightarrow> cache_lib" where
  "put_cache i c l = l\<lparr>m_cache_vec := (m_cache_vec l)[i := (fst (m_cache_vec l ! i), c)]\<rparr>"

definition cache_of :: "cache_lib \<Rightarrow> nat \<Rightarrow> string cache" where
  "cache_of l i = snd (m_cache_vec l ! i)"

text \<open>
  A \<^verbatim>\<open>std::span\<close> over the items of a collection: which collection, and how many items. Reading
  or writing through it reaches the library's own items and checks nothing.
\<close>

type_synonym slice = "nat \<times> nat"

definition slice_read :: "cache_lib \<Rightarrow> slice \<Rightarrow> nat \<Rightarrow> string cache_item result" where
  "slice_read l sl k =
     (if k < snd sl then Inr (m_list (cache_of l (fst sl)) ! k) else Inl Undefined)"

definition slice_write :: "cache_lib \<Rightarrow> slice \<Rightarrow> nat \<Rightarrow> string cache_item \<Rightarrow> cache_lib result" where
  "slice_write l sl k x =
     (if k < snd sl
      then let c = cache_of l (fst sl) in Inr (put_cache (fst sl) (c\<lparr>m_list := (m_list c)[k := x]\<rparr>) l)
      else Inl Undefined)"

definition slice_items :: "cache_lib \<Rightarrow> slice \<Rightarrow> string cache_item list" where
  "slice_items l sl = take (snd sl) (m_list (cache_of l (fst sl)))"

section \<open>Queries\<close>

definition is_empty_lib :: "cache_lib \<Rightarrow> bool" where
  "is_empty_lib l \<longleftrightarrow> m_cache_vec l = []"

definition lib_exists :: "cache_lib \<Rightarrow> string \<Rightarrow> bool" where
  "lib_exists l name =
     (if \<not> is_empty_lib l
      then (let i = store_pos l name in
            if i \<noteq> length (m_cache_vec l) then fst (m_cache_vec l ! i) = name else False)
      else False)"

definition active_cache_name :: "cache_lib \<Rightarrow> string" where
  "active_cache_name l = m_active_name l"

definition cache_count :: "cache_lib \<Rightarrow> nat" where
  "cache_count l = length (m_cache_vec l)"

definition cache_list :: "cache_lib \<Rightarrow> string list" where
  "cache_list l = map fst (m_cache_vec l)"

text \<open>\<^verbatim>\<open>modified\<close> dereferences the result of \<^verbatim>\<open>find_if\<close> without comparing it to the end.\<close>

definition lib_modified :: "cache_lib \<Rightarrow> bool result" where
  "lib_modified l =
     (if \<not> is_empty_lib l
      then (let i = find_pos (\<lambda>s. cache_modified (snd s)) (m_cache_vec l) in
            if i < length (m_cache_vec l) then Inr (cache_modified (cache_of l i))
            else Inl Undefined)
      else Inr False)"

text \<open>The non-const overload takes the non-const \<^verbatim>\<open>begin()\<close>, which raises the flag.\<close>

definition get_current :: "cache_lib \<Rightarrow> (slice \<times> cache_lib) result" where
  "get_current l =
     (let i = unat (m_current l) in
      if i < length (m_cache_vec l)
      then Inr ((i, cache_size (cache_of l i)), put_cache i (snd (cache_begin (cache_of l i))) l)
      else Inl Undefined)"

definition get_current_const :: "cache_lib \<Rightarrow> slice result" where
  "get_current_const l =
     (let i = unat (m_current l) in
      if i < length (m_cache_vec l) then Inr (i, cache_size (cache_of l i)) else Inl Undefined)"

definition get_cache_const :: "string \<Rightarrow> cache_lib \<Rightarrow> error_code + slice" where
  "get_cache_const name l =
     (if lib_exists l name
      then let i = store_pos l name in Inr (i, cache_size (cache_of l i))
      else Inl (make_error_code Cache_does_not_exists))"

definition get_cache :: "string \<Rightarrow> cache_lib \<Rightarrow> (error_code + slice) \<times> cache_lib" where
  "get_cache name l =
     (if lib_exists l name
      then let i = store_pos l name in
           (Inr (i, cache_size (cache_of l i)), put_cache i (snd (cache_data (cache_of l i))) l)
      else (Inl (make_error_code Cache_does_not_exists), l))"

text \<open>\<^verbatim>\<open>operator[]\<close> is a reference to the cache: its position, if the name is there.\<close>

definition lib_index :: "cache_lib \<Rightarrow> string \<Rightarrow> nat result" where
  "lib_index l name =
     (let i = store_pos l name in
      if i < length (m_cache_vec l) then Inr i else Inl Undefined)"

section \<open>Updates\<close>

definition lib_insert :: "string \<Rightarrow> string cache \<Rightarrow> cache_lib \<Rightarrow> (error_code + bool) \<times> cache_lib" where
  "lib_insert name val l =
     (if \<not> lib_exists l name
      then (Inr True, l\<lparr>m_cache_vec := m_cache_vec l @ [(name, val)]\<rparr>)
      else (Inl (make_error_code Cache_does_not_exists), l))"

definition change_active :: "string \<Rightarrow> cache_lib \<Rightarrow> (error_code + bool) \<times> cache_lib" where
  "change_active new_active l =
     (if lib_exists l new_active
      then let pos = (of_nat (store_pos l new_active) :: u32) in
           (Inr True, l\<lparr>m_active_name := fst (m_cache_vec l ! unat pos), m_current := pos\<rparr>)
      else (Inl (make_error_code Cache_does_not_exists), l))"

definition rename_store ::
    "string \<Rightarrow> string \<Rightarrow> cache_lib \<Rightarrow> (error_code + bool) \<times> cache_lib" where
  "rename_store from_name to_name l =
     (if from_name \<noteq> to_name
      then if lib_exists l from_name \<and> \<not> lib_exists l to_name
        then let i = store_pos l from_name;
                 l1 = l\<lparr>m_cache_vec := (m_cache_vec l)[i := (to_name, cache_of l i)]\<rparr>
             in (Inr True, if from_name = m_active_name l1 then l1\<lparr>m_active_name := to_name\<rparr> else l1)
        else (Inl (make_error_code Cache_does_not_exists), l)
      else (Inl (make_error_code Cache_frm_cache_to_same), l))"

definition lib_remove :: "string \<Rightarrow> cache_lib \<Rightarrow> (error_code + bool) \<times> cache_lib" where
  "lib_remove name l =
     (if lib_exists l name
      then let i = store_pos l name;
               l1 = put_cache i (cache_clear (cache_of l i)) l
           in (Inr True, l1\<lparr>m_cache_vec := erase_at i (m_cache_vec l1)\<rparr>)
      else (Inl (make_error_code Cache_does_not_exists), l))"

definition remove_cache_item ::
    "string \<Rightarrow> string \<Rightarrow> cache_lib \<Rightarrow> ((error_code + bool) \<times> cache_lib) result" where
  "remove_cache_item cache_name item_name l =
     (if cache_name \<noteq> item_name
      then if lib_exists l cache_name
        then let i = store_pos l cache_name;
                 (pos, c1) = cache_find_value item_name (cache_of l i);
                 (fin, c2) = cache_end c1
             in if pos \<noteq> fin
                then rbind (cache_erase pos c2) (\<lambda>(_, c3). Inr (Inr True, put_cache i c3 l))
                else Inr (Inl (make_error_code Cache_elem_not_exists), put_cache i c2 l)
        else Inr (Inl (make_error_code Cache_does_not_exists), l)
      else Inr (Inl (make_error_code Cache_name_item_name_same), l))"

text \<open>
  \<^verbatim>\<open>merge_cache\<close> merges into a new cache of the combined size, whose name is the C string of
  \<^verbatim>\<open>col1\<close>, removes both collections and appends the new one.
\<close>

definition merge_cache ::
    "string \<Rightarrow> string \<Rightarrow> cache_lib \<Rightarrow> (error_code + bool) \<times> cache_lib" where
  "merge_cache col1 col2 l =
     (if col1 \<noteq> col2
      then if lib_exists l col1 \<and> lib_exists l col2
        then let i1 = store_pos l col1; i2 = store_pos l col2;
                 c1 = cache_of l i1; c2 = cache_of l i2;
                 fresh = sized_cache [] (cache_size c1 + cache_size c2);
                 l1 = put_cache i2 (snd (cache_begin c2)) (put_cache i1 (snd (cache_begin c1)) l);
                 merged = (snd (cache_begin fresh))\<lparr>m_list := merge_ranges (m_list c1) (m_list c2)\<rparr>;
                 l2 = snd (lib_remove col1 l1);
                 l3 = snd (lib_remove col2 l2)
             in (Inr True, l3\<lparr>m_cache_vec := m_cache_vec l3 @ [(c_str col1, merged)]\<rparr>)
        else (Inl (make_error_code Cache_does_not_exists), l)
      else (Inl (make_error_code Cache_frm_cache_to_same), l))"

definition move_cache_item ::
    "string \<Rightarrow> string \<Rightarrow> string \<Rightarrow> cache_lib \<Rightarrow> ((error_code + bool) \<times> cache_lib) result" where
  "move_cache_item source dest item_name l =
     (if source \<noteq> dest \<and> dest \<noteq> item_name
      then if lib_exists l source \<and> lib_exists l dest
        then let src = store_pos l source; dst = store_pos l dest
             in if cache_contains (cache_of l src) (c_str item_name)
                then let (pos, c1) = cache_find_value item_name (cache_of l src)
                     in if pos < cache_size c1
                        then let l1 = put_cache dst
                                   (cache_insert_elem (m_list c1 ! pos) (cache_of l dst)) l
                             in rbind (cache_erase pos c1) (\<lambda>(_, c2).
                                  Inr (Inr True, put_cache src c2 l1))
                        else Inl Undefined
                else Inr (Inl (make_error_code Cache_elem_not_exists), l)
        else Inr (Inl (make_error_code Cache_does_not_exists), l)
      else Inr (Inl (make_error_code Cache_frm_cache_to_same), l))"

section \<open>The library file\<close>

text \<open>
  A file system maps a path to the text of the file there. \<open>can_write\<close> says which files an
  output stream can open.
\<close>

type_synonym 't files = "string \<rightharpoonup> 't"

definition library_path :: "string \<Rightarrow> string" where
  "library_path data_dir = data_dir @ ''/libraries.json''"

definition serialize_lib ::
    "('j, 't) json_ops \<Rightarrow> string \<Rightarrow> (string \<Rightarrow> bool) \<Rightarrow> cache_lib \<Rightarrow> 't files \<Rightarrow> 't files result" where
  "serialize_lib J data_dir can_write l fs =
     rbind (lib_modified l) (\<lambda>modified.
       if modified
       then rbind (j_put J (j_null J) ''total_count'' (j_unsigned J (of_nat (length (m_cache_vec l)))))
          (\<lambda>obj1. if unat (m_current l) < length (m_cache_vec l)
            then rbind (j_put J obj1 ''active''
                    (j_string J (fst (m_cache_vec l ! unat (m_current l))))) (\<lambda>obj2.
                 rbind (j_put J obj2 ''cache_libraries''
                    (j_array J (map (store_to_json J) (m_cache_vec l)))) (\<lambda>obj3.
                 Inr (if can_write (library_path data_dir)
                      then fs(library_path data_dir \<mapsto> j_dump J obj3) else fs)))
            else Inl Undefined)
       else Inr fs)"

definition deserialize_lib ::
    "('j, 't) json_ops \<Rightarrow> string \<Rightarrow> 't files \<Rightarrow> cache_lib \<Rightarrow> (bool \<times> cache_lib) result" where
  "deserialize_lib J data_dir fs l =
     (case fs (library_path data_dir) of
        Some text \<Rightarrow>
          rbind (j_parse J text) (\<lambda>obj.
          rbind (if \<not> j_is_null J obj
                 then rbind (j_index J obj ''cache_libraries'') (\<lambda>libs.
                      rbind (j_get_array J libs) (\<lambda>docs.
                      rbind (traverse (\<lambda>d. store_from_json J d ([], empty_cache)) docs) (\<lambda>vec.
                        Inr (l\<lparr>m_cache_vec := vec\<rparr>))))
                 else Inr l) (\<lambda>l1.
          rbind (j_index J obj ''active'') (\<lambda>a.
          rbind (j_get_string J a) (\<lambda>name. Inr (True, l1\<lparr>m_active_name := name\<rparr>)))))
      | None \<Rightarrow> Inr (False, l))"

text \<open>The constructor \<^verbatim>\<open>cache_lib(bool load)\<close>.\<close>

definition open_lib :: "('j, 't) json_ops \<Rightarrow> string \<Rightarrow> 't files \<Rightarrow> bool \<Rightarrow> cache_lib result" where
  "open_lib J data_dir fs load =
     (if load
      then rbind (deserialize_lib J data_dir fs new_lib) (\<lambda>(loaded, l).
           Inr (if loaded
                then let i = store_pos l (m_active_name l)
                     in l\<lparr>m_current := (if i \<noteq> length (m_cache_vec l) then of_nat i else 0)\<rparr>
                else l))
      else Inr new_lib)"

section \<open>The library as a map from names to collections\<close>

definition lib_map :: "cache_lib \<Rightarrow> string \<rightharpoonup> string cache" where
  "lib_map l = map_of (m_cache_vec l)"

definition wf_lib :: "cache_lib \<Rightarrow> bool" where
  "wf_lib l \<longleftrightarrow> distinct (cache_list l)"

text \<open>The current index denotes the collection whose name is the active one.\<close>

definition active_coherent :: "cache_lib \<Rightarrow> bool" where
  "active_coherent l \<longleftrightarrow> unat (m_current l) < length (m_cache_vec l) \<and>
     fst (m_cache_vec l ! unat (m_current l)) = m_active_name l"

named_theorems lib_simps \<open>names, positions and maps of a library\<close>

subsection \<open>Positions of names\<close>

lemma lib_exists_iff [lib_simps]: "lib_exists l n \<longleftrightarrow> n \<in> set (cache_list l)"
  using key_pos_nth [of n "m_cache_vec l"]
  by (auto simp: lib_exists_def Let_def is_empty_lib_def store_pos_def cache_list_def
      find_pos_end_iff intro: rev_image_eqI)

lemma store_pos_less [lib_simps]:
  "store_pos l n < length (m_cache_vec l) \<longleftrightarrow> n \<in> set (cache_list l)"
  by (simp add: store_pos_def cache_list_def key_pos_less_iff)

lemma store_pos_nth [lib_simps]: "n \<in> set (cache_list l) \<Longrightarrow> fst (m_cache_vec l ! store_pos l n) = n"
  by (simp add: store_pos_def cache_list_def key_pos_nth)

lemma lib_map_None_iff: "lib_map l n = None \<longleftrightarrow> n \<notin> set (cache_list l)"
  by (simp add: lib_map_def cache_list_def map_of_eq_None_iff)

lemma lib_map_absent: "n \<notin> set (cache_list l) \<Longrightarrow> lib_map l n = None"
  by (simp add: lib_map_None_iff)

lemma lib_map_pos [lib_simps]:
  "n \<in> set (cache_list l) \<Longrightarrow> lib_map l n = Some (cache_of l (store_pos l n))"
  by (simp add: lib_map_def cache_list_def cache_of_def store_pos_def map_of_key_pos)

lemma store_pos_inject:
  "m \<in> set (cache_list l) \<Longrightarrow> n \<in> set (cache_list l) \<Longrightarrow> store_pos l m = store_pos l n \<longleftrightarrow> m = n"
  by (metis store_pos_nth)

subsection \<open>Writing a collection in place\<close>

lemma put_cache_simps [simp]:
  "cache_list (put_cache i c l) = cache_list l"
  "length (m_cache_vec (put_cache i c l)) = length (m_cache_vec l)"
  "m_current (put_cache i c l) = m_current l"
  "m_active_name (put_cache i c l) = m_active_name l"
proof -
  show "cache_list (put_cache i c l) = cache_list l"
    by (cases "i < length (m_cache_vec l)")
      (simp_all add: put_cache_def cache_list_def map_update list_update_same_conv list_update_beyond)
qed (simp_all add: put_cache_def)

lemma store_pos_cong: "cache_list l = cache_list l' \<Longrightarrow> store_pos l n = store_pos l' n"
proof -
  have "find_pos (\<lambda>s. fst s = n) xs = find_pos (\<lambda>k. k = n) (map fst xs)" for xs :: "cache_store list"
    by (induction xs) auto
  then show "cache_list l = cache_list l' \<Longrightarrow> ?thesis"
    by (simp add: store_pos_def cache_list_def)
qed

lemma store_pos_put [simp]: "store_pos (put_cache i c l) n = store_pos l n"
  by (rule store_pos_cong) simp

lemma cache_of_put:
  "i < length (m_cache_vec l) \<Longrightarrow> cache_of (put_cache i c l) j = (if j = i then c else cache_of l j)"
  by (simp add: cache_of_def put_cache_def nth_list_update)

lemma lib_map_put:
  "n \<in> set (cache_list l) \<Longrightarrow> lib_map (put_cache (store_pos l n) c l) = (lib_map l)(n \<mapsto> c)"
  using map_of_put_pos [of n "m_cache_vec l" c]
  by (simp add: lib_map_def put_cache_def store_pos_nth) (simp add: cache_list_def store_pos_def)

lemma wf_lib_put [simp]: "wf_lib (put_cache i c l) = wf_lib l"
  by (simp add: wf_lib_def)

lemma fst_nth_put [simp]: "fst (m_cache_vec (put_cache i c l) ! j) = fst (m_cache_vec l ! j)"
  by (cases "i = j"; cases "i < length (m_cache_vec l)")
    (simp_all add: put_cache_def list_update_beyond)

lemma active_coherent_put [simp]: "active_coherent (put_cache i c l) = active_coherent l"
  by (simp add: active_coherent_def)

subsection \<open>Each operation on the map\<close>

lemma lib_insert_cases:
  "lib_insert n c l =
    (if n \<in> set (cache_list l) then (Inl (make_error_code Cache_does_not_exists), l)
     else (Inr True, l\<lparr>m_cache_vec := m_cache_vec l @ [(n, c)]\<rparr>))"
  by (simp add: lib_insert_def lib_exists_iff)

lemma lib_map_insert:
  "n \<notin> set (cache_list l) \<Longrightarrow> lib_map (snd (lib_insert n c l)) = (lib_map l)(n \<mapsto> c)"
  by (simp add: lib_insert_cases lib_map_def cache_list_def map_of_snoc del: map_of_append)

lemma cache_list_insert:
  "cache_list (snd (lib_insert n c l)) = (if n \<in> set (cache_list l) then cache_list l else cache_list l @ [n])"
  by (simp add: lib_insert_cases cache_list_def)

lemma lib_remove_vec:
  assumes "n \<in> set (cache_list l)"
  shows "lib_remove n l = (Inr True, l\<lparr>m_cache_vec := erase_at (store_pos l n) (m_cache_vec l)\<rparr>)"
  using assms
  by (simp add: lib_remove_def lib_exists_iff Let_def put_cache_def erase_at_def)

lemma lib_remove_absent:
  "n \<notin> set (cache_list l) \<Longrightarrow> lib_remove n l = (Inl (make_error_code Cache_does_not_exists), l)"
  by (simp add: lib_remove_def lib_exists_iff)

lemma lib_map_remove:
  "wf_lib l \<Longrightarrow> n \<in> set (cache_list l) \<Longrightarrow> lib_map (snd (lib_remove n l)) = (lib_map l)(n := None)"
  by (simp add: lib_remove_vec lib_map_def store_pos_def map_of_erase_pos wf_lib_def cache_list_def)

lemma cache_list_remove:
  "n \<in> set (cache_list l) \<Longrightarrow> cache_list (snd (lib_remove n l)) = erase_at (store_pos l n) (cache_list l)"
  by (simp add: lib_remove_vec) (simp add: cache_list_def map_erase_at)

lemma wf_lib_remove: "wf_lib l \<Longrightarrow> wf_lib (snd (lib_remove n l))"
  by (cases "n \<in> set (cache_list l)")
    (simp_all add: wf_lib_def cache_list_remove distinct_erase_at lib_remove_absent)

lemma rename_store_cases:
  "rename_store m n l =
    (if m = n then (Inl (make_error_code Cache_frm_cache_to_same), l)
     else if m \<in> set (cache_list l) \<and> n \<notin> set (cache_list l)
     then (Inr True, l\<lparr>m_cache_vec := (m_cache_vec l)[store_pos l m := (n, cache_of l (store_pos l m))],
                       m_active_name := (if m_active_name l = m then n else m_active_name l)\<rparr>)
     else (Inl (make_error_code Cache_does_not_exists), l))"
  by (auto simp: rename_store_def Let_def lib_exists_iff)

lemma lib_map_rename:
  "wf_lib l \<Longrightarrow> m \<in> set (cache_list l) \<Longrightarrow> n \<notin> set (cache_list l) \<Longrightarrow>
    lib_map (snd (rename_store m n l)) = (lib_map l)(m := None, n := lib_map l m)"
  using map_of_rename_pos [of "m_cache_vec l" m n]
  by (auto simp: rename_store_cases lib_map_def store_pos_def wf_lib_def cache_list_def cache_of_def)

lemma cache_list_rename:
  "m \<in> set (cache_list l) \<Longrightarrow> n \<notin> set (cache_list l) \<Longrightarrow>
    cache_list (snd (rename_store m n l)) = (cache_list l)[store_pos l m := n]"
  by (auto simp: rename_store_cases cache_list_def map_update)

lemma wf_lib_rename:
  assumes "wf_lib l"
  shows "wf_lib (snd (rename_store m n l))"
proof (cases "m \<in> set (cache_list l) \<and> n \<notin> set (cache_list l)")
  case True
  with assms show ?thesis by (simp add: wf_lib_def cache_list_rename distinct_list_update)
next
  case False
  then have "snd (rename_store m n l) = l" by (auto simp: rename_store_cases)
  with assms show ?thesis by simp
qed

lemma remove_cache_item_cases:
  "remove_cache_item n v l = Inr (
     if n = v then (Inl (make_error_code Cache_name_item_name_same), l)
     else if n \<notin> set (cache_list l) then (Inl (make_error_code Cache_does_not_exists), l)
     else let i = store_pos l n; c = cache_of l i; pos = find_pos (\<lambda>x. cache_value x = v) (m_list c)
          in if v \<in> set (cache_values c)
             then (Inr True, put_cache i (c\<lparr>m_modified := True, m_list := erase_at pos (m_list c)\<rparr>) l)
             else (Inl (make_error_code Cache_elem_not_exists), put_cache i (c\<lparr>m_modified := True\<rparr>) l))"
proof -
  have "find_pos (\<lambda>x. cache_value x = v) (m_list c) = length (m_list c) \<longleftrightarrow> v \<notin> set (cache_values c)"
    for c :: "string cache"
    by (auto simp: find_pos_end_iff cache_values_def)
  moreover have "find_pos (\<lambda>x. cache_value x = v) (m_list c) < length (m_list c) \<longleftrightarrow> v \<in> set (cache_values c)"
    for c :: "string cache"
    by (auto simp: find_pos_less_iff cache_values_def)
  ultimately show ?thesis
    by (simp add: remove_cache_item_def lib_exists_iff Let_def cache_find_value_def cache_begin_def
        cache_end_def cache_erase_def)
qed


lemma cache_list_remove_filter:
  "wf_lib l \<Longrightarrow> n \<in> set (cache_list l) \<Longrightarrow>
    cache_list (snd (lib_remove n l)) = filter (\<lambda>m. m \<noteq> n) (cache_list l)"
proof -
  assume "wf_lib l" and n: "n \<in> set (cache_list l)"
  moreover from n have "store_pos l n < length (cache_list l)"
    by (simp add: cache_list_def) (simp add: store_pos_less cache_list_def)
  moreover from n have "cache_list l ! store_pos l n = n"
    using store_pos_nth [OF n] store_pos_less [of l n] by (simp add: cache_list_def)
  ultimately show ?thesis
    by (simp add: cache_list_remove erase_at_filter wf_lib_def)
qed

lemma move_cache_item_cases:
  assumes "CHR 0x00 \<notin> set v"
  shows "move_cache_item s d v l = Inr (
     if s = d \<or> d = v then (Inl (make_error_code Cache_frm_cache_to_same), l)
     else if s \<notin> set (cache_list l) \<or> d \<notin> set (cache_list l)
     then (Inl (make_error_code Cache_does_not_exists), l)
     else let c = cache_of l (store_pos l s); pos = find_pos (\<lambda>x. cache_value x = v) (m_list c)
          in if v \<in> set (cache_values c)
             then (Inr True, put_cache (store_pos l s) (c\<lparr>m_modified := True, m_list := erase_at pos (m_list c)\<rparr>)
               (put_cache (store_pos l d) (cache_insert_elem (m_list c ! pos) (cache_of l (store_pos l d))) l))
             else (Inl (make_error_code Cache_elem_not_exists), l))"
proof -
  have "find_pos (\<lambda>x. cache_value x = v) (m_list c) < length (m_list c) \<longleftrightarrow> v \<in> set (cache_values c)"
    for c :: "string cache"
    by (auto simp: find_pos_less_iff cache_values_def)
  then show ?thesis
    using assms
    by (simp add: move_cache_item_def lib_exists_iff Let_def cache_find_value_def cache_begin_def
        cache_end_def cache_erase_def c_str_id cache_contains_iff cache_size_def)
qed

lemma merge_cache_cases:
  "merge_cache m n l =
    (if m = n then (Inl (make_error_code Cache_frm_cache_to_same), l)
     else if m \<in> set (cache_list l) \<and> n \<in> set (cache_list l)
     then let l1 = put_cache (store_pos l n) ((cache_of l (store_pos l n))\<lparr>m_modified := True\<rparr>)
                (put_cache (store_pos l m) ((cache_of l (store_pos l m))\<lparr>m_modified := True\<rparr>) l);
              l3 = snd (lib_remove n (snd (lib_remove m l1)))
          in (Inr True, l3\<lparr>m_cache_vec := m_cache_vec l3 @ [(c_str m, \<lparr>m_modified = True,
               m_list = merge_ranges (m_list (cache_of l (store_pos l m))) (m_list (cache_of l (store_pos l n)))\<rparr>)]\<rparr>)
     else (Inl (make_error_code Cache_does_not_exists), l))"
  by (simp add: merge_cache_def lib_exists_iff Let_def cache_begin_def sized_cache_def)

lemma merge_cache_result:
  assumes "wf_lib l" and "m \<in> set (cache_list l)" and "n \<in> set (cache_list l)" and "m \<noteq> n"
    and "CHR 0x00 \<notin> set m"
  shows "fst (merge_cache m n l) = Inr True"
    and "lib_map (snd (merge_cache m n l)) = (lib_map l)(n := None, m \<mapsto> \<lparr>m_modified = True,
          m_list = merge_ranges (m_list (cache_of l (store_pos l m))) (m_list (cache_of l (store_pos l n)))\<rparr>)"
    and "cache_list (snd (merge_cache m n l)) = filter (\<lambda>k. k \<noteq> m \<and> k \<noteq> n) (cache_list l) @ [m]"
proof -
  let ?l1 = "put_cache (store_pos l n) ((cache_of l (store_pos l n))\<lparr>m_modified := True\<rparr>)
                (put_cache (store_pos l m) ((cache_of l (store_pos l m))\<lparr>m_modified := True\<rparr>) l)"
  let ?l2 = "snd (lib_remove m ?l1)"
  let ?l3 = "snd (lib_remove n ?l2)"
  let ?new = "\<lparr>m_modified = True,
          m_list = merge_ranges (m_list (cache_of l (store_pos l m))) (m_list (cache_of l (store_pos l n)))\<rparr>"
  have result: "merge_cache m n l = (Inr True, ?l3\<lparr>m_cache_vec := m_cache_vec ?l3 @ [(m, ?new)]\<rparr>)"
    using assms by (simp add: merge_cache_cases Let_def c_str_id)
  have wf1: "wf_lib ?l1" and names1: "cache_list ?l1 = cache_list l"
    using assms(1) by simp_all
  have wf2: "wf_lib ?l2" using wf1 by (rule wf_lib_remove)
  have names2: "cache_list ?l2 = filter (\<lambda>k. k \<noteq> m) (cache_list l)"
    using cache_list_remove_filter [OF wf1, of m] assms(2) names1 by simp
  then have n2: "n \<in> set (cache_list ?l2)" using assms(3,4) by simp
  have names3: "cache_list ?l3 = filter (\<lambda>k. k \<noteq> m \<and> k \<noteq> n) (cache_list l)"
    using cache_list_remove_filter [OF wf2 n2] names2 by (simp add: conj_commute)
  have map1: "lib_map ?l1 = (lib_map l)(m \<mapsto> (cache_of l (store_pos l m))\<lparr>m_modified := True\<rparr>,
      n \<mapsto> (cache_of l (store_pos l n))\<lparr>m_modified := True\<rparr>)"
    using lib_map_put [of n "put_cache (store_pos l m) ((cache_of l (store_pos l m))\<lparr>m_modified := True\<rparr>) l"]
      assms(2,3) by (simp add: lib_map_put)
  have map3: "lib_map ?l3 = (lib_map l)(m := None, n := None)"
    using lib_map_remove [OF wf2 n2] lib_map_remove [OF wf1, of m] assms(2) names1 map1
    by (auto simp: fun_eq_iff)
  show "fst (merge_cache m n l) = Inr True" using result by simp
  show "cache_list (snd (merge_cache m n l)) = filter (\<lambda>k. k \<noteq> m \<and> k \<noteq> n) (cache_list l) @ [m]"
    using result names3 by (simp add: cache_list_def)
  have "m \<notin> fst ` set (m_cache_vec ?l3)"
    using names3 by (simp add: cache_list_def flip: set_map)
  then have "lib_map (?l3\<lparr>m_cache_vec := m_cache_vec ?l3 @ [(m, ?new)]\<rparr>) = (lib_map ?l3)(m \<mapsto> ?new)"
    by (simp add: lib_map_def map_of_snoc del: map_of_append)
  with result map3 assms(4) show "lib_map (snd (merge_cache m n l)) = (lib_map l)(n := None, m \<mapsto> ?new)"
    by (auto simp: fun_eq_iff)
qed

lemma lib_modified_cases:
  "lib_modified l =
    (if m_cache_vec l = [] then Inr False
     else if \<exists>s \<in> set (m_cache_vec l). m_modified (snd s) then Inr True else Inl Undefined)"
proof -
  have "m_modified (snd (m_cache_vec l ! find_pos (\<lambda>s. m_modified (snd s)) (m_cache_vec l)))"
    if "\<exists>s \<in> set (m_cache_vec l). m_modified (snd s)"
    using that find_pos_nth [of "\<lambda>s. m_modified (snd s)" "m_cache_vec l"] by (simp add: find_pos_less_iff)
  then show ?thesis
    by (auto simp: lib_modified_def is_empty_lib_def Let_def cache_modified_def cache_of_def find_pos_less_iff)
qed

subsection \<open>The current collection\<close>

lemma cache_list_nth: "i < length (m_cache_vec l) \<Longrightarrow> cache_list l ! i = fst (m_cache_vec l ! i)"
  by (simp add: cache_list_def)

lemma coherent_iff:
  "active_coherent l \<longleftrightarrow> unat (m_current l) < length (cache_list l) \<and>
    cache_list l ! unat (m_current l) = m_active_name l"
  by (auto simp: active_coherent_def cache_list_def)

lemma coherent_insert: "active_coherent l \<Longrightarrow> active_coherent (snd (lib_insert n c l))"
  by (auto simp: lib_insert_cases active_coherent_def nth_append)

lemma coherent_change_active:
  assumes "length (m_cache_vec l) < 2 ^ 32" and "n \<in> set (cache_list l)"
  shows "active_coherent (snd (change_active n l))"
    and "m_active_name (snd (change_active n l)) = n"
proof -
  have less: "store_pos l n < length (m_cache_vec l)"
    using assms(2) by (simp add: store_pos_less)
  then have unat: "unat (of_nat (store_pos l n) :: u32) = store_pos l n"
    using assms(1) by (simp add: unat_of_nat take_bit_nat_eq_self)
  show "active_coherent (snd (change_active n l))" "m_active_name (snd (change_active n l)) = n"
    using less assms(2)
    by (simp_all add: change_active_def lib_exists_iff Let_def unat active_coherent_def store_pos_nth)
qed

lemma coherent_rename:
  assumes "wf_lib l" and "active_coherent l"
  shows "active_coherent (snd (rename_store m n l))"
proof (cases "m \<in> set (cache_list l) \<and> n \<notin> set (cache_list l)")
  case True
  let ?i = "store_pos l m" and ?j = "unat (m_current l)"
  have i: "?i < length (cache_list l)" "cache_list l ! ?i = m"
    using True store_pos_less [of l m] store_pos_nth [of m l] by (simp_all add: cache_list_def)
  have j: "?j < length (cache_list l)" "cache_list l ! ?j = m_active_name l"
    using assms(2) by (simp_all add: coherent_iff)
  have "?j = ?i \<longleftrightarrow> m_active_name l = m"
    using nth_eq_iff_index_eq [OF _ j(1) i(1)] assms(1) i j by (simp add: wf_lib_def)
  moreover have "m_current (snd (rename_store m n l)) = m_current l"
    "m_active_name (snd (rename_store m n l)) = (if m_active_name l = m then n else m_active_name l)"
    using True by (auto simp: rename_store_cases)
  ultimately show ?thesis
    using True i(1) assms(2) by (auto simp: coherent_iff cache_list_rename nth_list_update)
next
  case False
  then have "snd (rename_store m n l) = l" by (auto simp: rename_store_cases)
  with assms show ?thesis by simp
qed

lemma coherent_remove_iff:
  assumes "wf_lib l" and "active_coherent l" and "n \<in> set (cache_list l)"
  shows "active_coherent (snd (lib_remove n l)) \<longleftrightarrow> unat (m_current l) < store_pos l n"
proof -
  let ?i = "store_pos l n" and ?j = "unat (m_current l)" and ?ns = "cache_list l"
  have i: "?i < length ?ns"
    using assms(3) store_pos_less [of l n] by (simp add: cache_list_def)
  have same: "m_current (snd (lib_remove n l)) = m_current l"
    "m_active_name (snd (lib_remove n l)) = m_active_name l"
    using assms(3) by (simp_all add: lib_remove_vec)
  have "Suc ?j < length ?ns \<Longrightarrow> ?ns ! Suc ?j \<noteq> ?ns ! ?j"
    using assms(1) by (simp add: wf_lib_def nth_eq_iff_index_eq)
  then have "?j < length ?ns - 1 \<and> erase_at ?i ?ns ! ?j = ?ns ! ?j \<longleftrightarrow> ?j < ?i"
    using i by (auto simp: nth_erase_at less_diff_conv split: if_splits)
  then show ?thesis
    using i assms(2,3) same by (auto simp: coherent_iff cache_list_remove)
qed

text \<open>Merging removes two names and appends one; the index of the current collection stays.\<close>

lemma filter_keeps_place:
  assumes "distinct xs" and "j < length xs" and "P (xs ! j)" and "xs ! j \<notin> set ys"
  shows "(filter P xs @ ys) ! j = xs ! j \<and> j < length (filter P xs @ ys) \<longleftrightarrow> (\<forall>i < j. P (xs ! i))"
proof -
  let ?k = "length (filter P (take j xs))" and ?zs = "filter P xs @ ys"
  have split: "filter P xs = filter P (take j xs) @ xs ! j # filter P (drop (Suc j) xs)"
    using assms(2,3) by (subst id_take_nth_drop [of j xs]) simp_all
  have at: "?k < length (filter P xs)" "filter P xs ! ?k = xs ! j"
    by (simp_all add: split nth_append)
  have "?zs ! j = xs ! j \<and> j < length ?zs \<longleftrightarrow> j = ?k"
  proof
    assume h: "?zs ! j = xs ! j \<and> j < length ?zs"
    have "j < length (filter P xs)"
    proof (rule ccontr)
      assume "\<not> j < length (filter P xs)"
      with h have "xs ! j = ys ! (j - length (filter P xs))" "j - length (filter P xs) < length ys"
        by (auto simp: nth_append)
      with assms(4) show False using nth_mem by metis
    qed
    with h at assms(1) show "j = ?k"
      using nth_eq_iff_index_eq [of "filter P xs" j ?k] by (simp add: nth_append)
  qed (use at in \<open>auto simp: nth_append\<close>)
  also have "j = ?k \<longleftrightarrow> (\<forall>x \<in> set (take j xs). P x)"
    using assms(2) filter_id_conv [of P "take j xs"] length_filter_less [of _ "take j xs" P]
    by (metis (no_types, lifting) length_take min.absorb4 nat_neq_iff)
  finally show ?thesis using assms(2) by (auto simp: set_conv_nth)
qed

lemma length_filter_two:
  assumes "distinct xs" and "m \<in> set xs" and "n \<in> set xs" and "m \<noteq> n"
  shows "length (filter (\<lambda>k. k \<noteq> m \<and> k \<noteq> n) xs) = length xs - 2"
proof -
  have "set (filter (\<lambda>k. k \<noteq> m \<and> k \<noteq> n) xs) = set xs - {m, n}" by auto
  then have "length (filter (\<lambda>k. k \<noteq> m \<and> k \<noteq> n) xs) = card (set xs - {m, n})"
    using assms(1) distinct_card [of "filter (\<lambda>k. k \<noteq> m \<and> k \<noteq> n) xs"] by simp
  also have "\<dots> = length xs - 2"
    using assms by (subst card_Diff_subset) (simp_all add: distinct_card)
  finally show ?thesis .
qed

lemma coherent_merge_iff:
  assumes "wf_lib l" and "active_coherent l" and "m \<noteq> n" and "m \<in> set (cache_list l)" and "n \<in> set (cache_list l)"
    and "CHR 0x00 \<notin> set m"
  shows "active_coherent (snd (merge_cache m n l)) \<longleftrightarrow>
    unat (m_current l) < store_pos l m \<and> unat (m_current l) < store_pos l n \<or>
    unat (m_current l) = store_pos l m \<and> unat (m_current l) + 2 = length (m_cache_vec l)"
proof -
  let ?ns = "cache_list l" and ?j = "unat (m_current l)" and ?P = "\<lambda>k. k \<noteq> m \<and> k \<noteq> n"
  let ?zs = "filter ?P ?ns @ [m]"
  have d: "distinct ?ns" and j: "?j < length ?ns" "?ns ! ?j = m_active_name l"
    using assms(1,2) by (simp_all add: wf_lib_def coherent_iff)
  have pos: "store_pos l k < length ?ns" "?ns ! store_pos l k = k" if "k \<in> set ?ns" for k
    using that store_pos_less [of l k] store_pos_nth [of k l] by (simp_all add: cache_list_def)
  have same: "m_current (snd (merge_cache m n l)) = m_current l" "m_active_name (snd (merge_cache m n l)) = m_active_name l"
    by (simp_all add: merge_cache_def lib_remove_def put_cache_def Let_def)
  have lists: "cache_list (snd (merge_cache m n l)) = ?zs" using merge_cache_result(3) [OF assms(1,4,5,3,6)] .
  have at: "?ns ! ?j = k \<longleftrightarrow> ?j = store_pos l k" if "k \<in> set ?ns" for k
    using nth_eq_iff_index_eq [OF d j(1) pos(1) [OF that]] pos(2) [OF that] by simp
  have coherent: "active_coherent (snd (merge_cache m n l)) \<longleftrightarrow> ?zs ! ?j = ?ns ! ?j \<and> ?j < length ?zs"
    using j by (auto simp: coherent_iff same lists)
  have len: "length (filter ?P ?ns) = length ?ns - 2" "2 \<le> length ?ns"
    using length_filter_two [OF d assms(4,5,3)] card_mono [of "set ?ns" "{m, n}"] assms(3-5) distinct_card [OF d] by simp_all
  consider "?ns ! ?j = m" | "?ns ! ?j = n" | "?P (?ns ! ?j)" by blast
  then show ?thesis
  proof cases
    case 1
    have "?zs ! ?j = m \<and> ?j < length ?zs \<longleftrightarrow> ?j = length (filter ?P ?ns)"
      using nth_mem [of ?j "filter ?P ?ns"] by (auto simp: nth_append less_Suc_eq)
    with 1 coherent len at [OF assms(4)] show ?thesis by (auto simp: cache_list_def)
  next
    case 2
    have "?zs ! ?j \<noteq> n \<or> \<not> ?j < length ?zs"
      using nth_mem [of ?j "?zs"] assms(3) by auto
    with 2 coherent at [OF assms(5)] at [OF assms(4)] assms(3) show ?thesis by auto
  next
    case 3
    have "active_coherent (snd (merge_cache m n l)) \<longleftrightarrow> (\<forall>i < ?j. ?P (?ns ! i))"
      using filter_keeps_place [of ?ns ?j ?P "[m]", OF d j(1) 3] 3 coherent by auto
    also have "\<dots> \<longleftrightarrow> ?j \<le> store_pos l m \<and> ?j \<le> store_pos l n"
      using nth_eq_iff_index_eq [OF d] pos [OF assms(4)] pos [OF assms(5)] j(1)
      by (metis (no_types, lifting) leI le_trans less_imp_le_nat not_le)
    finally show ?thesis using 3 at [OF assms(4)] at [OF assms(5)] by auto
  qed
qed

subsection \<open>Names of collections\<close>

lemma cache_list_new [simp]: "cache_list new_lib = []"
  by (simp add: new_lib_def cache_list_def)

interpretation lib_names: value_store new_lib lib_exists "\<lambda>n l. snd (lib_insert n c l)" cache_list
  for c
  by unfold_locales (simp_all add: lib_exists_iff cache_list_insert)

lemma wf_new_lib [simp]: "wf_lib new_lib"
  by (simp add: wf_lib_def lib_names.vals_empty)

lemma wf_lib_insert: "wf_lib l \<Longrightarrow> wf_lib (snd (lib_insert n c l))"
  unfolding wf_lib_def by (rule lib_names.distinct_add)

lemma wf_lib_merge:
  assumes "wf_lib l" and "CHR 0x00 \<notin> set m"
  shows "wf_lib (snd (merge_cache m n l))"
proof (cases "m \<noteq> n \<and> m \<in> set (cache_list l) \<and> n \<in> set (cache_list l)")
  case True
  with assms show ?thesis by (simp add: wf_lib_def merge_cache_result(3))
next
  case False
  then have "snd (merge_cache m n l) = l" by (auto simp: merge_cache_cases)
  with assms show ?thesis by simp
qed

lemma change_active_cache_list [simp]: "cache_list (snd (change_active n l)) = cache_list l"
  by (simp add: change_active_def Let_def cache_list_def)

lemma wf_lib_change_active [simp]: "wf_lib (snd (change_active n l)) = wf_lib l"
  by (simp add: wf_lib_def)

lemma cache_list_remove_item:
  "remove_cache_item n v l = Inr (r, l') \<Longrightarrow> cache_list l' = cache_list l"
  by (auto simp: remove_cache_item_cases Let_def split: if_splits)

lemma cache_list_move:
  "CHR 0x00 \<notin> set v \<Longrightarrow> move_cache_item s d v l = Inr (r, l') \<Longrightarrow> cache_list l' = cache_list l"
  by (auto simp: move_cache_item_cases Let_def split: if_splits)

subsection \<open>The library file\<close>

lemma map_of_reloaded:
  "map_of (map (\<lambda>s. (fst s, reloaded (snd s))) xs) n = map_option reloaded (map_of xs n)"
  by (induction xs) auto

definition reloaded_lib :: "cache_lib \<Rightarrow> cache_lib" where
  "reloaded_lib l = l\<lparr>m_cache_vec := map (\<lambda>s. (fst s, reloaded (snd s))) (m_cache_vec l),
     m_active_name := cache_list l ! unat (m_current l)\<rparr>"

context json_library begin

lemma serialize_modified:
  assumes "\<exists>s \<in> set (m_cache_vec l). m_modified (snd s)"
    and "unat (m_current l) < length (m_cache_vec l)" and "can_write (library_path d)"
  shows "serialize_lib J d can_write l fs = Inr (fs(library_path d \<mapsto> j_dump J (j_object J
    [(''total_count'', j_unsigned J (of_nat (length (m_cache_vec l)))),
     (''active'', j_string J (fst (m_cache_vec l ! unat (m_current l)))),
     (''cache_libraries'', j_array J (map (store_to_json J) (m_cache_vec l)))])))"
  using assms by (auto simp: serialize_lib_def lib_modified_cases json_simps)

lemma stores_roundtrip:
  "traverse (\<lambda>d. store_from_json J d ([], empty_cache)) (map (store_to_json J) xs) =
    Inr (map (\<lambda>s. (fst s, reloaded (snd s))) xs)"
  by (induction xs) (auto simp: store_roundtrip)

lemma open_serialized:
  assumes "fs (library_path d) = Some (j_dump J (j_object J
    [(''total_count'', jcount), (''active'', j_string J name),
     (''cache_libraries'', j_array J (map (store_to_json J) vec))]))"
    and "name \<in> fst ` set vec"
  shows "open_lib J d fs True = Inr \<lparr>m_cache_vec = map (\<lambda>s. (fst s, reloaded (snd s))) vec,
    m_current = of_nat (find_pos (\<lambda>s. fst s = name) vec), m_active_name = name\<rparr>"
proof -
  have pos: "find_pos (\<lambda>s. fst s = name) (map (\<lambda>s. (fst s, reloaded (snd s))) vec)
      = find_pos (\<lambda>s. fst s = name) vec"
    by (induction vec) auto
  have "find_pos (\<lambda>s. fst s = name) vec \<noteq> length vec"
    using assms(2) key_pos_less_iff [of name vec] by simp
  then show ?thesis
    using assms(1)
    by (simp add: open_lib_def deserialize_lib_def json_simps stores_roundtrip store_pos_def pos new_lib_def)
qed

lemma lib_reload:
  assumes "wf_lib l" and "\<exists>s \<in> set (m_cache_vec l). m_modified (snd s)"
    and "unat (m_current l) < length (m_cache_vec l)" and "can_write (library_path d)"
  shows "\<exists>fs'. serialize_lib J d can_write l fs = Inr fs' \<and> open_lib J d fs' True = Inr (reloaded_lib l)"
proof -
  let ?i = "unat (m_current l)"
  let ?pos = "find_pos (\<lambda>s. fst s = fst (m_cache_vec l ! ?i)) (m_cache_vec l)"
  have member: "fst (m_cache_vec l ! ?i) \<in> fst ` set (m_cache_vec l)"
    using assms(3) by auto
  have "cache_list l ! ?pos = cache_list l ! ?i" "?pos < length (cache_list l)"
    using key_pos_nth [OF member] key_pos_less_iff [of "fst (m_cache_vec l ! ?i)" "m_cache_vec l"] member assms(3)
    by (simp_all add: cache_list_def)
  moreover have "distinct (cache_list l)" "?i < length (cache_list l)"
    using assms(1,3) by (simp_all add: wf_lib_def cache_list_def)
  ultimately have "?pos = ?i" by (metis nth_eq_iff_index_eq)
  moreover have "(of_nat ?i :: u32) = m_current l" by simp
  ultimately show ?thesis
    using serialize_modified [OF assms(2,3), of can_write d fs] assms(3,4)
      open_serialized [OF _ member, of _ d "j_unsigned J (of_nat (length (m_cache_vec l)))"]
    by (simp add: reloaded_lib_def cache_list_def)
qed

end

section \<open>Properties\<close>

text \<open>
  Inserting a collection under a new name adds exactly that entry to the map of
  collections, at the end of the list; under a name that is taken it changes nothing and
  reports \<^verbatim>\<open>cache_does_not_exists\<close>, not \<^verbatim>\<open>cache_exists\<close>.
\<close>

theorem lib_insert_spec:
  "if lib_exists l n
   then lib_insert n c l = (Inl (make_error_code Cache_does_not_exists), l) \<and> lib_map l n \<noteq> None
   else fst (lib_insert n c l) = Inr True \<and>
     lib_map (snd (lib_insert n c l)) = (lib_map l)(n \<mapsto> c) \<and>
     cache_list (snd (lib_insert n c l)) = cache_list l @ [n]"
  using lib_map_insert [of n l c] by (simp add: lib_exists_iff lib_insert_cases lib_map_None_iff cache_list_def)

text \<open>
  Removing a collection deletes exactly its entry and keeps the order of the others; an
  unknown name is an error and changes nothing.
\<close>

theorem lib_remove_spec:
  assumes "wf_lib l"
  shows "if lib_exists l n
    then fst (lib_remove n l) = Inr True \<and> lib_map (snd (lib_remove n l)) = (lib_map l)(n := None) \<and>
      cache_list (snd (lib_remove n l)) = filter (\<lambda>m. m \<noteq> n) (cache_list l) \<and> wf_lib (snd (lib_remove n l))
    else lib_remove n l = (Inl (make_error_code Cache_does_not_exists), l)"
proof (cases "n \<in> set (cache_list l)")
  case True
  then have "fst (lib_remove n l) = Inr True" by (simp add: lib_remove_vec)
  with True assms show ?thesis
    by (simp add: lib_exists_iff lib_map_remove cache_list_remove_filter wf_lib_remove)
next
  case False
  then show ?thesis by (simp add: lib_exists_iff lib_remove_absent)
qed

definition sample_lib :: cache_lib where
  "sample_lib = snd (change_active ''a'' (snd (lib_insert ''b'' (cache_insert ''y'' 2 (cache_insert ''x'' 2 empty_cache))
     (snd (lib_insert ''a'' (cache_insert ''z'' 1 (cache_insert ''w'' 1 empty_cache)) new_lib)))))"

lemma sample_lib_eval:
  "sample_lib = \<lparr>m_cache_vec =
     [(''a'', \<lparr>m_modified = True, m_list = [make_item ''w'' Unused 1, make_item ''z'' Unused 1]\<rparr>),
      (''b'', \<lparr>m_modified = True, m_list = [make_item ''x'' Unused 2, make_item ''y'' Unused 2]\<rparr>)],
     m_current = 0, m_active_name = ''a''\<rparr>"
  by (simp add: sample_lib_def lib_insert_def change_active_def lib_exists_def is_empty_lib_def new_lib_def
      store_pos_def cache_insert_def cache_contains_def empty_cache_def)

lemma wf_sample_lib: "wf_lib sample_lib"
  by (simp add: sample_lib_eval wf_lib_def cache_list_def)

lemma exists_sample_lib: "lib_exists sample_lib n \<longleftrightarrow> n = ''a'' \<or> n = ''b''"
  by (auto simp: lib_exists_iff sample_lib_eval cache_list_def)

theorem lib_remove_spec_witness:
  "lib_map (snd (lib_remove ''a'' sample_lib)) ''a'' = None \<and> cache_list (snd (lib_remove ''a'' sample_lib)) = [''b'']"
  using lib_remove_spec [OF wf_sample_lib, of "''a''"] exists_sample_lib [of "''a''"]
  by (simp add: sample_lib_eval cache_list_def)

text \<open>
  Renaming moves one entry of the map from the old name to the new one, in place, and the
  active name with it when it is the active collection; equal names, an unknown old name and a
  taken new name are errors and change nothing.
\<close>

theorem rename_store_spec:
  assumes "wf_lib l"
  shows "if m = n then rename_store m n l = (Inl (make_error_code Cache_frm_cache_to_same), l)
    else if lib_exists l m \<and> \<not> lib_exists l n
    then fst (rename_store m n l) = Inr True \<and>
      lib_map (snd (rename_store m n l)) = (lib_map l)(m := None, n := lib_map l m) \<and>
      cache_list (snd (rename_store m n l)) = (cache_list l)[store_pos l m := n] \<and>
      m_active_name (snd (rename_store m n l)) = (if m_active_name l = m then n else m_active_name l) \<and>
      wf_lib (snd (rename_store m n l))
    else rename_store m n l = (Inl (make_error_code Cache_does_not_exists), l)"
  using assms lib_map_rename [OF assms, of m n] cache_list_rename [of m l n] wf_lib_rename [OF assms, of m n]
  by (auto simp: lib_exists_iff rename_store_cases)

theorem rename_store_spec_witness:
  "cache_list (snd (rename_store ''a'' ''c'' sample_lib)) = [''c'', ''b''] \<and>
    m_active_name (snd (rename_store ''a'' ''c'' sample_lib)) = ''c''"
  using rename_store_spec [OF wf_sample_lib, of "''a''" "''c''"]
    exists_sample_lib [of "''a''"] exists_sample_lib [of "''c''"]
  by (simp add: sample_lib_eval cache_list_def store_pos_def)

text \<open>
  C11: merging two collections replaces them by one, under the first name and at the end of the
  list, that holds every item of both as often as they hold it together; it is sorted when both
  are. The other collections keep their content and order. Equal names and unknown names are
  errors and change nothing.
\<close>

theorem merge_cache_spec:
  assumes "wf_lib l" and "CHR 0x00 \<notin> set m"
  shows "if m = n then merge_cache m n l = (Inl (make_error_code Cache_frm_cache_to_same), l)
    else case (lib_map l m, lib_map l n) of
      (Some c, Some d) \<Rightarrow> fst (merge_cache m n l) = Inr True \<and>
        (\<exists>e. lib_map (snd (merge_cache m n l)) = (lib_map l)(n := None, m \<mapsto> e) \<and>
          mset (m_list e) = mset (m_list c) + mset (m_list d) \<and>
          (sorted (m_list c) \<and> sorted (m_list d) \<longrightarrow> sorted (m_list e))) \<and>
        cache_list (snd (merge_cache m n l)) = filter (\<lambda>k. k \<noteq> m \<and> k \<noteq> n) (cache_list l) @ [m]
    | _ \<Rightarrow> merge_cache m n l = (Inl (make_error_code Cache_does_not_exists), l)"
proof (cases "m \<noteq> n \<and> m \<in> set (cache_list l) \<and> n \<in> set (cache_list l)")
  case True
  then have "lib_map l m = Some (cache_of l (store_pos l m))" "lib_map l n = Some (cache_of l (store_pos l n))"
    by (simp_all add: lib_map_pos)
  with True merge_cache_result [of l m n] assms show ?thesis
    by (auto simp: mset_merge_ranges sorted_merge_ranges)
next
  case False
  then consider "m = n" | "m \<noteq> n" "m \<notin> set (cache_list l)" | "m \<noteq> n" "n \<notin> set (cache_list l)"
    by blast
  then show ?thesis
    by cases (simp_all add: merge_cache_cases lib_map_absent split: option.split)
qed

theorem merge_cache_spec_witness:
  "cache_list (snd (merge_cache ''a'' ''b'' sample_lib)) = [''a''] \<and> fst (merge_cache ''a'' ''b'' sample_lib) = Inr True"
  using merge_cache_spec [OF wf_sample_lib, of "''a''" "''b''"]
  by (simp add: lib_map_def sample_lib_eval cache_list_def)

text \<open>
  C12: moving a wallpaper never faults. It fails with the stated error, and without any change,
  when the names clash, a collection is unknown or the source has no such wallpaper; otherwise
  the first item with that value leaves the source, joins the destination unless the same item
  is already there, and no other collection changes.
\<close>

theorem move_cache_item_spec:
  assumes "CHR 0x00 \<notin> set v"
  shows "if s = d \<or> d = v
    then move_cache_item s d v l = Inr (Inl (make_error_code Cache_frm_cache_to_same), l)
    else case (lib_map l s, lib_map l d) of
      (Some c, Some e) \<Rightarrow>
        if v \<in> set (cache_values c)
        then \<exists>l' x c' e'. move_cache_item s d v l = Inr (Inr True, l') \<and>
          cache_value x = v \<and> x \<in> set (m_list c) \<and> x \<in> set (m_list e') \<and>
          mset (m_list c') = mset (m_list c) - {#x#} \<and>
          mset (m_list e') = (if x \<in> set (m_list e) then mset (m_list e) else mset (m_list e) + {#x#}) \<and>
          lib_map l' = (lib_map l)(d \<mapsto> e', s \<mapsto> c') \<and> cache_list l' = cache_list l
        else move_cache_item s d v l = Inr (Inl (make_error_code Cache_elem_not_exists), l)
    | _ \<Rightarrow> move_cache_item s d v l = Inr (Inl (make_error_code Cache_does_not_exists), l)"
proof (cases "s \<noteq> d \<and> d \<noteq> v \<and> s \<in> set (cache_list l) \<and> d \<in> set (cache_list l)")
  case True
  let ?c = "cache_of l (store_pos l s)" and ?e = "cache_of l (store_pos l d)"
  let ?pos = "find_pos (\<lambda>x. cache_value x = v) (m_list ?c)"
  let ?c' = "?c\<lparr>m_modified := True, m_list := erase_at ?pos (m_list ?c)\<rparr>"
  let ?e' = "cache_insert_elem (m_list ?c ! ?pos) ?e"
  let ?l1 = "put_cache (store_pos l d) ?e' l"
  have maps: "lib_map l s = Some ?c" "lib_map l d = Some ?e"
    using True by (simp_all add: lib_map_pos)
  have result: "lib_map (put_cache (store_pos l s) ?c' ?l1) = (lib_map l)(d \<mapsto> ?e', s \<mapsto> ?c')"
    using True lib_map_put [of s ?l1 ?c'] lib_map_put [of d l ?e'] by simp
  have found: "?pos < length (m_list ?c) \<and> cache_value (m_list ?c ! ?pos) = v" if "v \<in> set (cache_values ?c)"
    using that find_pos_nth [of "\<lambda>x. cache_value x = v" "m_list ?c"]
    by (auto simp: find_pos_less_iff set_cache_values)
  show ?thesis
  proof (cases "v \<in> set (cache_values ?c)")
    case v: True
    have "move_cache_item s d v l = Inr (Inr True, put_cache (store_pos l s) ?c' ?l1)"
      using assms True v by (simp add: move_cache_item_cases Let_def)
    moreover have "m_list ?c ! ?pos \<in> set (m_list ?c)" "cache_value (m_list ?c ! ?pos) = v"
      using found [OF v] by simp_all
    moreover have "mset (m_list ?c') = mset (m_list ?c) - {#m_list ?c ! ?pos#}"
      using found [OF v] by (simp add: mset_erase_at)
    moreover have "m_list ?c ! ?pos \<in> set (m_list ?e') \<and> mset (m_list ?e') =
        (if m_list ?c ! ?pos \<in> set (m_list ?e) then mset (m_list ?e) else mset (m_list ?e) + {#m_list ?c ! ?pos#})"
      by (simp add: cache_insert_elem_iff)
    ultimately have "\<exists>l' x c' e'. move_cache_item s d v l = Inr (Inr True, l') \<and>
          cache_value x = v \<and> x \<in> set (m_list ?c) \<and> x \<in> set (m_list e') \<and>
          mset (m_list c') = mset (m_list ?c) - {#x#} \<and>
          mset (m_list e') = (if x \<in> set (m_list ?e) then mset (m_list ?e) else mset (m_list ?e) + {#x#}) \<and>
          lib_map l' = (lib_map l)(d \<mapsto> e', s \<mapsto> c') \<and> cache_list l' = cache_list l"
      using result by (metis put_cache_simps(1))
    with True v show ?thesis by (simp only: maps) simp
  next
    case False
    with assms True show ?thesis by (simp add: maps move_cache_item_cases)
  qed
next
  case False
  then consider "s = d \<or> d = v" | "\<not> (s = d \<or> d = v)" "s \<notin> set (cache_list l)"
    | "\<not> (s = d \<or> d = v)" "d \<notin> set (cache_list l)"
    by blast
  then show ?thesis
    using assms by cases (simp_all add: move_cache_item_cases lib_map_absent split: option.split)
qed

theorem move_cache_item_spec_witness:
  "CHR 0x00 \<notin> set ''w'' \<and> (\<exists>l'. move_cache_item ''a'' ''b'' ''w'' sample_lib = Inr (Inr True, l'))"
proof -
  have nul: "CHR 0x00 \<notin> set ''w''" by simp
  have "lib_map sample_lib ''a'' = Some \<lparr>m_modified = True, m_list = [make_item ''w'' Unused 1, make_item ''z'' Unused 1]\<rparr>"
    "lib_map sample_lib ''b'' = Some \<lparr>m_modified = True, m_list = [make_item ''x'' Unused 2, make_item ''y'' Unused 2]\<rparr>"
    by (simp_all add: lib_map_def sample_lib_eval)
  with nul move_cache_item_spec [OF nul, of "''a''" "''b''" sample_lib] show ?thesis
    by (auto simp: cache_values_def)
qed

text \<open>
  Removing a wallpaper never faults. In a collection with unique values it leaves every
  other item in order; clashing names, an unknown collection and an absent wallpaper are errors.
  Even the last of these raises the collection's modified flag.
\<close>

theorem remove_cache_item_spec:
  assumes "\<And>c. lib_map l n = Some c \<Longrightarrow> wf_cache c"
  shows "if n = v then remove_cache_item n v l = Inr (Inl (make_error_code Cache_name_item_name_same), l)
    else case lib_map l n of
      None \<Rightarrow> remove_cache_item n v l = Inr (Inl (make_error_code Cache_does_not_exists), l)
    | Some c \<Rightarrow> \<exists>l' c'. lib_map l' = (lib_map l)(n \<mapsto> c') \<and> m_modified c' \<and> cache_list l' = cache_list l \<and>
        m_list c' = filter (\<lambda>x. cache_value x \<noteq> v) (m_list c) \<and>
        remove_cache_item n v l = Inr (if cache_contains c v then Inr True
          else Inl (make_error_code Cache_elem_not_exists), l')"
proof (cases "n \<noteq> v \<and> n \<in> set (cache_list l)")
  case True
  let ?c = "cache_of l (store_pos l n)"
  let ?pos = "find_pos (\<lambda>x. cache_value x = v) (m_list ?c)"
  let ?keep = "filter (\<lambda>x. cache_value x \<noteq> v) (m_list ?c)"
  have map: "lib_map l n = Some ?c" using True by (simp add: lib_map_pos)
  have wf: "wf_cache ?c" using assms map by simp
  show ?thesis
  proof (cases "v \<in> set (cache_values ?c)")
    case v: True
    have pos: "?pos < length (m_list ?c)" "cache_value (m_list ?c ! ?pos) = v"
      using v find_pos_nth [of "\<lambda>x. cache_value x = v" "m_list ?c"]
      by (auto simp: find_pos_less_iff set_cache_values)
    have "distinct (m_list ?c)" using wf by (simp add: wf_cache_def cache_values_def distinct_map)
    then have "erase_at ?pos (m_list ?c) = filter (\<lambda>x. x \<noteq> m_list ?c ! ?pos) (m_list ?c)"
      using pos(1) by (rule erase_at_filter)
    also have "\<dots> = ?keep"
      using pos wf_cache_item_unique [OF wf, of _ "m_list ?c ! ?pos"] by (intro filter_cong) auto
    finally show ?thesis
      using True v by (auto simp: map remove_cache_item_cases Let_def cache_contains_iff
        intro!: exI [of _ "put_cache (store_pos l n) (?c\<lparr>m_modified := True, m_list := ?keep\<rparr>) l"]
          exI [of _ "?c\<lparr>m_modified := True, m_list := ?keep\<rparr>"] simp: lib_map_put)
  next
    case v: False
    then have "?keep = m_list ?c" by (auto simp: set_cache_values intro!: filter_True)
    with True v show ?thesis
      by (auto simp: map remove_cache_item_cases Let_def cache_contains_iff lib_map_put
        intro!: exI [of _ "put_cache (store_pos l n) (?c\<lparr>m_modified := True\<rparr>) l"]
          exI [of _ "?c\<lparr>m_modified := True\<rparr>"])
  qed
next
  case False
  then consider "n = v" | "n \<noteq> v" "n \<notin> set (cache_list l)" by blast
  then show ?thesis by cases (simp_all add: remove_cache_item_cases lib_map_absent)
qed

theorem remove_cache_item_spec_witness:
  "\<exists>l' c'. remove_cache_item ''a'' ''w'' sample_lib = Inr (Inr True, l') \<and>
    lib_map l' ''a'' = Some c' \<and> m_list c' = [make_item ''z'' Unused 1]"
proof -
  have wf: "wf_cache c" if "lib_map sample_lib ''a'' = Some c" for c
    using that by (auto simp: lib_map_def sample_lib_eval wf_cache_def cache_values_def)
  have "lib_map sample_lib ''a'' = Some \<lparr>m_modified = True, m_list = [make_item ''w'' Unused 1, make_item ''z'' Unused 1]\<rparr>"
    by (simp add: lib_map_def sample_lib_eval)
  with remove_cache_item_spec [where l = sample_lib and n = "''a''" and v = "''w''", OF wf] show ?thesis
    by (auto simp: cache_contains_iff cache_values_def)
qed

text \<open>
  C19: the index of the current collection keeps denoting the active collection under
  insertion, renaming, switching, moving and removing wallpapers. Removing a collection keeps
  it exactly when the removed collection comes after the current one: the index is not adjusted.
  Merging two collections, which removes both and appends a new one under the name of the first,
  keeps it exactly when both come after the current one, or when the current one is the first of
  the two and the last but one in the library, so that the new collection takes its place.
\<close>

theorem current_collection_coherent:
  assumes "wf_lib l" and "active_coherent l" and "length (m_cache_vec l) < 2 ^ 32" and "CHR 0x00 \<notin> set v"
  shows "active_coherent (snd (lib_insert n c l)) \<and> active_coherent (snd (rename_store m n l)) \<and>
    active_coherent (snd (change_active n l)) \<and>
    (case remove_cache_item m v l of Inr (_, l') \<Rightarrow> active_coherent l' | Inl _ \<Rightarrow> False) \<and>
    (case move_cache_item m n v l of Inr (_, l') \<Rightarrow> active_coherent l' | Inl _ \<Rightarrow> False) \<and>
    (active_coherent (snd (lib_remove n l)) \<longleftrightarrow> lib_exists l n \<longrightarrow> unat (m_current l) < store_pos l n) \<and>
    (CHR 0x00 \<notin> set m \<longrightarrow> (active_coherent (snd (merge_cache m n l)) \<longleftrightarrow>
      m \<noteq> n \<and> lib_exists l m \<and> lib_exists l n \<longrightarrow>
      unat (m_current l) < store_pos l m \<and> unat (m_current l) < store_pos l n \<or>
      unat (m_current l) = store_pos l m \<and> unat (m_current l) + 2 = length (m_cache_vec l)))"
proof -
  have "active_coherent (snd (change_active n l))"
    using assms(2) coherent_change_active(1) [OF assms(3), of n]
    by (cases "n \<in> set (cache_list l)") (simp_all add: change_active_def lib_exists_iff)
  moreover have "active_coherent (snd (lib_remove n l)) \<longleftrightarrow> lib_exists l n \<longrightarrow> unat (m_current l) < store_pos l n"
    using assms(2) coherent_remove_iff [OF assms(1,2), of n]
    by (cases "n \<in> set (cache_list l)") (simp_all add: lib_exists_iff lib_remove_absent)
  moreover have "case remove_cache_item m v l of Inr (_, l') \<Rightarrow> active_coherent l' | Inl _ \<Rightarrow> False"
    using assms(2) by (simp add: remove_cache_item_cases Let_def)
  moreover have "case move_cache_item m n v l of Inr (_, l') \<Rightarrow> active_coherent l' | Inl _ \<Rightarrow> False"
    using assms(2,4) by (simp add: move_cache_item_cases Let_def)
  moreover have "active_coherent (snd (merge_cache m n l)) \<longleftrightarrow> m \<noteq> n \<and> lib_exists l m \<and> lib_exists l n \<longrightarrow>
      unat (m_current l) < store_pos l m \<and> unat (m_current l) < store_pos l n \<or>
      unat (m_current l) = store_pos l m \<and> unat (m_current l) + 2 = length (m_cache_vec l)" if "CHR 0x00 \<notin> set m"
    using assms(2) coherent_merge_iff [OF assms(1,2), of m n] that
    by (cases "m \<noteq> n \<and> m \<in> set (cache_list l) \<and> n \<in> set (cache_list l)") (auto simp: lib_exists_iff merge_cache_def)
  ultimately show ?thesis
    using assms coherent_insert [OF assms(2), of n c] coherent_rename [OF assms(1,2), of m n] by simp
qed

theorem current_collection_coherent_witness:
  "active_coherent sample_lib \<and> \<not> active_coherent (snd (lib_remove ''a'' sample_lib)) \<and>
    active_coherent (snd (lib_remove ''b'' sample_lib)) \<and>
    active_coherent (snd (merge_cache ''a'' ''b'' sample_lib)) \<and> \<not> active_coherent (snd (merge_cache ''b'' ''a'' sample_lib))"
proof -
  have h: "active_coherent sample_lib" "length (m_cache_vec sample_lib) < 2 ^ 32" "CHR 0x00 \<notin> set ''w''"
    by (simp_all add: sample_lib_eval active_coherent_def)
  show ?thesis
    using current_collection_coherent [OF wf_sample_lib h, of "''a''" empty_cache]
      current_collection_coherent [OF wf_sample_lib h, of "''b''" empty_cache]
      current_collection_coherent [OF wf_sample_lib h, of "''b''" empty_cache "''a''"]
      current_collection_coherent [OF wf_sample_lib h, of "''a''" empty_cache "''b''"] h(1)
      exists_sample_lib [of "''a''"] exists_sample_lib [of "''b''"]
    by (simp add: sample_lib_eval store_pos_def)
qed

text \<open>
  \<^verbatim>\<open>modified()\<close> is right on an empty library and on one with a modified collection, and
  dereferences the end iterator on every other. A library whose only collection was created
  empty is such a library, so storing it has undefined behaviour.
\<close>

theorem lib_modified_undefined:
  "(lib_modified l = Inl Undefined \<longleftrightarrow>
      cache_list l \<noteq> [] \<and> (\<forall>s \<in> set (m_cache_vec l). \<not> m_modified (snd s))) \<and>
    lib_modified l \<noteq> Inl (Throws e) \<and>
    serialize_lib J d can_write (snd (lib_insert n empty_cache new_lib)) fs = Inl Undefined"
  by (simp add: lib_modified_cases cache_list_def serialize_lib_def lib_insert_cases new_lib_def)

theorem lib_modified_undefined_witness:
  "lib_modified (snd (lib_insert ''a'' empty_cache new_lib)) = Inl Undefined \<and>
    lib_modified sample_lib \<noteq> Inl Undefined"
  using lib_modified_undefined [of "snd (lib_insert ''a'' empty_cache new_lib)", THEN conjunct1]
    lib_modified_undefined [of sample_lib, THEN conjunct1]
  by (simp add: lib_insert_cases new_lib_def cache_list_def sample_lib_eval)

text \<open>
  Storing a library with a modified collection and opening it again gives the same
  collections in the same order, each without duplicate items and marked modified when it is
  not empty, and the same current index; the active name becomes the name of the collection at
  that index.
\<close>

theorem library_reload:
  assumes "json_library J" and "wf_lib l" and "\<exists>s \<in> set (m_cache_vec l). m_modified (snd s)"
    and "unat (m_current l) < cache_count l" and "can_write (library_path d)"
  shows "\<exists>fs' l'. serialize_lib J d can_write l fs = Inr fs' \<and> open_lib J d fs' True = Inr l' \<and>
    cache_list l' = cache_list l \<and> m_current l' = m_current l \<and> active_coherent l' \<and>
    (\<forall>n. lib_map l' n = map_option reloaded (lib_map l n))"
proof -
  have "\<exists>fs'. serialize_lib J d can_write l fs = Inr fs' \<and> open_lib J d fs' True = Inr (reloaded_lib l)"
    using assms by (intro json_library.lib_reload) (simp_all add: cache_count_def)
  moreover have "lib_map (reloaded_lib l) n = map_option reloaded (lib_map l n)" for n
    by (simp add: lib_map_def reloaded_lib_def map_of_reloaded)
  moreover have "cache_list (reloaded_lib l) = cache_list l" "m_current (reloaded_lib l) = m_current l"
    by (simp_all add: reloaded_lib_def cache_list_def)
  moreover have "active_coherent (reloaded_lib l)"
    using assms(4) by (simp add: coherent_iff cache_count_def) (simp add: reloaded_lib_def cache_list_def)
  ultimately show ?thesis by blast
qed

theorem library_reload_witness:
  "\<exists>fs' l'. serialize_lib json_tree_ops ''/d'' (\<lambda>_. True) sample_lib Map.empty = Inr fs' \<and>
    open_lib json_tree_ops ''/d'' fs' True = Inr l' \<and> cache_list l' = [''a'', ''b'']"
proof -
  have h: "\<exists>s \<in> set (m_cache_vec sample_lib). m_modified (snd s)" "unat (m_current sample_lib) < cache_count sample_lib"
    by (simp_all add: sample_lib_eval cache_count_def)
  have "cache_list sample_lib = [''a'', ''b'']" by (simp add: sample_lib_eval cache_list_def)
  then show ?thesis
    using library_reload [OF tree.json_library_axioms wf_sample_lib h, of "\<lambda>_. True" "''/d''" Map.empty]
    by auto
qed

end
