(* ===== verification/Fs_Path.thy ===== *)
theory Fs_Path
  imports Prelude
begin

text \<open>
  The operations of \<^verbatim>\<open>std::filesystem::path\<close> that the sources call, on the POSIX format: a
  path is its string, the separator is the slash. The standard fixes all of them:
  \<^verbatim>\<open>filename\<close> is what follows the last separator, \<^verbatim>\<open>parent_path\<close> what precedes it without
  the separators in between (the root directory stays), and \<^verbatim>\<open>append\<close> replaces on an absolute
  right side and puts a separator after a file name.
\<close>

type_synonym path = string

definition is_sep :: "char \<Rightarrow> bool" where
  "is_sep c \<longleftrightarrow> c = CHR ''/''"

definition path_filename :: "path \<Rightarrow> string" where
  "path_filename p = rev (takeWhile (\<lambda>c. \<not> is_sep c) (rev p))"

definition path_directory :: "path \<Rightarrow> string" where
  "path_directory p = rev (dropWhile (\<lambda>c. \<not> is_sep c) (rev p))"

definition strip_seps :: "path \<Rightarrow> string" where
  "strip_seps d = rev (dropWhile is_sep (rev d))"

definition path_parent :: "path \<Rightarrow> path" where
  "path_parent p =
     (let d = path_directory p in
      if d = [] then []
      else if list_all is_sep p then p
      else if strip_seps d = [] then ''/'' else strip_seps d)"

definition is_absolute :: "path \<Rightarrow> bool" where
  "is_absolute p = (case p of [] \<Rightarrow> False | c # _ \<Rightarrow> is_sep c)"

definition path_append :: "path \<Rightarrow> path \<Rightarrow> path" where
  "path_append p q =
     (if is_absolute q then q
      else if p \<noteq> [] \<and> \<not> is_sep (last p) then p @ ''/'' @ q
      else p @ q)"

text \<open>A path in which no two separators meet, and which does not end in one.\<close>

definition normal_path :: "path \<Rightarrow> bool" where
  "normal_path p \<longleftrightarrow> path_filename p \<noteq> [] \<and>
     (\<forall>d. path_directory p = d @ ''/'' \<longrightarrow> d = [] \<or> \<not> is_sep (last d))"

lemma directory_filename: "path_directory p @ path_filename p = p"
proof -
  have "rev (path_directory p @ path_filename p) = rev p"
    by (simp add: path_directory_def path_filename_def)
  then show ?thesis by (simp only: rev_is_rev_conv)
qed

lemma filename_no_sep: "c \<in> set (path_filename p) \<Longrightarrow> \<not> is_sep c"
  by (auto simp: path_filename_def dest: set_takeWhileD)

lemma directory_ends_in_sep: "path_directory p \<noteq> [] \<Longrightarrow> is_sep (last (path_directory p))"
  using hd_dropWhile [of "\<lambda>c. \<not> is_sep c" "rev p"]
  by (auto simp: path_directory_def last_rev)

lemma filename_relative: "\<not> is_absolute (path_filename p)"
  using filename_no_sep [of "hd (path_filename p)" p]
  by (cases "path_filename p") (auto simp: is_absolute_def)

lemma strip_seps_snoc: "strip_seps (d @ [c]) = (if is_sep c then strip_seps d else d @ [c])"
  by (simp add: strip_seps_def)

lemma strip_seps_Nil [simp]: "strip_seps [] = []"
  by (simp add: strip_seps_def)

lemma strip_seps_id: "d = [] \<or> \<not> is_sep (last d) \<Longrightarrow> strip_seps d = d"
  by (cases d rule: rev_cases) (auto simp: strip_seps_snoc strip_seps_Nil)

text \<open>On a path with no repeated separators, splitting and appending give the path back.\<close>

lemma append_parent_filename:
  assumes "normal_path p"
  shows "path_append (path_parent p) (path_filename p) = p"
proof (cases "path_directory p" rule: rev_cases)
  case Nil
  then show ?thesis
    using directory_filename [of p] filename_relative [of p]
    by (simp add: path_append_def path_parent_def)
next
  case (snoc d c)
  have c: "is_sep c" using directory_ends_in_sep [of p] snoc by simp
  then have slash: "c = CHR ''/''" by (simp add: is_sep_def)
  have d: "d = [] \<or> \<not> is_sep (last d)"
    using assms snoc slash by (simp add: normal_path_def)
  have "path_filename p \<noteq> []" using assms by (simp add: normal_path_def)
  then have "\<not> list_all is_sep p"
    using directory_filename [of p] filename_no_sep [of _ p]
    by (metis list_all_append list_all_iff list.set_sel(1))
  then have "path_parent p = (if d = [] then ''/'' else d)"
    using snoc c d by (simp add: path_parent_def strip_seps_snoc strip_seps_id [OF d])
  moreover have "d @ ''/'' @ path_filename p = p"
    using directory_filename [of p] snoc slash by simp
  ultimately show ?thesis
    using d filename_relative [of p] by (auto simp: path_append_def is_sep_def)
qed

end
