(* ===== verification/Path_Table.thy ===== *)
theory Path_Table
  imports Crc32 Json_Helper Fs_Path
begin

text \<open>
  The table from checksums to directories: class \<^verbatim>\<open>path_table\<close> of
  \<^verbatim>\<open>src/src/change_lib/path_table.hpp\<close> and \<^verbatim>\<open>path_table.cpp\<close>. A wallpaper item keeps only the
  CRC-32 of its directory's name; the table gives the directory back.
\<close>

section \<open>The code\<close>

record path_table =
  pt_store :: "(u32 \<times> path) list"
  pt_modified :: bool

definition empty_table :: path_table where
  "empty_table = \<lparr>pt_store = [], pt_modified = False\<rparr>"

text \<open>\<^verbatim>\<open>static_cast<u32>(crc(s.begin(), s.end()))\<close>\<close>

definition path_hash :: "path \<Rightarrow> u32" where
  "path_hash p = crc_u32 (string_bytes p)"

definition pt_exists :: "path_table \<Rightarrow> u32 \<Rightarrow> bool" where
  "pt_exists t i \<longleftrightarrow> find_pos (\<lambda>e. fst e = i) (pt_store t) \<noteq> length (pt_store t)"

definition pt_insert :: "path \<Rightarrow> path_table \<Rightarrow> path_table" where
  "pt_insert p t =
     (let h = path_hash p in
      if \<not> pt_exists t h
      then t\<lparr>pt_modified := True, pt_store := pt_store t @ [(h, p)]\<rparr>
      else t)"

definition pt_get :: "path_table \<Rightarrow> u32 \<Rightarrow> path option" where
  "pt_get t i =
     (if pt_exists t i
      then Some (snd (pt_store t ! find_pos (\<lambda>e. fst e = i) (pt_store t)))
      else None)"

definition table_path :: "string \<Rightarrow> string" where
  "table_path data_dir = data_dir @ ''/path_table.json''"

text \<open>The library's conversions of a pair and of a path: an array of two, and a string.\<close>

definition entry_to_json :: "('j, 't) json_ops \<Rightarrow> u32 \<times> path \<Rightarrow> 'j" where
  "entry_to_json J e = j_array J [j_unsigned J (ucast (fst e)), j_string J (snd e)]"

definition entry_from_json :: "('j, 't) json_ops \<Rightarrow> 'j \<Rightarrow> (u32 \<times> path) result" where
  "entry_from_json J j =
     rbind (j_get_array J j) (\<lambda>xs. case xs of
        a # b # _ \<Rightarrow> rbind (j_get_u32 J a) (\<lambda>h. rbind (j_get_string J b) (\<lambda>p. Inr (h, p)))
      | _ \<Rightarrow> Inl (Throws Json_out_of_range))"

definition pt_save ::
    "('j, 't) json_ops \<Rightarrow> string \<Rightarrow> (string \<Rightarrow> bool) \<Rightarrow> path_table \<Rightarrow> (string \<rightharpoonup> 't) \<Rightarrow> (string \<rightharpoonup> 't) result" where
  "pt_save J data_dir can_write t fs = noexcept_call (
     if pt_modified t
     then rbind (j_put J (j_null J) ''entries'' (j_array J (map (entry_to_json J) (pt_store t)))) (\<lambda>obj.
          Inr (if can_write (table_path data_dir)
               then fs(table_path data_dir \<mapsto> j_dump J obj) else fs))
     else Inr fs)"

text \<open>The constructor.\<close>

definition pt_open :: "('j, 't) json_ops \<Rightarrow> string \<Rightarrow> (string \<rightharpoonup> 't) \<Rightarrow> path_table result" where
  "pt_open J data_dir fs =
     (case fs (table_path data_dir) of
        Some text \<Rightarrow>
          rbind (j_parse J text) (\<lambda>obj.
          if \<not> j_is_null J obj
          then rbind (j_index J obj ''entries'') (\<lambda>es. rbind (j_get_array J es) (\<lambda>docs.
               rbind (traverse (entry_from_json J) docs) (\<lambda>st. Inr (empty_table\<lparr>pt_store := st\<rparr>))))
          else Inr empty_table)
      | None \<Rightarrow> Inr empty_table)"

section \<open>Lookup\<close>

text \<open>
  The invariant: an entry is filed under the checksum of its own path, and no checksum is
  filed twice.
\<close>

definition wf_table :: "path_table \<Rightarrow> bool" where
  "wf_table t \<longleftrightarrow> distinct (map fst (pt_store t)) \<and> (\<forall>(h, p) \<in> set (pt_store t). h = path_hash p)"

lemma pt_exists_iff: "pt_exists t i \<longleftrightarrow> i \<in> fst ` set (pt_store t)"
  by (auto simp: pt_exists_def find_pos_end_iff)

lemma pt_get_map_of: "pt_get t i = map_of (pt_store t) i"
  by (simp add: pt_get_def pt_exists_iff map_of_key_pos map_of_absent)

lemma wf_empty_table [simp]: "wf_table empty_table"
  by (simp add: wf_table_def empty_table_def)

lemma wf_pt_insert: "wf_table t \<Longrightarrow> wf_table (pt_insert p t)"
  by (auto simp: wf_table_def pt_insert_def Let_def pt_exists_iff)

lemma pt_get_insert:
  "pt_get (pt_insert p t) i =
    (if i = path_hash p \<and> pt_get t i = None then Some p else pt_get t i)"
  by (cases "path_hash p \<in> fst ` set (pt_store t)")
    (auto simp: pt_get_map_of pt_insert_def Let_def pt_exists_iff map_of_absent map_of_snoc
      map_of_eq_None_iff simp del: map_of_append)

lemma pt_get_hash: "wf_table t \<Longrightarrow> pt_get t i = Some p \<Longrightarrow> i = path_hash p"
  by (auto simp: wf_table_def pt_get_map_of dest: map_of_SomeD)

section \<open>The file\<close>

context json_library begin

lemma entry_roundtrip: "entry_from_json J (entry_to_json J e) = Inr e"
  by (simp add: entry_from_json_def entry_to_json_def json_simps)

lemma pt_save_modified:
  "pt_modified t \<Longrightarrow> can_write (table_path d) \<Longrightarrow>
    pt_save J d can_write t fs = Inr (fs(table_path d \<mapsto>
      j_dump J (j_object J [(''entries'', j_array J (map (entry_to_json J) (pt_store t)))])))"
  by (simp add: pt_save_def json_simps)

lemma pt_open_saved:
  "fs (table_path d) = Some (j_dump J (j_object J [(''entries'', j_array J (map (entry_to_json J) st))])) \<Longrightarrow>
    pt_open J d fs = Inr (empty_table\<lparr>pt_store := st\<rparr>)"
  by (simp add: pt_open_def json_simps traverse_roundtrip entry_roundtrip)

end

sublocale json_library \<subseteq> entry_codec: codec "entry_to_json J" "entry_from_json J" "\<lambda>_. True"
  by unfold_locales (simp add: entry_roundtrip)

section \<open>Properties\<close>

text \<open>
  C20: inserting a directory into a well-formed table keeps it well formed. If the checksum is
  new, lookup changes at that checksum only and gives the directory; if it is known, the table
  stays as it is and the checksum still gives the directory filed first, which has the same
  checksum but need not be the same directory.
\<close>

theorem path_table_insert:
  assumes "wf_table t"
  shows "wf_table (pt_insert p t) \<and>
    (case pt_get t (path_hash p) of
       None \<Rightarrow> pt_get (pt_insert p t) = (pt_get t)(path_hash p \<mapsto> p) \<and> pt_modified (pt_insert p t)
     | Some q \<Rightarrow> pt_insert p t = t \<and> path_hash q = path_hash p)"
proof (cases "pt_get t (path_hash p)")
  case None
  then have "\<not> pt_exists t (path_hash p)" by (auto simp: pt_get_def split: if_splits)
  with None assms show ?thesis
    by (auto simp: fun_eq_iff pt_get_insert wf_pt_insert) (simp add: pt_insert_def)
next
  case (Some q)
  then have "pt_exists t (path_hash p)" by (auto simp: pt_get_def split: if_splits)
  with Some assms show ?thesis
    by (auto simp: pt_insert_def dest: pt_get_hash)
qed

theorem path_table_insert_witness:
  "wf_table empty_table \<and> pt_get (pt_insert ''/pics'' empty_table) (path_hash ''/pics'') = Some ''/pics''"
proof -
  have wf: "wf_table empty_table" by simp
  have "pt_get empty_table i = None" for i by (simp add: pt_get_map_of empty_table_def)
  with wf path_table_insert [OF wf, of "''/pics''"] show ?thesis by simp
qed

text \<open>
  A modified table that is stored and opened again is the same table, marked unmodified.
\<close>

theorem path_table_reload:
  assumes "json_library J" and "pt_modified t" and "can_write (table_path d)"
  shows "\<exists>fs'. pt_save J d can_write t fs = Inr fs' \<and>
    pt_open J d fs' = Inr (t\<lparr>pt_modified := False\<rparr>)"
proof -
  have fresh: "empty_table\<lparr>pt_store := pt_store t\<rparr> = t\<lparr>pt_modified := False\<rparr>"
    by (simp add: empty_table_def)
  show ?thesis
    using json_library.pt_save_modified [OF assms(1), of t can_write d fs] assms(2,3)
      json_library.pt_open_saved [OF assms(1), of _ d "pt_store t"]
    by (simp add: fresh)
qed

theorem path_table_reload_witness:
  "\<exists>fs'. pt_save json_tree_ops ''/d'' (\<lambda>_. True) (pt_insert ''/pics'' empty_table) Map.empty = Inr fs' \<and>
    pt_open json_tree_ops ''/d'' fs' = Inr ((pt_insert ''/pics'' empty_table)\<lparr>pt_modified := False\<rparr>)"
proof (rule path_table_reload)
  show "json_library json_tree_ops" by (rule tree.json_library_axioms)
  show "pt_modified (pt_insert ''/pics'' empty_table)"
    by (simp add: pt_insert_def pt_exists_iff empty_table_def)
qed simp

end
