(* ===== verification/Manager.thy ===== *)
theory Manager
  imports Cache_Library Path_Table
begin

text \<open>
  The state of the command line program: class \<^verbatim>\<open>Manager\<close> of
  \<^verbatim>\<open>src/src/change_app/wall_manager.hpp\<close> and \<^verbatim>\<open>wall_manager.cpp\<close>. It owns the collections,
  the path table and the history of shown wallpapers (JSON documents). Log output is left out.
  The file system and the random number generator are parameters: a record of the calls the
  code makes of \<^verbatim>\<open>std::filesystem\<close>, and the sequence of values the distribution yields.
\<close>

section \<open>State and environment\<close>

record 'j manager =
  mg_cache :: cache_lib
  mg_path_buf :: path_table
  mg_previous :: "'j list"

text \<open>
  \<^verbatim>\<open>exists\<close>, and the entries of a directory with their \<^verbatim>\<open>is_directory\<close>, listed flat or (first
  argument) recursively. Both can throw.
\<close>

record fs_calls =
  fs_exists :: "path \<Rightarrow> bool result"
  fs_entries :: "bool \<Rightarrow> path \<Rightarrow> (path \<times> bool) list result"

definition open_manager ::
    "('j, 't) json_ops \<Rightarrow> string \<Rightarrow> 't files \<Rightarrow> 'j manager result" where
  "open_manager J data_dir fs =
     rbind (open_lib J data_dir fs True) (\<lambda>l.
     rbind (pt_open J data_dir fs) (\<lambda>t.
       Inr \<lparr>mg_cache = l, mg_path_buf = t, mg_previous = []\<rparr>))"

definition history_path :: "string \<Rightarrow> string" where
  "history_path data_dir = data_dir @ ''/history.json''"

definition store_manager ::
    "('j, 't) json_ops \<Rightarrow> string \<Rightarrow> (string \<Rightarrow> bool) \<Rightarrow> 'j manager \<Rightarrow> 't files \<Rightarrow> 't files result" where
  "store_manager J data_dir can_write m fs =
     rbind (if mg_previous m \<noteq> []
            then rbind (j_put J (j_null J) ''histoy'' (j_array J (mg_previous m))) (\<lambda>obj.
                 Inr (if can_write (history_path data_dir)
                      then fs(history_path data_dir \<mapsto> j_dump J obj) else fs))
            else Inr fs) (\<lambda>fs1.
     rbind (pt_save J data_dir can_write (mg_path_buf m) fs1) (\<lambda>fs2.
       serialize_lib J data_dir can_write (mg_cache m) fs2))"

section \<open>Showing wallpapers\<close>

text \<open>\<^verbatim>\<open>mark_favorate\<close> writes through the iterator it finds without looking at the end.\<close>

definition mark_favorate :: "('j, 't) json_ops \<Rightarrow> 'j manager \<Rightarrow> 'j manager result" where
  "mark_favorate J m =
     (if mg_previous m \<noteq> []
      then rbind (get_current (mg_cache m)) (\<lambda>(sl, l).
           rbind (j_index J (last (mg_previous m)) ''wallpaper'') (\<lambda>w.
           rbind (j_get_string J w) (\<lambda>name.
             let pos = find_pos (\<lambda>x. cache_value x = name) (slice_items l sl)
             in rbind (slice_read l sl pos) (\<lambda>x.
                rbind (slice_write l sl pos (x\<lparr>cache_state := Favorate\<rparr>)) (\<lambda>l'.
                  Inr (m\<lparr>mg_cache := l'\<rparr>))))))
      else Inr m)"

text \<open>
  The \<^verbatim>\<open>while\<close> loop of \<^verbatim>\<open>next_wall\<close>: it draws indices until it meets an unused item.
  \<open>None\<close> is a loop that never ends; the span does not check the index.
\<close>

partial_function (option) pick_loop ::
    "(nat \<Rightarrow> nat) \<Rightarrow> nat \<Rightarrow> string cache_item list \<Rightarrow> nat result option" where
  "pick_loop draws k items =
     (let idx = draws k in
      if idx < length items
      then if cache_state (items ! idx) = Unused then Some (Inr idx)
           else pick_loop draws (Suc k) items
      else Some (Inl Undefined))"

text \<open>
  The upper bound handed to \<^verbatim>\<open>uniform_int_distribution\<close>: the size as an \<^verbatim>\<open>int\<close>. A range whose
  bounds are out of order is undefined.
\<close>

definition draw_bound :: "string cache_item list \<Rightarrow> int" where
  "draw_bound items = sint (of_nat (length items) :: u32)"

definition shown_document ::
    "('j, 't) json_ops \<Rightarrow> string cache_item \<Rightarrow> path \<Rightarrow> nat \<Rightarrow> string \<Rightarrow> 'j result" where
  "shown_document J x p idx active =
     rbind (j_put J (j_null J) ''wallpaper'' (j_string J (cache_value x))) (\<lambda>s1.
     rbind (j_put J s1 ''path'' (j_string J p)) (\<lambda>s2.
     rbind (j_put J s2 ''index'' (j_unsigned J (of_nat idx))) (\<lambda>s3.
       j_put J s3 ''collection'' (j_string J active))))"

definition next_wall ::
    "('j, 't) json_ops \<Rightarrow> (nat \<Rightarrow> nat) \<Rightarrow> 'j manager \<Rightarrow> ('j \<times> 'j manager) result option" where
  "next_wall J draws m =
     (case get_cache (active_cache_name (mg_cache m)) (mg_cache m) of
        (Inl _, _) \<Rightarrow> Some (Inr (j_null J, m))
      | (Inr sl, l) \<Rightarrow>
          let items = slice_items l sl
          in if draw_bound items < 1 then Some (Inl Undefined)
             else case pick_loop draws 0 items of
                 None \<Rightarrow> None
               | Some (Inl e) \<Rightarrow> Some (Inl e)
               | Some (Inr idx) \<Rightarrow> Some (
                   let ret = items ! idx
                   in rbind (slice_write l sl idx (ret\<lparr>cache_state := Used\<rparr>)) (\<lambda>l'.
                      rbind (slice_read l' sl idx) (\<lambda>chosen.
                      rbind (case pt_get (mg_path_buf m) (loc chosen) of
                               Some p \<Rightarrow> Inr p | None \<Rightarrow> Inl (Throws Bad_optional_access)) (\<lambda>p.
                      rbind (shown_document J ret p idx (active_cache_name l')) (\<lambda>send.
                        Inr (send, m\<lparr>mg_cache := l', mg_previous := mg_previous m @ [send]\<rparr>)))))))"

definition previous_wall :: "('j, 't) json_ops \<Rightarrow> 'j manager \<Rightarrow> 'j \<times> 'j manager" where
  "previous_wall J m =
     (if mg_previous m \<noteq> []
      then (last (mg_previous m), m\<lparr>mg_previous := butlast (mg_previous m)\<rparr>)
      else (j_null J, m))"

section \<open>Managing collections\<close>

text \<open>
  These log the outcome of the library's operation and return whether it succeeded.
\<close>

definition succeeded :: "(error_code + bool) \<Rightarrow> bool" where
  "succeeded r = (case r of Inr _ \<Rightarrow> True | Inl _ \<Rightarrow> False)"

definition mg_lift ::
    "(cache_lib \<Rightarrow> (error_code + bool) \<times> cache_lib) \<Rightarrow> 'j manager \<Rightarrow> bool \<times> 'j manager" where
  "mg_lift f m = (let (r, l) = f (mg_cache m) in (succeeded r, m\<lparr>mg_cache := l\<rparr>))"

definition mg_change_active :: "string \<Rightarrow> 'j manager \<Rightarrow> bool \<times> 'j manager" where
  "mg_change_active cmd m = mg_lift (change_active cmd) m"

definition mg_rename_collection :: "string \<Rightarrow> string \<Rightarrow> 'j manager \<Rightarrow> bool \<times> 'j manager" where
  "mg_rename_collection from_name to_name m = mg_lift (rename_store from_name to_name) m"

definition mg_merge_collection :: "string \<Rightarrow> string \<Rightarrow> 'j manager \<Rightarrow> bool \<times> 'j manager" where
  "mg_merge_collection c1 c2 m = mg_lift (merge_cache c1 c2) m"

definition mg_remove_collection :: "string \<Rightarrow> 'j manager \<Rightarrow> bool \<times> 'j manager" where
  "mg_remove_collection c m = mg_lift (lib_remove c) m"

definition mg_remove_wallpaper ::
    "string \<Rightarrow> string \<Rightarrow> 'j manager \<Rightarrow> (bool \<times> 'j manager) result" where
  "mg_remove_wallpaper c w m =
     rbind (remove_cache_item c w (mg_cache m)) (\<lambda>(r, l). Inr (succeeded r, m\<lparr>mg_cache := l\<rparr>))"

definition mg_move_wallpaper ::
    "string \<Rightarrow> string \<Rightarrow> string \<Rightarrow> 'j manager \<Rightarrow> (bool \<times> 'j manager) result" where
  "mg_move_wallpaper origin dest w m =
     rbind (move_cache_item origin dest w (mg_cache m)) (\<lambda>(r, l). Inr (succeeded r, m\<lparr>mg_cache := l\<rparr>))"

text \<open>The lambda \<^verbatim>\<open>inserter\<close> of \<^verbatim>\<open>create_collection\<close>.\<close>

definition inserter :: "u32 \<Rightarrow> path \<times> bool \<Rightarrow> string cache \<Rightarrow> string cache" where
  "inserter crc_loc entry c =
     (if \<not> snd entry then cache_insert (path_filename (fst entry)) crc_loc c else c)"

definition mg_create_collection ::
    "fs_calls \<Rightarrow> string \<Rightarrow> path \<Rightarrow> bool \<Rightarrow> 'j manager \<Rightarrow> (bool \<times> 'j manager) result" where
  "mg_create_collection env name p recursive m = noexcept_call (
     rbind (if p \<noteq> [] then fs_exists env p else Inr False) (\<lambda>there.
     rbind (if there
            then rbind (fs_entries env recursive p) (\<lambda>entries.
                 Inr (fold (inserter (path_hash p)) entries empty_cache, pt_insert p (mg_path_buf m)))
            else Inr (empty_cache, mg_path_buf m)) (\<lambda>(c, t).
     let (r, l) = lib_insert name c (mg_cache m)
     in Inr (succeeded r, m\<lparr>mg_cache := l, mg_path_buf := t\<rparr>))))"

definition mg_add_to_collection :: "string \<Rightarrow> path \<Rightarrow> 'j manager \<Rightarrow> (bool \<times> 'j manager) result" where
  "mg_add_to_collection name wall m = noexcept_call (
     let wall_path = path_parent wall; path_crc = path_hash wall_path
     in if lib_exists (mg_cache m) name
        then rbind (lib_index (mg_cache m) name) (\<lambda>i.
             let l = put_cache i (cache_insert (path_filename wall) path_crc (cache_of (mg_cache m) i)) (mg_cache m)
             in Inr (True, m\<lparr>mg_cache := l, mg_path_buf := pt_insert wall_path (mg_path_buf m)\<rparr>))
        else Inr (False, m))"

definition mg_list_collection :: "'j manager \<Rightarrow> string list" where
  "mg_list_collection m = cache_list (mg_cache m)"

definition mg_get_cache :: "string \<Rightarrow> 'j manager \<Rightarrow> string cache_item list" where
  "mg_get_cache name m =
     (case get_cache_const name (mg_cache m) of Inr sl \<Rightarrow> slice_items (mg_cache m) sl | Inl _ \<Rightarrow> [])"

text \<open>
  The loop of \<^verbatim>\<open>validate_collection\<close> collects the paths that do not exist; the report is what
  is printed: the name, the number of entries, of valid and of invalid ones, and the latter.
\<close>

primrec invalid_paths ::
    "fs_calls \<Rightarrow> path_table \<Rightarrow> string cache_item list \<Rightarrow> string list result" where
  "invalid_paths env t [] = Inr []"
| "invalid_paths env t (x # xs) =
     rbind (case pt_get t (loc x) of Some p \<Rightarrow> Inr p | None \<Rightarrow> Inl (Throws Bad_optional_access)) (\<lambda>d.
     let test_loc = path_append d (cache_value x)
     in rbind (fs_exists env test_loc) (\<lambda>there.
        rbind (invalid_paths env t xs) (\<lambda>rest. Inr (if there then rest else test_loc # rest))))"

type_synonym report = "string \<times> nat \<times> nat \<times> nat \<times> string list"

definition mg_validate_collection ::
    "fs_calls \<Rightarrow> string \<Rightarrow> 'j manager \<Rightarrow> (bool \<times> report option \<times> 'j manager) result" where
  "mg_validate_collection env name m = noexcept_call (
     if lib_exists (mg_cache m) name
     then case get_cache name (mg_cache m) of
         (Inl _, l) \<Rightarrow> Inl Undefined
       | (Inr sl, l) \<Rightarrow>
           rbind (invalid_paths env (mg_path_buf m) (slice_items l sl)) (\<lambda>invalid.
             Inr (True, Some (name, snd sl, snd sl - length invalid, length invalid, invalid),
                  m\<lparr>mg_cache := l\<rparr>))
     else Inr (False, None, m))"

section \<open>The wallpapers a manager can resolve\<close>

text \<open>
  Every item refers by checksum to a directory of the path table; the code relies on it
  whenever it reads the optional that the table returns.
\<close>

definition lib_locs :: "cache_lib \<Rightarrow> u32 set" where
  "lib_locs l = (\<Union>s \<in> set (m_cache_vec l). loc ` set (m_list (snd s)))"

definition located :: "'j manager \<Rightarrow> bool" where
  "located m \<longleftrightarrow> (\<forall>h \<in> lib_locs (mg_cache m). pt_get (mg_path_buf m) h \<noteq> None)"

definition manager_ok :: "'j manager \<Rightarrow> bool" where
  "manager_ok m \<longleftrightarrow> wf_lib (mg_cache m) \<and> wf_table (mg_path_buf m) \<and> located m"

lemma lib_locs_cache_of:
  "i < length (m_cache_vec l) \<Longrightarrow> x \<in> set (m_list (cache_of l i)) \<Longrightarrow> loc x \<in> lib_locs l"
  unfolding lib_locs_def cache_of_def by (meson UN_I imageI nth_mem)

lemma lib_locs_map:
  "lib_map l n = Some c \<Longrightarrow> x \<in> set (m_list c) \<Longrightarrow> loc x \<in> lib_locs l"
  unfolding lib_locs_def lib_map_def by (force dest!: map_of_SomeD)

lemma loc_set_erase: "loc ` set (erase_at i xs) \<subseteq> loc ` set xs"
  using set_erase_at_subset [of i xs] by (rule image_mono)

lemma lib_locs_mono:
  assumes "set (m_cache_vec l') \<subseteq> insert (k, c) (set (m_cache_vec l))"
  shows "lib_locs l' \<subseteq> lib_locs l \<union> loc ` set (m_list c)"
proof
  fix h assume "h \<in> lib_locs l'"
  then obtain s where s: "s \<in> set (m_cache_vec l')" and h: "h \<in> loc ` set (m_list (snd s))"
    unfolding lib_locs_def by (rule UN_E)
  from s assms have "s = (k, c) \<or> s \<in> set (m_cache_vec l)" by blast
  then show "h \<in> lib_locs l \<union> loc ` set (m_list c)"
  proof
    assume "s = (k, c)"
    with h show ?thesis by simp
  next
    assume "s \<in> set (m_cache_vec l)"
    with h have "h \<in> lib_locs l" unfolding lib_locs_def by (rule UN_I [rotated])
    then show ?thesis by simp
  qed
qed

lemma lib_locs_put: "lib_locs (put_cache i c l) \<subseteq> lib_locs l \<union> loc ` set (m_list c)"
proof (rule lib_locs_mono)
  show "set (m_cache_vec (put_cache i c l)) \<subseteq> insert (fst (m_cache_vec l ! i), c) (set (m_cache_vec l))"
    by (simp add: put_cache_def set_update_subset_insert)
qed

lemma lib_locs_put_keep:
  assumes "i < length (m_cache_vec l)" and "loc ` set (m_list c) \<subseteq> loc ` set (m_list (cache_of l i))"
  shows "lib_locs (put_cache i c l) \<subseteq> lib_locs l"
proof -
  have "loc ` set (m_list (cache_of l i)) \<subseteq> lib_locs l"
    by (rule image_subsetI) (rule lib_locs_cache_of [OF assms(1)])
  with assms(2) have "lib_locs l \<union> loc ` set (m_list c) \<subseteq> lib_locs l" by (simp add: subset_trans)
  with lib_locs_put show ?thesis by (rule subset_trans)
qed

lemma lib_locs_insert: "lib_locs (snd (lib_insert n c l)) \<subseteq> lib_locs l \<union> loc ` set (m_list c)"
  by (auto simp: lib_insert_cases lib_locs_def)

lemma lib_locs_remove: "lib_locs (snd (lib_remove n l)) \<subseteq> lib_locs l"
proof (cases "n \<in> set (cache_list l)")
  case True
  then show ?thesis
    using set_erase_at_subset [of "store_pos l n" "m_cache_vec l"]
    by (auto simp: lib_remove_vec lib_locs_def)
qed (simp add: lib_remove_absent)

lemma lib_locs_change_active: "lib_locs (snd (change_active n l)) \<subseteq> lib_locs l"
  by (simp add: change_active_def Let_def lib_locs_def)

lemma lib_locs_rename: "lib_locs (snd (rename_store m n l)) \<subseteq> lib_locs l"
proof (cases "m \<in> set (cache_list l) \<and> n \<notin> set (cache_list l)")
  case True
  then have less: "store_pos l m < length (m_cache_vec l)" by (simp add: store_pos_less)
  have "set (m_cache_vec (snd (rename_store m n l))) \<subseteq>
      insert (n, cache_of l (store_pos l m)) (set (m_cache_vec l))"
    using True by (auto simp: rename_store_cases dest: subsetD [OF set_update_subset_insert])
  then have "lib_locs (snd (rename_store m n l)) \<subseteq>
      lib_locs l \<union> loc ` set (m_list (cache_of l (store_pos l m)))"
    by (rule lib_locs_mono)
  moreover have "loc ` set (m_list (cache_of l (store_pos l m))) \<subseteq> lib_locs l"
    by (rule image_subsetI) (rule lib_locs_cache_of [OF less])
  ultimately show ?thesis by (simp only: Un_absorb2)
next
  case False
  then have "snd (rename_store m n l) = l" by (auto simp: rename_store_cases)
  then show ?thesis by simp
qed

lemma lib_locs_merge: "lib_locs (snd (merge_cache m n l)) \<subseteq> lib_locs l"
proof (cases "m \<noteq> n \<and> m \<in> set (cache_list l) \<and> n \<in> set (cache_list l)")
  case True
  let ?i = "store_pos l m" and ?j = "store_pos l n"
  let ?l1 = "put_cache ?j ((cache_of l ?j)\<lparr>m_modified := True\<rparr>) (put_cache ?i ((cache_of l ?i)\<lparr>m_modified := True\<rparr>) l)"
  let ?l3 = "snd (lib_remove n (snd (lib_remove m ?l1)))"
  have i: "?i < length (m_cache_vec l)" and j: "?j < length (m_cache_vec l)"
    using True by (simp_all add: store_pos_less)
  have "lib_locs ?l3 \<subseteq> lib_locs ?l1"
    using lib_locs_remove [of n "snd (lib_remove m ?l1)"] lib_locs_remove [of m ?l1] by blast
  also have "\<dots> \<subseteq> lib_locs (put_cache ?i ((cache_of l ?i)\<lparr>m_modified := True\<rparr>) l)"
    using i j by (intro lib_locs_put_keep) (auto simp: cache_of_put)
  also have "\<dots> \<subseteq> lib_locs l"
    using i by (intro lib_locs_put_keep) auto
  finally have old: "lib_locs ?l3 \<subseteq> lib_locs l" .
  have "loc ` set (merge_ranges (m_list (cache_of l ?i)) (m_list (cache_of l ?j))) \<subseteq> lib_locs l"
    using lib_locs_cache_of [OF i] lib_locs_cache_of [OF j] by (auto simp: set_merge_ranges)
  with old show ?thesis
    using True by (auto simp: merge_cache_cases Let_def lib_locs_def)
next
  case False
  then have "snd (merge_cache m n l) = l" by (auto simp: merge_cache_cases)
  then show ?thesis by simp
qed

lemma lib_locs_remove_item:
  assumes "remove_cache_item n v l = Inr (r, l')"
  shows "lib_locs l' \<subseteq> lib_locs l"
proof (cases "n \<noteq> v \<and> n \<in> set (cache_list l)")
  case True
  then have less: "store_pos l n < length (m_cache_vec l)" by (simp add: store_pos_less)
  let ?c = "cache_of l (store_pos l n)"
  from assms True obtain c' where "l' = put_cache (store_pos l n) c' l"
    and "loc ` set (m_list c') \<subseteq> loc ` set (m_list ?c)"
    using loc_set_erase [of _ "m_list ?c"]
    by (cases "v \<in> set (cache_values ?c)") (fastforce simp: remove_cache_item_cases Let_def)+
  with lib_locs_put_keep [OF less] show ?thesis by simp
next
  case False
  with assms show ?thesis by (cases "n = v") (simp_all add: remove_cache_item_cases)
qed

lemma lib_locs_move:
  assumes "CHR 0x00 \<notin> set v" and "move_cache_item s d v l = Inr (r, l')"
  shows "lib_locs l' \<subseteq> lib_locs l"
proof (cases "s \<noteq> d \<and> d \<noteq> v \<and> s \<in> set (cache_list l) \<and> d \<in> set (cache_list l) \<and>
    v \<in> set (cache_values (cache_of l (store_pos l s)))")
  case True
  let ?c = "cache_of l (store_pos l s)" and ?e = "cache_of l (store_pos l d)"
  let ?pos = "find_pos (\<lambda>x. cache_value x = v) (m_list ?c)"
  let ?l1 = "put_cache (store_pos l d) (cache_insert_elem (m_list ?c ! ?pos) ?e) l"
  let ?c' = "?c\<lparr>m_modified := True, m_list := erase_at ?pos (m_list ?c)\<rparr>"
  have less: "store_pos l s < length (m_cache_vec l)" "store_pos l d < length (m_cache_vec l)"
    and neq: "store_pos l s \<noteq> store_pos l d"
    using True by (simp_all add: store_pos_less store_pos_inject)
  have "?pos < length (m_list ?c)" using True by (auto simp: find_pos_less_iff set_cache_values)
  then have "loc ` set (m_list (cache_insert_elem (m_list ?c ! ?pos) ?e)) \<subseteq> lib_locs l"
    using lib_locs_cache_of [OF less(1)] lib_locs_cache_of [OF less(2)]
    by (auto simp: cache_insert_elem_iff)
  then have l1: "lib_locs ?l1 \<subseteq> lib_locs l" using lib_locs_put by blast
  have "lib_locs (put_cache (store_pos l s) ?c' ?l1) \<subseteq> lib_locs ?l1"
    using less neq
    by (intro lib_locs_put_keep) (simp_all add: cache_of_put loc_set_erase)
  with l1 have "lib_locs (put_cache (store_pos l s) ?c' ?l1) \<subseteq> lib_locs l" by blast
  with assms True show ?thesis by (auto simp: move_cache_item_cases Let_def)
next
  case False
  with assms show ?thesis by (auto simp: move_cache_item_cases Let_def split: if_splits)
qed

lemma located_mono:
  assumes "located m" and "lib_locs l' \<subseteq> lib_locs (mg_cache m)"
  shows "located (m\<lparr>mg_cache := l'\<rparr>)"
  using assms by (auto simp: located_def)

lemma manager_ok_lib:
  "manager_ok m \<Longrightarrow> wf_lib l' \<Longrightarrow> lib_locs l' \<subseteq> lib_locs (mg_cache m) \<Longrightarrow> manager_ok (m\<lparr>mg_cache := l'\<rparr>)"
  by (simp add: manager_ok_def located_mono)

lemma manager_ok_item:
  assumes "manager_ok m" and "lib_map (mg_cache m) n = Some c" and "x \<in> set (m_list c)"
  obtains p where "pt_get (mg_path_buf m) (loc x) = Some p" and "path_hash p = loc x"
proof -
  have "loc x \<in> lib_locs (mg_cache m)" using assms(2,3) by (rule lib_locs_map)
  with assms(1) obtain p where "pt_get (mg_path_buf m) (loc x) = Some p"
    by (auto simp: manager_ok_def located_def)
  moreover from this assms(1) have "path_hash p = loc x"
    by (auto simp: manager_ok_def dest: pt_get_hash)
  ultimately show ?thesis using that by blast
qed

section \<open>The loop of \<^verbatim>\<open>next_wall\<close>\<close>

lemma pick_loop_unfold:
  "pick_loop draws k items =
     (if draws k < length items
      then if cache_state (items ! draws k) = Unused then Some (Inr (draws k))
           else pick_loop draws (Suc k) items
      else Some (Inl Undefined))"
  by (subst pick_loop.simps) (simp add: Let_def)

text \<open>A draw that does not end the loop: a valid index of an item that is not unused.\<close>

definition passed_over :: "string cache_item list \<Rightarrow> nat \<Rightarrow> bool" where
  "passed_over items i \<longleftrightarrow> i < length items \<and> cache_state (items ! i) \<noteq> Unused"

lemma pick_loop_skip:
  "(\<And>i. i < j \<Longrightarrow> passed_over items (draws (k + i))) \<Longrightarrow> pick_loop draws k items = pick_loop draws (k + j) items"
proof (induction j)
  case 0
  then show ?case by simp
next
  case (Suc j)
  then have "pick_loop draws k items = pick_loop draws (k + j) items" by simp
  also have "\<dots> = pick_loop draws (Suc (k + j)) items"
    using Suc.prems [of j] by (subst pick_loop_unfold) (simp add: passed_over_def)
  finally show ?case by simp
qed

lemma pick_loop_first:
  assumes "\<And>i. i < j \<Longrightarrow> passed_over items (draws i)" and "\<not> passed_over items (draws j)"
  shows "pick_loop draws 0 items =
    Some (if draws j < length items then Inr (draws j) else Inl Undefined)"
proof -
  have "pick_loop draws 0 items = pick_loop draws j items"
    using pick_loop_skip [of j items draws 0] assms(1) by simp
  with assms(2) show ?thesis
    by (subst (asm) (2) pick_loop_unfold) (auto simp: passed_over_def)
qed

lemma pick_loop_result:
  assumes "pick_loop draws k items = Some r"
  shows "\<exists>j. \<not> passed_over items (draws (k + j)) \<and> (\<forall>i < j. passed_over items (draws (k + i)))"
proof (rule pick_loop.raw_induct [where P = "\<lambda>draws k items r. \<exists>j. \<not> passed_over items (draws (k + j)) \<and>
      (\<forall>i < j. passed_over items (draws (k + i)))", OF _ assms])
  fix rec draws k items r
  assume IH: "\<And>draws k items r. rec draws k items = Some r \<Longrightarrow>
      \<exists>j. \<not> passed_over items (draws (k + j)) \<and> (\<forall>i < j. passed_over items (draws (k + i)))"
    and ret: "(let idx = draws k in
      if idx < length items
      then if cache_state (items ! idx) = Unused then Some (Inr idx) else rec draws (Suc k) items
      else Some (Inl Undefined)) = Some r"
  show "\<exists>j. \<not> passed_over items (draws (k + j)) \<and> (\<forall>i < j. passed_over items (draws (k + i)))"
  proof (cases "passed_over items (draws k)")
    case True
    with ret have "rec draws (Suc k) items = Some r" by (simp add: passed_over_def)
    from IH [OF this] obtain j where j: "\<not> passed_over items (draws (Suc k + j))"
      "\<forall>i < j. passed_over items (draws (Suc k + i))" by blast
    have "passed_over items (draws (k + i))" if "i < Suc j" for i
      using True that j(2) by (cases i) simp_all
    with j(1) show ?thesis by (intro exI [of _ "Suc j"]) simp
  next
    case False
    then show ?thesis by (intro exI [of _ 0]) simp
  qed
qed

lemma pick_loop_diverges:
  "pick_loop draws 0 items = None \<longleftrightarrow> (\<forall>k. passed_over items (draws k))"
proof (cases "\<forall>k. passed_over items (draws k)")
  case True
  then show ?thesis using pick_loop_result [of draws 0 items] by (cases "pick_loop draws 0 items") auto
next
  case False
  then have "\<exists>j. \<not> passed_over items (draws j) \<and> (\<forall>i < j. \<not> \<not> passed_over items (draws i))"
    by (intro exists_least_iff [THEN iffD1]) simp
  then obtain j where j: "\<not> passed_over items (draws j)" "\<forall>i < j. passed_over items (draws i)"
    by blast
  have "pick_loop draws 0 items \<noteq> None"
    by (subst pick_loop_first [where j = j and draws = draws and items = items]) (simp_all add: j)
  then show ?thesis using False by blast
qed

lemma pick_loop_index:
  assumes "pick_loop draws 0 items = Some (Inr idx)"
  obtains j where "idx = draws j" and "idx < length items" and "cache_state (items ! idx) = Unused"
    and "\<forall>i < j. passed_over items (draws i)"
proof -
  from pick_loop_result [OF assms] obtain j
    where j: "\<not> passed_over items (draws j)" "\<forall>i < j. passed_over items (draws i)" by auto
  have "draws j < length items \<and> idx = draws j"
    using pick_loop_first [where j = j and draws = draws and items = items] assms j
    by (simp split: if_splits)
  then show ?thesis using that [of j] j by (auto simp: passed_over_def)
qed

lemma draw_bound_small: "length items < 2 ^ 31 \<Longrightarrow> draw_bound items = int (length items)"
  by (simp add: draw_bound_def signed_of_nat signed_take_bit_int_eq_self)

section \<open>What \<^verbatim>\<open>next_wall\<close> does to the active collection\<close>

definition wall_document ::
    "('j, 't) json_ops \<Rightarrow> string \<Rightarrow> path \<Rightarrow> nat \<Rightarrow> string \<Rightarrow> 'j" where
  "wall_document J name p idx active = j_object J
     [(''wallpaper'', j_string J name), (''path'', j_string J p),
      (''index'', j_unsigned J (of_nat idx)), (''collection'', j_string J active)]"

lemma put_cache_put [simp]: "put_cache i c (put_cache i c' l) = put_cache i c l"
  by (cases "i < length (m_cache_vec l)") (simp_all add: put_cache_def list_update_beyond)

lemma get_cache_found:
  assumes "lib_map l n = Some c"
  shows "get_cache n l =
    (Inr (store_pos l n, length (m_list c)), put_cache (store_pos l n) (c\<lparr>m_modified := True\<rparr>) l)"
    and "store_pos l n < length (m_cache_vec l)" and "n \<in> set (cache_list l)"
    and "cache_of l (store_pos l n) = c"
proof -
  show names: "n \<in> set (cache_list l)" using assms lib_map_absent by fastforce
  then show "store_pos l n < length (m_cache_vec l)" by (simp add: store_pos_less)
  show "cache_of l (store_pos l n) = c" using assms lib_map_pos [OF names] by simp
  then show "get_cache n l =
    (Inr (store_pos l n, length (m_list c)), put_cache (store_pos l n) (c\<lparr>m_modified := True\<rparr>) l)"
    using names by (simp add: get_cache_def lib_exists_iff Let_def cache_data_def cache_size_def)
qed

lemma slice_put:
  assumes "i < length (m_cache_vec l)"
  shows "slice_items (put_cache i c l) (i, k) = take k (m_list c)"
    and "slice_write (put_cache i c l) (i, k) j x =
      (if j < k then Inr (put_cache i (c\<lparr>m_list := (m_list c)[j := x]\<rparr>) l) else Inl Undefined)"
    and "slice_read (put_cache i c l) (i, k) j = (if j < k then Inr (m_list c ! j) else Inl Undefined)"
  using assms by (simp_all add: slice_items_def slice_write_def slice_read_def cache_of_put Let_def)

text \<open>The state after item \<open>idx\<close> of the active collection \<open>c\<close> was shown.\<close>

definition shown_lib :: "nat \<Rightarrow> string cache \<Rightarrow> cache_lib \<Rightarrow> cache_lib" where
  "shown_lib idx c l = put_cache (store_pos l (m_active_name l))
     (c\<lparr>m_modified := True, m_list := (m_list c)[idx := (m_list c ! idx)\<lparr>cache_state := Used\<rparr>]\<rparr>) l"

lemma lib_map_shown:
  assumes "lib_map l (m_active_name l) = Some c"
  shows "lib_map (shown_lib idx c l) = (lib_map l)(m_active_name l \<mapsto>
    (c\<lparr>m_modified := True, m_list := (m_list c)[idx := (m_list c ! idx)\<lparr>cache_state := Used\<rparr>]\<rparr>))"
  using get_cache_found(3) [OF assms] by (simp add: shown_lib_def lib_map_put)

lemma shown_lib_fields [simp]:
  "cache_list (shown_lib idx c l) = cache_list l" "m_current (shown_lib idx c l) = m_current l"
  "m_active_name (shown_lib idx c l) = m_active_name l"
  "length (m_cache_vec (shown_lib idx c l)) = length (m_cache_vec l)"
  "active_coherent (shown_lib idx c l) = active_coherent l"
  by (simp_all add: shown_lib_def)

context json_library begin

lemma shown_document_eval:
  "shown_document J x p idx active = Inr (wall_document J (cache_value x) p idx active)"
  by (simp add: shown_document_def wall_document_def json_simps)

lemma next_wall_active:
  assumes "lib_map (mg_cache m) (m_active_name (mg_cache m)) = Some c"
    and "0 < cache_size c" and "cache_size c < 2 ^ 31" and "located m"
  shows "next_wall J draws m =
    (case pick_loop draws 0 (m_list c) of
       None \<Rightarrow> None
     | Some (Inl e) \<Rightarrow> Some (Inl e)
     | Some (Inr idx) \<Rightarrow>
         let doc = wall_document J (cache_value (m_list c ! idx))
           (the (pt_get (mg_path_buf m) (loc (m_list c ! idx)))) idx (m_active_name (mg_cache m))
         in Some (Inr (doc, m\<lparr>mg_cache := shown_lib idx c (mg_cache m),
                             mg_previous := mg_previous m @ [doc]\<rparr>)))"
proof -
  let ?l = "mg_cache m"
  note found = get_cache_found [OF assms(1)]
  have loaded: "next_wall J draws m = (case pick_loop draws 0 (m_list c) of
        None \<Rightarrow> None | Some (Inl e) \<Rightarrow> Some (Inl e) | Some (Inr idx) \<Rightarrow> Some (
          rbind (if idx < length (m_list c) then Inr (shown_lib idx c ?l) else Inl Undefined) (\<lambda>l'.
          rbind (slice_read l' (store_pos ?l (m_active_name ?l), length (m_list c)) idx) (\<lambda>chosen.
          rbind (case pt_get (mg_path_buf m) (loc chosen) of
                   Some p \<Rightarrow> Inr p | None \<Rightarrow> Inl (Throws Bad_optional_access)) (\<lambda>p.
          rbind (shown_document J (m_list c ! idx) p idx (m_active_name l')) (\<lambda>send.
            Inr (send, m\<lparr>mg_cache := l', mg_previous := mg_previous m @ [send]\<rparr>)))))))"
    using assms(2,3) found(1,2)
    by (simp add: next_wall_def active_cache_name_def slice_put draw_bound_small Let_def cache_size_def
        shown_lib_def cong: option.case_cong sum.case_cong if_cong)
  show ?thesis
  proof (cases "pick_loop draws 0 (m_list c)")
    case (Some r)
    show ?thesis
    proof (cases r)
      case (Inr idx)
      with Some have idx: "idx < length (m_list c)" by (auto elim: pick_loop_index)
      then have "loc (m_list c ! idx) \<in> lib_locs ?l" using lib_locs_map [OF assms(1)] by simp
      then obtain p where p: "pt_get (mg_path_buf m) (loc (m_list c ! idx)) = Some p"
        using assms(4) by (auto simp: located_def)
      have "slice_read (shown_lib idx c ?l) (store_pos ?l (m_active_name ?l), length (m_list c)) idx
          = Inr ((m_list c ! idx)\<lparr>cache_state := Used\<rparr>)"
        using idx found(2) by (simp add: shown_lib_def slice_put)
      with idx p show ?thesis
        by (simp add: loaded Some Inr shown_document_eval Let_def)
    qed (simp add: loaded Some)
  qed (simp add: loaded)
qed

end

section \<open>Every command keeps the invariant\<close>

lemma cache_list_shown_wf [simp]: "wf_lib (shown_lib idx c l) = wf_lib l"
  by (simp add: wf_lib_def)

lemma loc_set_update:
  "i < length xs \<Longrightarrow> loc y = loc (xs ! i) \<Longrightarrow> loc ` set (xs[i := y]) \<subseteq> loc ` set xs"
  by (auto dest!: subsetD [OF set_update_subset_insert])

lemma lib_locs_shown:
  assumes "lib_map l (m_active_name l) = Some c" and "idx < length (m_list c)"
  shows "lib_locs (shown_lib idx c l) \<subseteq> lib_locs l"
  unfolding shown_lib_def using assms(2) get_cache_found [OF assms(1)]
  by (intro lib_locs_put_keep) (simp_all add: loc_set_update)

lemma next_wall_state:
  assumes "next_wall J draws m = Some (Inr (doc, m'))"
  obtains "m' = m" and "doc = j_null J" and "lib_map (mg_cache m) (m_active_name (mg_cache m)) = None"
  | c idx where "lib_map (mg_cache m) (m_active_name (mg_cache m)) = Some c"
      and "pick_loop draws 0 (m_list c) = Some (Inr idx)" and "idx < length (m_list c)"
      and "cache_state (m_list c ! idx) = Unused"
      and "m' = m\<lparr>mg_cache := shown_lib idx c (mg_cache m), mg_previous := mg_previous m @ [doc]\<rparr>"
proof (cases "lib_map (mg_cache m) (m_active_name (mg_cache m))")
  case None
  then have "m_active_name (mg_cache m) \<notin> set (cache_list (mg_cache m))" by (simp add: lib_map_None_iff)
  then have "m' = m \<and> doc = j_null J"
    using assms by (simp add: next_wall_def active_cache_name_def get_cache_def lib_exists_iff)
  with None that(1) show ?thesis by simp
next
  case (Some c)
  note found = get_cache_found [OF Some]
  from assms have "\<not> draw_bound (m_list c) < 1"
    using found(1,2) by (simp add: next_wall_def active_cache_name_def slice_put Let_def split: if_splits)
  with assms obtain idx where pick: "pick_loop draws 0 (m_list c) = Some (Inr idx)"
    using found(1,2)
    by (auto simp: next_wall_def active_cache_name_def slice_put Let_def split: option.splits sum.splits)
  then have idx: "idx < length (m_list c)" "cache_state (m_list c ! idx) = Unused"
    by (auto elim: pick_loop_index)
  have "m' = m\<lparr>mg_cache := shown_lib idx c (mg_cache m), mg_previous := mg_previous m @ [doc]\<rparr>"
    using assms found(1,2) pick idx \<open>\<not> draw_bound (m_list c) < 1\<close>
    by (auto simp: next_wall_def active_cache_name_def slice_put Let_def rbind_eq_Inr_iff shown_lib_def)
  with Some pick idx that(2) show ?thesis by blast
qed

lemma mark_favorate_state:
  assumes "mark_favorate J m = Inr m'"
  obtains "m' = m"
  | i c pos where "i < length (m_cache_vec (mg_cache m))" and "c = cache_of (mg_cache m) i"
      and "pos < length (m_list c)"
      and "m' = m\<lparr>mg_cache := put_cache i (c\<lparr>m_modified := True,
        m_list := (m_list c)[pos := (m_list c ! pos)\<lparr>cache_state := Favorate\<rparr>]\<rparr>) (mg_cache m)\<rparr>"
proof (cases "mg_previous m = [] \<or> \<not> unat (m_current (mg_cache m)) < length (m_cache_vec (mg_cache m))")
  case True
  with assms have "m' = m" by (auto simp: mark_favorate_def get_current_def Let_def split: if_splits)
  with that(1) show ?thesis by simp
next
  case False
  let ?i = "unat (m_current (mg_cache m))"
  let ?c = "cache_of (mg_cache m) ?i"
  from False assms obtain pos where "pos < length (m_list ?c)"
    and "m' = m\<lparr>mg_cache := put_cache ?i (?c\<lparr>m_modified := True,
        m_list := (m_list ?c)[pos := (m_list ?c ! pos)\<lparr>cache_state := Favorate\<rparr>]\<rparr>) (mg_cache m)\<rparr>"
    by (auto simp: mark_favorate_def get_current_def cache_begin_def cache_size_def Let_def
        rbind_eq_Inr_iff slice_put split: if_splits)
  with False that(2) [of ?i ?c pos] show ?thesis by simp
qed

text \<open>What \<^verbatim>\<open>create_collection\<close> reads from a directory is a list of values to load.\<close>

definition file_names :: "(path \<times> bool) list \<Rightarrow> string list" where
  "file_names entries = map (\<lambda>e. path_filename (fst e)) (filter (\<lambda>e. \<not> snd e) entries)"

lemma fold_inserter:
  "fold (inserter h) entries c = fold (\<lambda>v. cache_insert v h) (file_names entries) c"
  by (induction entries arbitrary: c) (simp_all add: inserter_def file_names_def)

lemma m_list_created:
  "m_list (fold (inserter h) entries empty_cache) =
    map (\<lambda>v. make_item v Unused h) (first_occurrences (file_names entries))"
  by (simp add: fold_inserter m_list_load)

lemma pt_get_insert_keep: "pt_get t h \<noteq> None \<Longrightarrow> pt_get (pt_insert p t) h = pt_get t h"
  by (auto simp: pt_get_insert)

lemma pt_get_insert_there: "pt_get (pt_insert p t) (path_hash p) \<noteq> None"
  by (simp add: pt_get_insert)

lemma manager_ok_insert:
  assumes "manager_ok m" and "wf_lib l'" and "lib_locs l' \<subseteq> insert (path_hash p) (lib_locs (mg_cache m))"
  shows "manager_ok (m\<lparr>mg_cache := l', mg_path_buf := pt_insert p (mg_path_buf m)\<rparr>)"
proof -
  have "pt_get (pt_insert p (mg_path_buf m)) h \<noteq> None" if "h \<in> lib_locs l'" for h
  proof (cases "h = path_hash p")
    case True
    show ?thesis unfolding True by (rule pt_get_insert_there)
  next
    case False
    with that assms have "pt_get (mg_path_buf m) h \<noteq> None" by (auto simp: manager_ok_def located_def)
    then show ?thesis by (simp add: pt_get_insert_keep)
  qed
  with assms show ?thesis by (auto simp: manager_ok_def located_def wf_pt_insert)
qed

text \<open>How the two commands that read the file system come to their result.\<close>

lemma create_collection_cases:
  "mg_create_collection env name p recursive m = Inr (b, m') \<Longrightarrow>
    (b, m') = (succeeded (fst (lib_insert name empty_cache (mg_cache m))),
       m\<lparr>mg_cache := snd (lib_insert name empty_cache (mg_cache m))\<rparr>) \<or>
    (\<exists>entries. fs_entries env recursive p = Inr entries \<and>
      (let r = lib_insert name (fold (inserter (path_hash p)) entries empty_cache) (mg_cache m)
       in (b, m') = (succeeded (fst r),
         m\<lparr>mg_cache := snd r, mg_path_buf := pt_insert p (mg_path_buf m)\<rparr>)))"
proof -
  assume ret: "mg_create_collection env name p recursive m = Inr (b, m')"
  then obtain there where there: "(if p \<noteq> [] then fs_exists env p else Inr False) = Inr there"
    unfolding mg_create_collection_def noexcept_call_eq_Inr_iff rbind_eq_Inr_iff by blast
  show ?thesis
  proof (cases there)
    case False
    with ret there show ?thesis by (simp add: mg_create_collection_def case_prod_unfold Let_def)
  next
    case True
    with ret there show ?thesis
      by (intro disjI2) (auto simp: mg_create_collection_def rbind_eq_Inr_iff case_prod_unfold Let_def)
  qed
qed

lemma add_to_collection_cases:
  "mg_add_to_collection name wall m = Inr (
    case lib_map (mg_cache m) name of
      None \<Rightarrow> (False, m)
    | Some c \<Rightarrow> (True, m\<lparr>mg_cache := put_cache (store_pos (mg_cache m) name)
          (cache_insert (path_filename wall) (path_hash (path_parent wall)) c) (mg_cache m),
        mg_path_buf := pt_insert (path_parent wall) (mg_path_buf m)\<rparr>))"
proof (cases "name \<in> set (cache_list (mg_cache m))")
  case True
  then show ?thesis
    by (simp add: mg_add_to_collection_def lib_exists_iff lib_index_def store_pos_less lib_map_pos Let_def)
next
  case False
  then show ?thesis by (simp add: mg_add_to_collection_def lib_exists_iff lib_map_absent)
qed

lemma manager_ok_created:
  "manager_ok m \<Longrightarrow> manager_ok (m\<lparr>mg_cache := snd (lib_insert name (fold (inserter (path_hash p)) entries empty_cache) (mg_cache m)),
    mg_path_buf := pt_insert p (mg_path_buf m)\<rparr>)"
  by (intro manager_ok_insert subset_trans [OF lib_locs_insert])
    (auto simp: manager_ok_def m_list_created wf_lib_insert)

lemma manager_ok_create:
  assumes "manager_ok m" and "mg_create_collection env name p recursive m = Inr (b, m')"
  shows "manager_ok m'"
  using create_collection_cases [OF assms(2)]
proof
  let ?l = "snd (lib_insert name empty_cache (mg_cache m))"
  assume "(b, m') = (succeeded (fst (lib_insert name empty_cache (mg_cache m))), m\<lparr>mg_cache := ?l\<rparr>)"
  then show ?thesis
    using assms(1) lib_locs_insert [of name empty_cache "mg_cache m"]
    by (simp add: manager_ok_lib wf_lib_insert manager_ok_def [of m])
next
  assume "\<exists>entries. fs_entries env recursive p = Inr entries \<and>
      (let r = lib_insert name (fold (inserter (path_hash p)) entries empty_cache) (mg_cache m)
       in (b, m') = (succeeded (fst r),
         m\<lparr>mg_cache := snd r, mg_path_buf := pt_insert p (mg_path_buf m)\<rparr>))"
  then obtain entries where m': "m' = m\<lparr>mg_cache := snd (lib_insert name
      (fold (inserter (path_hash p)) entries empty_cache) (mg_cache m)), mg_path_buf := pt_insert p (mg_path_buf m)\<rparr>"
    by (auto simp: Let_def)
  show ?thesis unfolding m' using assms(1) by (rule manager_ok_created)
qed

lemma manager_ok_add:
  assumes "manager_ok m" and "mg_add_to_collection name wall m = Inr (b, m')"
  shows "manager_ok m'"
proof (cases "lib_map (mg_cache m) name")
  case None
  with assms show ?thesis by (simp add: add_to_collection_cases)
next
  case (Some c)
  let ?c' = "cache_insert (path_filename wall) (path_hash (path_parent wall)) c"
  have "loc ` set (m_list ?c') \<subseteq> insert (path_hash (path_parent wall)) (lib_locs (mg_cache m))"
    using lib_locs_map [OF Some] by (auto simp: m_list_insert)
  then have "lib_locs (put_cache (store_pos (mg_cache m) name) ?c' (mg_cache m)) \<subseteq>
      insert (path_hash (path_parent wall)) (lib_locs (mg_cache m))"
    by (intro subset_trans [OF lib_locs_put]) blast
  moreover have "wf_lib (mg_cache m)" using assms(1) by (simp add: manager_ok_def)
  ultimately show ?thesis
    using assms(2) Some manager_ok_insert [OF assms(1)] by (auto simp: add_to_collection_cases)
qed

lemma manager_ok_next:
  assumes "manager_ok m" and "next_wall J draws m = Some (Inr (doc, m'))"
  shows "manager_ok m'"
  using assms(2)
proof (cases rule: next_wall_state)
  case 1
  with assms(1) show ?thesis by simp
next
  case (2 c idx)
  with assms(1) lib_locs_shown [OF 2(1,3)] show ?thesis
    by (auto simp: manager_ok_def located_def)
qed

lemma manager_ok_favorate:
  assumes "manager_ok m" and "mark_favorate J m = Inr m'"
  shows "manager_ok m'"
  using assms(2)
proof (cases rule: mark_favorate_state)
  case 1
  with assms(1) show ?thesis by simp
next
  case (2 i c pos)
  let ?c' = "c\<lparr>m_modified := True, m_list := (m_list c)[pos := (m_list c ! pos)\<lparr>cache_state := Favorate\<rparr>]\<rparr>"
  have "lib_locs (put_cache i ?c' (mg_cache m)) \<subseteq> lib_locs (mg_cache m)"
    using 2(1-3) by (intro lib_locs_put_keep) (simp_all add: loc_set_update)
  with assms(1) 2(4) show ?thesis by (simp add: manager_ok_lib manager_ok_def [of m])
qed

lemma manager_ok_previous: "manager_ok m \<Longrightarrow> manager_ok (snd (previous_wall J m))"
  by (auto simp: previous_wall_def manager_ok_def located_def)

lemma mg_lift_state: "snd (mg_lift f m) = m\<lparr>mg_cache := snd (f (mg_cache m))\<rparr>"
  by (simp add: mg_lift_def case_prod_unfold Let_def)

lemma validate_state:
  assumes "mg_validate_collection env name m = Inr (b, r, m')"
  obtains "m' = m"
  | c where "lib_map (mg_cache m) name = Some c"
      and "m' = m\<lparr>mg_cache := put_cache (store_pos (mg_cache m) name) (c\<lparr>m_modified := True\<rparr>) (mg_cache m)\<rparr>"
proof (cases "lib_map (mg_cache m) name")
  case None
  with assms have "m' = m" by (simp add: mg_validate_collection_def lib_exists_iff lib_map_None_iff)
  with that(1) show ?thesis by simp
next
  case (Some c)
  with assms have "m' = m\<lparr>mg_cache := put_cache (store_pos (mg_cache m) name) (c\<lparr>m_modified := True\<rparr>) (mg_cache m)\<rparr>"
    using get_cache_found [OF Some]
    by (auto simp: mg_validate_collection_def lib_exists_iff rbind_eq_Inr_iff)
  with Some that(2) show ?thesis by blast
qed

lemma manager_ok_validate:
  assumes "manager_ok m" and "mg_validate_collection env name m = Inr (b, r, m')"
  shows "manager_ok m'"
  using assms(2)
proof (cases rule: validate_state)
  case 1
  with assms(1) show ?thesis by simp
next
  case (2 c)
  then have "lib_locs (put_cache (store_pos (mg_cache m) name) (c\<lparr>m_modified := True\<rparr>) (mg_cache m)) \<subseteq> lib_locs (mg_cache m)"
    using get_cache_found [OF 2(1)] by (intro lib_locs_put_keep) simp_all
  with assms(1) 2(2) show ?thesis by (simp add: manager_ok_lib manager_ok_def [of m])
qed

subsection \<open>Runs\<close>

text \<open>
  A step is one command that returns, with any draws, arguments and file system. Arguments
  come from the command line and hold no null character.
\<close>

inductive manager_step :: "('j, 't) json_ops \<Rightarrow> 'j manager \<Rightarrow> 'j manager \<Rightarrow> bool" for J where
  step_next: "next_wall J draws m = Some (Inr (doc, m')) \<Longrightarrow> manager_step J m m'"
| step_previous: "previous_wall J m = (doc, m') \<Longrightarrow> manager_step J m m'"
| step_favorate: "mark_favorate J m = Inr m' \<Longrightarrow> manager_step J m m'"
| step_change: "mg_change_active n m = (b, m') \<Longrightarrow> manager_step J m m'"
| step_rename: "mg_rename_collection k n m = (b, m') \<Longrightarrow> manager_step J m m'"
| step_merge: "mg_merge_collection k n m = (b, m') \<Longrightarrow> CHR 0x00 \<notin> set k \<Longrightarrow> manager_step J m m'"
| step_remove: "mg_remove_collection n m = (b, m') \<Longrightarrow> manager_step J m m'"
| step_remove_wallpaper: "mg_remove_wallpaper n v m = Inr (b, m') \<Longrightarrow> manager_step J m m'"
| step_move: "mg_move_wallpaper k n v m = Inr (b, m') \<Longrightarrow> CHR 0x00 \<notin> set v \<Longrightarrow> manager_step J m m'"
| step_create: "mg_create_collection env n p recursive m = Inr (b, m') \<Longrightarrow> manager_step J m m'"
| step_add: "mg_add_to_collection n p m = Inr (b, m') \<Longrightarrow> manager_step J m m'"
| step_validate: "mg_validate_collection env n m = Inr (b, r, m') \<Longrightarrow> manager_step J m m'"

inductive manager_reach :: "('j, 't) json_ops \<Rightarrow> 'j manager \<Rightarrow> 'j manager \<Rightarrow> bool" for J m where
  reach_start: "manager_reach J m m"
| reach_step: "manager_reach J m m1 \<Longrightarrow> manager_step J m1 m2 \<Longrightarrow> manager_reach J m m2"

lemma manager_ok_lift:
  assumes "manager_ok m" and "mg_lift f m = (b, m')"
    and "wf_lib (mg_cache m) \<Longrightarrow> wf_lib (snd (f (mg_cache m)))"
    and "lib_locs (snd (f (mg_cache m))) \<subseteq> lib_locs (mg_cache m)"
  shows "manager_ok m'"
  using assms mg_lift_state [of f m] by (simp add: manager_ok_lib manager_ok_def [of m])

lemma manager_ok_step:
  assumes "manager_step J m m'" and "manager_ok m"
  shows "manager_ok m'"
  using assms
proof (induction rule: manager_step.induct)
  case (step_previous m doc m')
  then show ?case using manager_ok_previous [of m J] by simp
next
  case (step_remove_wallpaper n v m b m')
  then obtain r l' where l': "remove_cache_item n v (mg_cache m) = Inr (r, l')" "m' = m\<lparr>mg_cache := l'\<rparr>"
    by (auto simp: mg_remove_wallpaper_def rbind_eq_Inr_iff)
  then have "wf_lib l'"
    using step_remove_wallpaper by (simp add: manager_ok_def wf_lib_def cache_list_remove_item)
  with l' step_remove_wallpaper show ?case by (simp add: manager_ok_lib lib_locs_remove_item)
next
  case (step_move k n v m b m')
  then obtain r l' where l': "move_cache_item k n v (mg_cache m) = Inr (r, l')" "m' = m\<lparr>mg_cache := l'\<rparr>"
    by (auto simp: mg_move_wallpaper_def rbind_eq_Inr_iff)
  then have "wf_lib l'"
    using step_move by (simp add: manager_ok_def wf_lib_def cache_list_move)
  with l' step_move show ?case by (simp add: manager_ok_lib lib_locs_move)
next
  case (step_change n m b m')
  then show ?case
    using manager_ok_lift [of m "change_active n" b m'] lib_locs_change_active [of n "mg_cache m"]
    by (simp add: mg_change_active_def)
next
  case (step_rename k n m b m')
  then show ?case
    using manager_ok_lift [of m "rename_store k n" b m'] lib_locs_rename [of k n "mg_cache m"]
    by (simp add: mg_rename_collection_def wf_lib_rename)
next
  case (step_merge k n m b m')
  then show ?case
    using manager_ok_lift [of m "merge_cache k n" b m'] lib_locs_merge [of k n "mg_cache m"]
    by (simp add: mg_merge_collection_def wf_lib_merge)
next
  case (step_remove n m b m')
  then show ?case
    using manager_ok_lift [of m "lib_remove n" b m'] lib_locs_remove [of n "mg_cache m"]
    by (simp add: mg_remove_collection_def wf_lib_remove)
qed (blast intro: manager_ok_next manager_ok_favorate manager_ok_create manager_ok_add manager_ok_validate)+

lemma manager_ok_reach:
  assumes "manager_reach J m m'" and "manager_ok m"
  shows "manager_ok m'"
  using assms by (induction rule: manager_reach.induct) (auto intro: manager_ok_step)

definition new_manager :: "'j manager" where
  "new_manager = \<lparr>mg_cache = new_lib, mg_path_buf = empty_table, mg_previous = []\<rparr>"

lemma open_new_manager: "open_manager J d Map.empty = Inr new_manager"
  by (simp add: open_manager_def open_lib_def deserialize_lib_def pt_open_def new_manager_def)

lemma manager_ok_new [simp]: "manager_ok new_manager"
  by (simp add: manager_ok_def new_manager_def located_def lib_locs_def new_lib_def)
    (simp add: wf_lib_def cache_list_def)

section \<open>Properties\<close>

text \<open>
  C2: whatever commands a user runs from a fresh start, the names of the collections stay
  distinct, and the checksum stored in every wallpaper of every collection finds a directory in
  the path table, one whose checksum it is.
\<close>

theorem manager_reach_resolves:
  assumes "open_manager J d Map.empty = Inr m" and "manager_reach J m m'"
    and "lib_map (mg_cache m') n = Some c" and "x \<in> set (m_list c)"
  shows "distinct (mg_list_collection m') \<and>
    (\<exists>p. pt_get (mg_path_buf m') (loc x) = Some p \<and> path_hash p = loc x)"
proof -
  have "manager_ok m" using assms(1) by (auto simp: open_new_manager)
  with assms(2) have "manager_ok m'" by (rule manager_ok_reach)
  moreover from this assms(3,4) obtain p
    where "pt_get (mg_path_buf m') (loc x) = Some p" "path_hash p = loc x" by (rule manager_ok_item)
  ultimately show ?thesis by (auto simp: manager_ok_def wf_lib_def mg_list_collection_def)
qed

definition sample_fs :: fs_calls where
  "sample_fs = \<lparr>fs_exists = (\<lambda>p. Inr (p \<in> {''/p'', ''/p/x'', ''/p/y''})),
     fs_entries = (\<lambda>r p. Inr [(''/p/x'', False), (''/p/sub'', True), (''/p/y'', False)])\<rparr>"

definition sample_cache :: "string cache" where
  "sample_cache = \<lparr>m_modified = True, m_list =
     [make_item ''x'' Unused (path_hash ''/p''), make_item ''y'' Unused (path_hash ''/p'')]\<rparr>"

definition sample_collections :: cache_lib where
  "sample_collections = \<lparr>m_cache_vec = [(''a'', sample_cache)], m_current = 0, m_active_name = ''a''\<rparr>"

definition sample_manager :: "'j manager" where
  "sample_manager = \<lparr>mg_cache = sample_collections,
     mg_path_buf = pt_insert ''/p'' empty_table, mg_previous = []\<rparr>"

lemma sample_created:
  "fold (inserter (path_hash ''/p'')) [(''/p/x'', False), (''/p/sub'', True), (''/p/y'', False)] empty_cache = sample_cache"
proof -
  have "m_list (fold (inserter (path_hash ''/p'')) [(''/p/x'', False), (''/p/sub'', True), (''/p/y'', False)] empty_cache)
      = m_list sample_cache"
    by (subst m_list_created)
      (simp add: file_names_def path_filename_def is_sep_def first_occurrences_def sample_cache_def)
  moreover have "m_modified (fold (inserter (path_hash ''/p'')) [(''/p/x'', False), (''/p/sub'', True), (''/p/y'', False)] empty_cache)"
    by (subst fold_inserter, subst modified_load) (simp add: file_names_def)
  ultimately show ?thesis by (simp add: sample_cache_def)
qed

lemma sample_reach: "manager_reach J new_manager sample_manager"
proof (rule reach_step [OF reach_step [OF reach_start]])
  let ?m = "\<lparr>mg_cache = \<lparr>m_cache_vec = [(''a'', sample_cache)], m_current = 0, m_active_name = []\<rparr>,
     mg_path_buf = pt_insert ''/p'' empty_table, mg_previous = []\<rparr> :: 'a manager"
  have "mg_create_collection sample_fs ''a'' ''/p'' False new_manager = Inr (True, ?m)"
    using sample_created
    by (simp add: mg_create_collection_def sample_fs_def new_manager_def new_lib_def lib_insert_cases
        cache_list_def succeeded_def)
  then show "manager_step J new_manager ?m" by (rule step_create)
  have "mg_change_active ''a'' ?m = (True, sample_manager)"
    by (simp add: mg_change_active_def mg_lift_def change_active_def lib_exists_iff cache_list_def
        store_pos_def succeeded_def sample_manager_def sample_collections_def)
  then show "manager_step J ?m sample_manager" by (rule step_change)
qed

lemma manager_ok_sample: "manager_ok sample_manager"
  by (rule manager_ok_reach [OF sample_reach]) simp

lemma sample_active:
  "lib_map (mg_cache sample_manager) (m_active_name (mg_cache sample_manager)) = Some sample_cache"
  "mg_cache sample_manager = sample_collections" "m_active_name sample_collections = ''a''"
  "mg_path_buf sample_manager = pt_insert ''/p'' empty_table"
  "mg_previous sample_manager = []"
  by (simp_all add: sample_manager_def sample_collections_def lib_map_def)

lemma sample_lookup: "pt_get (pt_insert ''/p'' empty_table) (path_hash ''/p'') = Some ''/p''"
  by (simp add: pt_get_insert) (simp add: pt_get_map_of empty_table_def)

theorem manager_reach_resolves_witness:
  "\<exists>p. pt_get (mg_path_buf (sample_manager :: unit manager)) (path_hash ''/p'') = Some p \<and> path_hash p = path_hash ''/p''"
proof -
  have x: "make_item ''x'' Unused (path_hash ''/p'') \<in> set (m_list sample_cache)"
    by (simp add: sample_cache_def)
  show ?thesis
    using manager_reach_resolves [OF open_new_manager sample_reach sample_active(1) x] by auto
qed

lemma tree_library: "json_library json_tree_ops"
  by (rule tree.json_library_axioms)

text \<open>
  C13: if the draws pass over items that are not unused until one hits an unused item,
  \<^verbatim>\<open>next_wall\<close> returns the document of that wallpaper, with the directory whose checksum the
  item holds; the item becomes used, the document joins the history, and nothing else changes.
\<close>

theorem next_wall_shows:
  assumes "json_library J" and "manager_ok m"
    and "lib_map (mg_cache m) (m_active_name (mg_cache m)) = Some c" and "cache_size c < 2 ^ 31"
    and "draws j < cache_size c" and "cache_state (m_list c ! draws j) = Unused"
    and "\<And>i. i < j \<Longrightarrow> passed_over (m_list c) (draws i)"
  shows "\<exists>p doc m'. next_wall J draws m = Some (Inr (doc, m')) \<and>
    doc = wall_document J (cache_value (m_list c ! draws j)) p (draws j) (m_active_name (mg_cache m)) \<and>
    pt_get (mg_path_buf m) (loc (m_list c ! draws j)) = Some p \<and> path_hash p = loc (m_list c ! draws j) \<and>
    lib_map (mg_cache m') = (lib_map (mg_cache m))(m_active_name (mg_cache m) \<mapsto> c\<lparr>m_modified := True,
      m_list := (m_list c)[draws j := (m_list c ! draws j)\<lparr>cache_state := Used\<rparr>]\<rparr>) \<and>
    cache_list (mg_cache m') = cache_list (mg_cache m) \<and>
    mg_previous m' = mg_previous m @ [doc] \<and> mg_path_buf m' = mg_path_buf m"
proof -
  let ?x = "m_list c ! draws j"
  have x: "?x \<in> set (m_list c)" using assms(5) by (simp add: cache_size_def)
  obtain p where p: "pt_get (mg_path_buf m) (loc ?x) = Some p" "path_hash p = loc ?x"
    using assms(2,3) x by (rule manager_ok_item)
  have "pick_loop draws 0 (m_list c) = Some (Inr (draws j))"
    using assms(5,6) assms(7)
    by (subst pick_loop_first [where j = j]) (simp_all add: cache_size_def passed_over_def)
  with p show ?thesis
    using json_library.next_wall_active [OF assms(1,3) _ assms(4), of draws] assms(2,3,5)
    by (simp add: manager_ok_def Let_def lib_map_shown)
qed

theorem next_wall_shows_witness:
  "\<exists>doc m'. next_wall json_tree_ops (\<lambda>_. 1) sample_manager = Some (Inr (doc, m')) \<and>
    doc = wall_document json_tree_ops ''y'' ''/p'' 1 ''a'' \<and> mg_previous m' = [doc]"
  using next_wall_shows [OF tree_library manager_ok_sample sample_active(1), of "\<lambda>_. 1" 0]
  by (auto simp: sample_active(2-5) sample_cache_def cache_size_def sample_lookup)

text \<open>
  C14: the draws of \<^verbatim>\<open>next_wall\<close> run from one to the size, but the items are numbered from
  zero. So the first wallpaper of a collection is never shown, a draw of the size reads and
  writes past the end, and a collection with a single wallpaper always has undefined behaviour.
\<close>

theorem next_wall_off_by_one:
  assumes "json_library J" and "manager_ok m"
    and "lib_map (mg_cache m) (m_active_name (mg_cache m)) = Some c" and "cache_size c < 2 ^ 31"
    and "0 < cache_size c" and "\<And>k. 1 \<le> draws k \<and> draws k \<le> cache_size c"
  shows "(\<forall>doc m'. next_wall J draws m = Some (Inr (doc, m')) \<longrightarrow>
      (\<exists>c'. lib_map (mg_cache m') (m_active_name (mg_cache m)) = Some c' \<and> hd (m_list c') = hd (m_list c))) \<and>
    (\<forall>j. draws j = cache_size c \<and> (\<forall>i < j. passed_over (m_list c) (draws i)) \<longrightarrow>
      next_wall J draws m = Some (Inl Undefined)) \<and>
    (cache_size c = 1 \<longrightarrow> next_wall J draws m = Some (Inl Undefined))"
proof -
  note eval = json_library.next_wall_active [OF assms(1,3,5,4), of draws]
  have past: "next_wall J draws m = Some (Inl Undefined)"
    if "draws j = cache_size c" "\<forall>i < j. passed_over (m_list c) (draws i)" for j
  proof -
    have "pick_loop draws 0 (m_list c) = Some (Inl Undefined)"
      using that by (subst pick_loop_first [where j = j]) (simp_all add: cache_size_def passed_over_def)
    with eval assms(2) show ?thesis by (simp add: manager_ok_def)
  qed
  moreover have "draws 0 = cache_size c" if "cache_size c = 1"
    using that assms(6) [of 0] by simp
  moreover have "\<exists>c'. lib_map (mg_cache m') (m_active_name (mg_cache m)) = Some c' \<and> hd (m_list c') = hd (m_list c)"
    if "next_wall J draws m = Some (Inr (doc, m'))" for doc m'
    using that
  proof (cases rule: next_wall_state)
    case 1
    with assms(3) show ?thesis by simp
  next
    case (2 d idx)
    from 2(2) have "1 \<le> idx" using assms(6) by (auto elim: pick_loop_index)
    with assms(3,5) 2 show ?thesis
      by (cases "m_list c") (auto simp: lib_map_shown cache_size_def split: nat.split)
  qed
  ultimately show ?thesis using past [of 0] by auto
qed

theorem next_wall_off_by_one_witness:
  "next_wall json_tree_ops (\<lambda>_. 2) sample_manager = Some (Inl Undefined)"
  using next_wall_off_by_one [OF tree_library manager_ok_sample sample_active(1), of "\<lambda>_. 2"]
  by (auto simp: sample_cache_def cache_size_def dest: spec [of _ 0])

text \<open>
  C15: once no item but possibly the first is unused, \<^verbatim>\<open>next_wall\<close> shows nothing any more: it
  loops forever, or, if a draw equals the size, reads past the end.
\<close>

theorem next_wall_exhausted:
  assumes "json_library J" and "manager_ok m"
    and "lib_map (mg_cache m) (m_active_name (mg_cache m)) = Some c" and "cache_size c < 2 ^ 31"
    and "0 < cache_size c" and "\<And>k. 1 \<le> draws k \<and> draws k \<le> cache_size c"
    and "\<And>i. 1 \<le> i \<Longrightarrow> i < cache_size c \<Longrightarrow> cache_state (m_list c ! i) \<noteq> Unused"
  shows "next_wall J draws m = (if \<exists>k. draws k = cache_size c then Some (Inl Undefined) else None)"
proof -
  note eval = json_library.next_wall_active [OF assms(1,3,5,4), of draws]
  have past: "\<not> passed_over (m_list c) (draws k) \<longleftrightarrow> draws k = cache_size c" for k
    using assms(6) [of k] assms(7) [of "draws k"] by (auto simp: passed_over_def cache_size_def)
  show ?thesis
  proof (cases "pick_loop draws 0 (m_list c)")
    case None
    with eval past assms(2) show ?thesis by (auto simp: pick_loop_diverges manager_ok_def)
  next
    case (Some r)
    then obtain j where j: "\<not> passed_over (m_list c) (draws j)" "\<forall>i < j. passed_over (m_list c) (draws i)"
      using pick_loop_result [of draws 0 "m_list c" r] by auto
    then have "pick_loop draws 0 (m_list c) = Some (Inl Undefined)"
      using past [of j] by (subst pick_loop_first [where j = j]) (simp_all add: cache_size_def)
    with eval past j assms(2) show ?thesis by (auto simp: manager_ok_def)
  qed
qed

definition sample_used :: "'j manager" where
  "sample_used = sample_manager\<lparr>mg_cache := shown_lib 1 sample_cache sample_collections\<rparr>"

lemma sample_collection_a: "lib_map sample_collections (m_active_name sample_collections) = Some sample_cache"
  by (simp add: sample_collections_def lib_map_def)

lemma manager_ok_sample_used: "manager_ok sample_used"
  unfolding sample_used_def
proof (rule manager_ok_lib [OF manager_ok_sample])
  show "wf_lib (shown_lib 1 sample_cache sample_collections)"
    by (simp only: cache_list_shown_wf) (simp add: wf_lib_def sample_collections_def cache_list_def)
  show "lib_locs (shown_lib 1 sample_cache sample_collections) \<subseteq> lib_locs (mg_cache sample_manager)"
    unfolding sample_active(2)
    using sample_collection_a by (rule lib_locs_shown) (simp add: sample_cache_def)
qed

theorem next_wall_exhausted_witness:
  "next_wall json_tree_ops (\<lambda>_. 1) sample_used = None"
proof -
  let ?c = "sample_cache\<lparr>m_modified := True,
    m_list := (m_list sample_cache)[1 := (m_list sample_cache ! 1)\<lparr>cache_state := Used\<rparr>]\<rparr>"
  have "lib_map (mg_cache sample_used) (m_active_name (mg_cache sample_used)) = Some ?c"
    by (simp add: sample_used_def lib_map_shown [OF sample_collection_a])
  from next_wall_exhausted [OF tree_library manager_ok_sample_used this, of "\<lambda>_. 1"] show ?thesis
    by (auto simp: sample_cache_def cache_size_def)
qed

text \<open>
  Going back after showing a wallpaper returns the document just shown and restores the
  history; the wallpaper stays marked as used. With an empty history there is nothing to return.
\<close>

theorem previous_after_next:
  assumes "next_wall J draws m = Some (Inr (doc, m'))"
    and "lib_map (mg_cache m) (m_active_name (mg_cache m)) \<noteq> None"
  shows "previous_wall J m' = (doc, m'\<lparr>mg_previous := mg_previous m\<rparr>) \<and>
    previous_wall J (m\<lparr>mg_previous := []\<rparr>) = (j_null J, m\<lparr>mg_previous := []\<rparr>)"
  using assms(1)
proof (cases rule: next_wall_state)
  case 1
  with assms(2) show ?thesis by simp
next
  case (2 c idx)
  then show ?thesis by (simp add: previous_wall_def)
qed

lemma sample_next: "\<exists>doc m'. next_wall json_tree_ops (\<lambda>_. 1) sample_manager = Some (Inr (doc, m'))"
proof -
  have "pick_loop (\<lambda>_. 1) 0 (m_list sample_cache) = Some (Inr 1)"
    by (simp add: pick_loop_unfold sample_cache_def)
  moreover have "manager_ok (sample_manager :: json_tree manager)" by (rule manager_ok_sample)
  ultimately show ?thesis
    using json_library.next_wall_active [OF tree_library sample_active(1), of "\<lambda>_. 1"]
    by (simp add: manager_ok_def Let_def cache_size_def sample_cache_def)
qed

theorem previous_after_next_witness:
  "\<exists>doc m'. next_wall json_tree_ops (\<lambda>_. 1) sample_manager = Some (Inr (doc, m')) \<and>
    fst (previous_wall json_tree_ops m') = doc"
proof -
  obtain doc m' where next_: "next_wall json_tree_ops (\<lambda>_. 1) (sample_manager :: json_tree manager) = Some (Inr (doc, m'))"
    using sample_next by blast
  moreover have "lib_map (mg_cache (sample_manager :: json_tree manager))
      (m_active_name (mg_cache (sample_manager :: json_tree manager))) \<noteq> None"
    by (simp add: sample_active(1))
  ultimately show ?thesis using previous_after_next [OF next_] by auto
qed

text \<open>
  C16: if the current index denotes the active collection and its values are unique, marking a
  favourite right after a wallpaper was shown marks exactly that wallpaper. Without a history
  it does nothing; if the current index is past the end, it has undefined behaviour.
\<close>

theorem favorate_after_next:
  assumes "json_library J" and "manager_ok m" and "active_coherent (mg_cache m)"
    and "lib_map (mg_cache m) (m_active_name (mg_cache m)) = Some c" and "wf_cache c"
    and "cache_size c < 2 ^ 31" and "next_wall J draws m = Some (Inr (doc, m'))"
  shows "\<exists>m'' idx. mark_favorate J m' = Inr m'' \<and> idx < cache_size c \<and> cache_state (m_list c ! idx) = Unused \<and>
    lib_map (mg_cache m'') = (lib_map (mg_cache m))(m_active_name (mg_cache m) \<mapsto> c\<lparr>m_modified := True,
      m_list := (m_list c)[idx := (m_list c ! idx)\<lparr>cache_state := Favorate\<rparr>]\<rparr>) \<and>
    mg_previous m'' = mg_previous m' \<and> mg_path_buf m'' = mg_path_buf m \<and>
    mark_favorate J (m\<lparr>mg_previous := []\<rparr>) = Inr (m\<lparr>mg_previous := []\<rparr>) \<and>
    mark_favorate J (m'\<lparr>mg_cache := (mg_cache m')\<lparr>m_cache_vec := []\<rparr>\<rparr>) = Inl Undefined"
  using assms(7)
proof (cases rule: next_wall_state)
  case 1
  with assms(4) show ?thesis by simp
next
  case (2 d idx)
  let ?l = "mg_cache m" and ?i = "store_pos (mg_cache m) (m_active_name (mg_cache m))"
  have d: "d = c" using 2(1) assms(4) by simp
  note found = get_cache_found [OF assms(4)]
  have current: "unat (m_current ?l) = ?i"
  proof -
    have "cache_list ?l ! ?i = cache_list ?l ! unat (m_current ?l)" "?i < length (cache_list ?l)"
      "unat (m_current ?l) < length (cache_list ?l)" "distinct (cache_list ?l)"
      using found assms(2,3) store_pos_nth [OF found(3)]
      by (auto simp: coherent_iff cache_list_nth manager_ok_def wf_lib_def) (simp_all add: cache_list_def)
    then show ?thesis by (metis nth_eq_iff_index_eq)
  qed
  let ?used = "(m_list c ! idx)\<lparr>cache_state := Used\<rparr>"
  let ?c' = "c\<lparr>m_modified := True, m_list := (m_list c)[idx := ?used]\<rparr>"
  have idx: "idx < length (m_list c)" using 2(3) d by simp
  have pos: "find_pos (\<lambda>x. cache_value x = cache_value (m_list c ! idx)) (m_list ?c') = idx"
  proof -
    have "map cache_value (m_list ?c') = cache_values c"
      using idx by (simp add: map_update cache_values_def list_update_same_conv)
    with assms(5) find_pos_distinct_key [of cache_value "m_list ?c'" idx] idx show ?thesis
      by (simp add: wf_cache_def)
  qed
  have doc: "doc = wall_document J (cache_value (m_list c ! idx))
      (the (pt_get (mg_path_buf m) (loc (m_list c ! idx)))) idx (m_active_name ?l)"
    using json_library.next_wall_active [OF assms(1,4) _ assms(6), of draws] assms(2,7) 2(2) idx d
    by (cases "m_list c") (auto simp: Let_def manager_ok_def cache_size_def)
  let ?fav = "c\<lparr>m_modified := True, m_list := (m_list c)[idx := (m_list c ! idx)\<lparr>cache_state := Favorate\<rparr>]\<rparr>"
  have name: "j_index J doc ''wallpaper'' = Inr (j_string J (cache_value (m_list c ! idx)))"
    "j_get_string J (j_string J (cache_value (m_list c ! idx))) = Inr (cache_value (m_list c ! idx))"
    using assms(1) by (simp_all add: doc wall_document_def json_library.json_simps)
  have mark: "mark_favorate J m' = Inr (m'\<lparr>mg_cache := put_cache ?i ?fav ?l\<rparr>)"
    using name pos idx current found(2)
    by (simp add: mark_favorate_def 2(5) d shown_lib_def get_current_def cache_begin_def Let_def
        cache_of_put slice_put cache_size_def)
  have map: "lib_map (put_cache ?i ?fav ?l) = (lib_map ?l)(m_active_name ?l \<mapsto> ?fav)"
    using found(3) by (rule lib_map_put)
  have "mark_favorate J (m'\<lparr>mg_cache := (mg_cache m')\<lparr>m_cache_vec := []\<rparr>\<rparr>) = Inl Undefined"
    by (simp add: mark_favorate_def 2(5) get_current_def)
  moreover have "mark_favorate J (m\<lparr>mg_previous := []\<rparr>) = Inr (m\<lparr>mg_previous := []\<rparr>)"
    by (simp add: mark_favorate_def)
  ultimately show ?thesis
    using mark map idx 2(4) by (auto simp: d 2(5) cache_size_def)
qed

theorem favorate_after_next_witness:
  "\<exists>doc m' m''. next_wall json_tree_ops (\<lambda>_. 1) sample_manager = Some (Inr (doc, m')) \<and>
    mark_favorate json_tree_ops m' = Inr m'' \<and> mg_path_buf m'' = pt_insert ''/p'' empty_table"
proof -
  let ?m = "sample_manager :: json_tree manager"
  have "active_coherent (mg_cache ?m)" "wf_cache sample_cache" "cache_size sample_cache < 2 ^ 31"
    by (simp_all add: sample_active sample_collections_def active_coherent_def sample_cache_def
        wf_cache_def cache_values_def cache_size_def)
  note rest = this
  obtain doc m' where next_: "next_wall json_tree_ops (\<lambda>_. 1) ?m = Some (Inr (doc, m'))"
    using sample_next by blast
  from favorate_after_next [OF tree_library manager_ok_sample rest(1) sample_active(1) rest(2,3) next_] next_
  show ?thesis by (auto simp: sample_active)
qed

text \<open>
  C17: creating a collection from an existing directory, under a new name, adds exactly one
  collection: the first occurrences of the names of the entries that are not directories, all
  unused and located at the given directory's checksum, which the path table then resolves.
  An empty path or one that does not exist gives an empty collection; a taken name is refused.
\<close>

theorem create_collection_content:
  assumes "fs_exists env p = Inr there" and "fs_entries env recursive p = Inr entries"
  shows "\<exists>m' c. mg_create_collection env name p recursive m = Inr (\<not> lib_exists (mg_cache m) name, m') \<and>
    m_list c = (if p \<noteq> [] \<and> there
      then map (\<lambda>v. make_item v Unused (path_hash p)) (first_occurrences (file_names entries)) else []) \<and>
    wf_cache c \<and>
    lib_map (mg_cache m') = (if lib_exists (mg_cache m) name then lib_map (mg_cache m)
      else (lib_map (mg_cache m))(name \<mapsto> c)) \<and>
    (p \<noteq> [] \<and> there \<longrightarrow> pt_get (mg_path_buf m') (path_hash p) \<noteq> None) \<and>
    mg_previous m' = mg_previous m"
proof -
  let ?c = "if p \<noteq> [] \<and> there then fold (inserter (path_hash p)) entries empty_cache else empty_cache"
  let ?t = "if p \<noteq> [] \<and> there then pt_insert p (mg_path_buf m) else mg_path_buf m"
  let ?m' = "m\<lparr>mg_cache := snd (lib_insert name ?c (mg_cache m)), mg_path_buf := ?t\<rparr>"
  have "mg_create_collection env name p recursive m =
      Inr (succeeded (fst (lib_insert name ?c (mg_cache m))), ?m')"
    using assms by (cases "p = []"; cases there)
      (simp_all add: mg_create_collection_def case_prod_unfold Let_def)
  moreover have "succeeded (fst (lib_insert name ?c (mg_cache m))) \<longleftrightarrow> \<not> lib_exists (mg_cache m) name"
    by (simp add: lib_insert_cases lib_exists_iff succeeded_def)
  moreover have "lib_map (snd (lib_insert name ?c (mg_cache m))) = (if lib_exists (mg_cache m) name
      then lib_map (mg_cache m) else (lib_map (mg_cache m))(name \<mapsto> ?c))"
    using lib_map_insert [of name "mg_cache m" ?c] by (simp add: lib_insert_cases lib_exists_iff)
  moreover have "wf_cache ?c"
    by (simp add: wf_cache_def fold_inserter value_list.vals_load)
  moreover have "m_list ?c = (if p \<noteq> [] \<and> there
      then map (\<lambda>v. make_item v Unused (path_hash p)) (first_occurrences (file_names entries)) else [])"
    by (simp add: m_list_created)
  ultimately show ?thesis
    using pt_get_insert_there [of p "mg_path_buf m"] by (intro exI [of _ ?m'] exI [of _ ?c]) simp
qed

theorem create_collection_content_witness:
  "\<exists>m' c. mg_create_collection sample_fs ''a'' ''/p'' False new_manager = Inr (True, m') \<and>
    lib_map (mg_cache m') ''a'' = Some c \<and> map cache_value (m_list c) = [''x'', ''y'']"
proof -
  have fs: "fs_exists sample_fs ''/p'' = Inr True"
    "fs_entries sample_fs False ''/p'' = Inr [(''/p/x'', False), (''/p/sub'', True), (''/p/y'', False)]"
    by (simp_all add: sample_fs_def)
  have none: "\<not> lib_exists new_lib ''a''" by (simp add: lib_exists_iff)
  show ?thesis
    using create_collection_content [OF fs, of "''a''" new_manager] none
    by (auto simp: new_manager_def file_names_def path_filename_def is_sep_def first_occurrences_def)
qed

text \<open>
  C18: adding a file whose path has no repeated separators to a known collection gives an item
  from which, through the path table, the original path can be put together again; unless the
  table had filed another directory under the same checksum, or the collection already had a
  wallpaper of that name from elsewhere. An unknown collection is refused.
\<close>

theorem add_to_collection_resolves:
  assumes "normal_path wall" and "lib_map (mg_cache m) name = Some c"
    and "path_filename wall \<notin> set (cache_values c)"
    and "pt_get (mg_path_buf m) (path_hash (path_parent wall)) \<in> {None, Some (path_parent wall)}"
  shows "\<exists>m' c' x. mg_add_to_collection name wall m = Inr (True, m') \<and>
    lib_map (mg_cache m') = (lib_map (mg_cache m))(name \<mapsto> c') \<and>
    m_list c' = m_list c @ [x] \<and> cache_state x = Unused \<and>
    map_option (\<lambda>dir. path_append dir (cache_value x)) (pt_get (mg_path_buf m') (loc x)) = Some wall"
proof -
  let ?h = "path_hash (path_parent wall)"
  let ?x = "make_item (path_filename wall) Unused ?h"
  let ?c' = "cache_insert (path_filename wall) ?h c"
  have "pt_get (pt_insert (path_parent wall) (mg_path_buf m)) ?h = Some (path_parent wall)"
    using assms(4) by (auto simp: pt_get_insert)
  moreover have "m_list ?c' = m_list c @ [?x]"
    using assms(3) by (simp add: m_list_insert)
  moreover have "lib_map (put_cache (store_pos (mg_cache m) name) ?c' (mg_cache m)) = (lib_map (mg_cache m))(name \<mapsto> ?c')"
    using get_cache_found(3) [OF assms(2)] by (rule lib_map_put)
  ultimately show ?thesis
    using assms(1,2)
    by (intro exI [of _ "m\<lparr>mg_cache := put_cache (store_pos (mg_cache m) name) ?c' (mg_cache m),
        mg_path_buf := pt_insert (path_parent wall) (mg_path_buf m)\<rparr>"] exI [of _ ?c'] exI [of _ ?x])
      (simp add: add_to_collection_cases append_parent_filename)
qed

theorem add_to_collection_resolves_witness:
  "\<exists>m' c'. mg_add_to_collection ''a'' ''/p/z'' (sample_manager :: json_tree manager) = Inr (True, m') \<and>
    lib_map (mg_cache m') ''a'' = Some c' \<and> length (m_list c') = 3"
proof -
  have h: "normal_path ''/p/z''" "path_parent ''/p/z'' = ''/p''" "path_filename ''/p/z'' = ''z''"
    by (simp_all add: normal_path_def path_filename_def path_directory_def path_parent_def is_sep_def strip_seps_def)
  show ?thesis
    using add_to_collection_resolves [OF h(1), of sample_manager "''a''" sample_cache] sample_collection_a
    by (auto simp: sample_active h sample_lookup sample_cache_def cache_values_def)
qed

lemma invalid_paths_filter:
  assumes "\<And>q. fs_exists env q = Inr (there q)"
    and "\<And>x. x \<in> set xs \<Longrightarrow> pt_get t (loc x) \<noteq> None"
  shows "invalid_paths env t xs = Inr (filter (\<lambda>q. \<not> there q)
    (map (\<lambda>x. path_append (the (pt_get t (loc x))) (cache_value x)) xs))"
  using assms(2) by (induction xs) (auto simp: assms(1) split: option.split)

text \<open>
  As long as asking the file system does not throw, validating a collection in a state that
  commands can reach never ends the program. It reports, for the stored paths of the items, in
  order, those that do not exist, and the right numbers; it changes nothing but the modified
  flag. An unknown collection is reported as such.
\<close>

theorem validate_collection_report:
  assumes "manager_ok m" and "\<And>q. fs_exists env q = Inr (there q)"
  shows "case lib_map (mg_cache m) name of
      None \<Rightarrow> mg_validate_collection env name m = Inr (False, None, m)
    | Some c \<Rightarrow> \<exists>paths m'. let missing = filter (\<lambda>q. \<not> there q) paths in
        mg_validate_collection env name m = Inr (True,
          Some (name, cache_size c, length (filter there paths), length missing, missing), m') \<and>
        list_all2 (\<lambda>x q. map_option (\<lambda>dir. path_append dir (cache_value x)) (pt_get (mg_path_buf m) (loc x)) = Some q)
          (m_list c) paths \<and>
        lib_map (mg_cache m') = (lib_map (mg_cache m))(name \<mapsto> c\<lparr>m_modified := True\<rparr>) \<and>
        mg_path_buf m' = mg_path_buf m \<and> mg_previous m' = mg_previous m"
proof (cases "lib_map (mg_cache m) name")
  case None
  then have "name \<notin> set (cache_list (mg_cache m))" by (simp add: lib_map_None_iff)
  with None show ?thesis by (simp add: mg_validate_collection_def lib_exists_iff)
next
  case (Some c)
  note found = get_cache_found [OF Some]
  let ?t = "mg_path_buf m"
  let ?paths = "map (\<lambda>x. path_append (the (pt_get ?t (loc x))) (cache_value x)) (m_list c)"
  let ?m' = "m\<lparr>mg_cache := put_cache (store_pos (mg_cache m) name) (c\<lparr>m_modified := True\<rparr>) (mg_cache m)\<rparr>"
  have there: "pt_get ?t (loc x) \<noteq> None" if "x \<in> set (m_list c)" for x
    using assms(1) lib_locs_map [OF Some that] by (simp add: manager_ok_def located_def)
  have invalid: "invalid_paths env ?t (m_list c) = Inr (filter (\<lambda>q. \<not> there q) ?paths)"
    using assms(2) there by (rule invalid_paths_filter)
  have "cache_size c - length (filter (\<lambda>q. \<not> there q) ?paths) = length (filter there ?paths)"
    using sum_length_filter_compl [of there ?paths] by (simp add: cache_size_def)
  with invalid found(1-3) have "mg_validate_collection env name m = Inr (True,
      Some (name, cache_size c, length (filter there ?paths), length (filter (\<lambda>q. \<not> there q) ?paths),
        filter (\<lambda>q. \<not> there q) ?paths), ?m')"
    by (simp add: mg_validate_collection_def lib_exists_iff slice_put Let_def cache_size_def)
  moreover have "list_all2 (\<lambda>x q. map_option (\<lambda>dir. path_append dir (cache_value x)) (pt_get ?t (loc x)) = Some q)
      (m_list c) ?paths"
    using there by (fastforce simp: list_all2_map2 list_all2_same)
  moreover have "lib_map (mg_cache ?m') = (lib_map (mg_cache m))(name \<mapsto> c\<lparr>m_modified := True\<rparr>)"
    using found(3) by (simp add: lib_map_put)
  ultimately show ?thesis
    by (simp only: Some option.case) (intro exI [of _ ?paths] exI [of _ ?m'], simp add: Let_def)
qed

theorem validate_collection_report_witness:
  "\<exists>r m'. mg_validate_collection \<lparr>fs_exists = (\<lambda>_. Inr False), fs_entries = (\<lambda>_ _. Inr [])\<rparr> ''a''
    (sample_manager :: json_tree manager) = Inr (True, Some (''a'', 2, 0, 2, r), m') \<and> length r = 2"
proof -
  let ?env = "\<lparr>fs_exists = (\<lambda>_. Inr False), fs_entries = (\<lambda>_ _. Inr [])\<rparr>"
  have "fs_exists ?env q = Inr ((\<lambda>_. False) q)" for q by simp
  from validate_collection_report [where m = "sample_manager :: json_tree manager" and name = "''a''",
      OF manager_ok_sample this] show ?thesis
    using sample_collection_a
    by (auto simp: sample_active Let_def sample_cache_def cache_size_def list_all2_conv_all_nth numeral_2_eq_2)
qed

section \<open>Sessions\<close>

definition reopened :: "'j manager \<Rightarrow> 'j manager" where
  "reopened m = \<lparr>mg_cache = reloaded_lib (mg_cache m),
     mg_path_buf = (mg_path_buf m)\<lparr>pt_modified := False\<rparr>, mg_previous = []\<rparr>"

lemma lib_locs_reloaded [simp]: "lib_locs (reloaded_lib l) = lib_locs l"
  by (simp add: lib_locs_def reloaded_lib_def reloaded_def)

lemma wf_reloaded_lib [simp]: "wf_lib (reloaded_lib l) = wf_lib l"
  by (simp add: wf_lib_def reloaded_lib_def cache_list_def comp_def)

lemma pt_get_unmodified [simp]: "pt_get (t\<lparr>pt_modified := b\<rparr>) = pt_get t"
  by (rule ext) (simp add: pt_get_map_of)

lemma reopened_lists:
  "mg_list_collection (reopened m) = mg_list_collection m"
  "lib_map (mg_cache (reopened m)) n = map_option reloaded (lib_map (mg_cache m) n)"
  "mg_previous (reopened m) = []"
  by (simp_all add: mg_list_collection_def reopened_def reloaded_lib_def cache_list_def lib_map_def map_of_reloaded)

lemma manager_ok_reopened: "manager_ok m \<Longrightarrow> manager_ok (reopened m)"
  by (simp add: manager_ok_def reopened_def located_def) (simp add: wf_table_def)

context json_library begin

lemma pt_open_cong: "fs (table_path d) = fs' (table_path d) \<Longrightarrow> pt_open J d fs = pt_open J d fs'"
  by (simp add: pt_open_def)

lemma open_lib_cong: "fs (library_path d) = fs' (library_path d) \<Longrightarrow> open_lib J d fs b = open_lib J d fs' b"
  by (simp add: open_lib_def deserialize_lib_def)

lemma paths_differ: "history_path d \<noteq> table_path d" "table_path d \<noteq> library_path d"
  by (simp_all add: history_path_def table_path_def library_path_def)

text \<open>The table on file is the one in memory after it was stored.\<close>

lemma pt_save_open:
  assumes "pt_modified t \<or> pt_open J d fs = Inr (t\<lparr>pt_modified := False\<rparr>)" and "can_write (table_path d)"
  shows "\<exists>fs'. pt_save J d can_write t fs = Inr fs' \<and> pt_open J d fs' = Inr (t\<lparr>pt_modified := False\<rparr>)"
proof (cases "pt_modified t")
  case True
  have "empty_table\<lparr>pt_store := pt_store t\<rparr> = t\<lparr>pt_modified := False\<rparr>" by (simp add: empty_table_def)
  with True assms(2) show ?thesis
    by (simp add: pt_save_modified pt_open_saved [of _ d "pt_store t"])
next
  case False
  with assms(1) show ?thesis by (simp add: pt_save_def)
qed

lemma store_open:
  assumes "wf_lib (mg_cache m)"
    and "\<exists>s \<in> set (m_cache_vec (mg_cache m)). m_modified (snd s)"
    and "unat (m_current (mg_cache m)) < cache_count (mg_cache m)"
    and "pt_modified (mg_path_buf m) \<or> pt_open J d fs = Inr ((mg_path_buf m)\<lparr>pt_modified := False\<rparr>)"
    and "can_write (table_path d)" and "can_write (library_path d)"
  shows "\<exists>fs'. store_manager J d can_write m fs = Inr fs' \<and> open_manager J d fs' = Inr (reopened m)"
proof -
  let ?fs1 = "if mg_previous m \<noteq> [] \<and> can_write (history_path d)
    then fs(history_path d \<mapsto> j_dump J (j_object J [(''histoy'', j_array J (mg_previous m))])) else fs"
  have fs1: "(if mg_previous m \<noteq> []
      then rbind (j_put J (j_null J) ''histoy'' (j_array J (mg_previous m))) (\<lambda>obj.
           Inr (if can_write (history_path d) then fs(history_path d \<mapsto> j_dump J obj) else fs))
      else Inr fs) = Inr ?fs1" "?fs1 (table_path d) = fs (table_path d)"
    using paths_differ(1) [of d] by (simp_all add: put_null)
  then have "pt_modified (mg_path_buf m) \<or> pt_open J d ?fs1 = Inr ((mg_path_buf m)\<lparr>pt_modified := False\<rparr>)"
    using assms(4) pt_open_cong [of fs d ?fs1] by simp
  from pt_save_open [where can_write = can_write and d = d, OF this assms(5)] obtain fs2
    where fs2: "pt_save J d can_write (mg_path_buf m) ?fs1 = Inr fs2"
      "pt_open J d fs2 = Inr ((mg_path_buf m)\<lparr>pt_modified := False\<rparr>)" by blast
  obtain fs3 where fs3: "serialize_lib J d can_write (mg_cache m) fs2 = Inr fs3"
      "open_lib J d fs3 True = Inr (reloaded_lib (mg_cache m))" "fs3 (table_path d) = fs2 (table_path d)"
    using lib_reload [OF assms(1,2), of can_write d fs2] assms(3,6) paths_differ(2) [of d]
      serialize_modified [OF assms(2), of can_write d fs2]
    by (auto simp: cache_count_def)
  then have "pt_open J d fs3 = Inr ((mg_path_buf m)\<lparr>pt_modified := False\<rparr>)"
    using fs2(2) pt_open_cong [of fs3 d fs2] by simp
  with fs1 fs2 fs3 show ?thesis
    by (simp add: store_manager_def open_manager_def reopened_def)
qed

end

text \<open>
  C3: if a collection was modified and the current index denotes one, storing the state at the
  end of a session and opening it again gives a state with the same collections, up to duplicate
  items, the same path table and an empty history; every wallpaper can still be resolved. The
  path table has to be modified or already on file.
\<close>

theorem session_roundtrip:
  assumes "json_library J" and "manager_ok m"
    and "\<exists>s \<in> set (m_cache_vec (mg_cache m)). m_modified (snd s)"
    and "unat (m_current (mg_cache m)) < cache_count (mg_cache m)"
    and "pt_modified (mg_path_buf m) \<or> pt_open J d fs = Inr ((mg_path_buf m)\<lparr>pt_modified := False\<rparr>)"
    and "can_write (table_path d)" and "can_write (library_path d)"
  shows "\<exists>fs' m'. store_manager J d can_write m fs = Inr fs' \<and> open_manager J d fs' = Inr m' \<and>
    manager_ok m' \<and> mg_list_collection m' = mg_list_collection m \<and>
    (\<forall>n. lib_map (mg_cache m') n = map_option reloaded (lib_map (mg_cache m) n)) \<and>
    pt_get (mg_path_buf m') = pt_get (mg_path_buf m) \<and> mg_previous m' = []"
proof -
  have "wf_lib (mg_cache m)" using assms(2) by (simp add: manager_ok_def)
  from json_library.store_open [OF assms(1) this assms(3-7)] obtain fs'
    where "store_manager J d can_write m fs = Inr fs'" "open_manager J d fs' = Inr (reopened m)" by blast
  moreover have "manager_ok (reopened m)" using assms(2) by (rule manager_ok_reopened)
  moreover have "pt_get (mg_path_buf (reopened m)) = pt_get (mg_path_buf m)"
    by (intro ext) (simp add: reopened_def pt_get_def)
  ultimately show ?thesis
    by (intro exI [of _ fs'] exI [of _ "reopened m"]) (simp add: reopened_lists)
qed

theorem session_roundtrip_witness:
  "\<exists>fs' m'. store_manager json_tree_ops ''/d'' (\<lambda>_. True) sample_manager Map.empty = Inr fs' \<and>
    open_manager json_tree_ops ''/d'' fs' = Inr m' \<and> mg_list_collection m' = [''a'']"
proof -
  let ?m = "sample_manager :: json_tree manager"
  have h: "\<exists>s \<in> set (m_cache_vec (mg_cache ?m)). m_modified (snd s)"
    "unat (m_current (mg_cache ?m)) < cache_count (mg_cache ?m)"
    "pt_modified (mg_path_buf ?m) \<or>
      pt_open json_tree_ops ''/d'' Map.empty = Inr ((mg_path_buf ?m)\<lparr>pt_modified := False\<rparr>)"
    by (simp_all add: sample_active sample_collections_def sample_cache_def cache_count_def
        pt_insert_def pt_exists_iff empty_table_def)
  have "mg_list_collection ?m = [''a'']"
    by (simp add: mg_list_collection_def sample_active sample_collections_def cache_list_def)
  then show ?thesis
    using session_roundtrip [OF tree_library manager_ok_sample h, of "\<lambda>_. True"] by auto
qed

end
