(* ===== verification/Commands.thy ===== *)
theory Commands
  imports Manager
begin

text \<open>
  What the callers of the manager rely on, the command line as well as the server: in every state
  that keeps the invariant its operations return, without a fault, and keep it. The two that
  look at the file system end the process, being \<^verbatim>\<open>noexcept\<close>, when that throws.
\<close>

text \<open>
  The functions of \<^verbatim>\<open>std::filesystem\<close> return or throw, as an iterator does for a path that is no
  directory; and what was thrown.
\<close>

definition throwing_fs :: "fs_calls \<Rightarrow> bool" where
  "throwing_fs env \<longleftrightarrow> (\<forall>p f. fs_exists env p = Inl f \<longrightarrow> (\<exists>e. f = Throws e)) \<and>
     (\<forall>r p f. fs_entries env r p = Inl f \<longrightarrow> (\<exists>e. f = Throws e))"

definition fs_threw :: "fs_calls \<Rightarrow> cpp_exception \<Rightarrow> bool" where
  "fs_threw env e \<longleftrightarrow> (\<exists>p. fs_exists env p = Inl (Throws e)) \<or> (\<exists>r p. fs_entries env r p = Inl (Throws e))"

lemma throwing_exists:
  assumes "throwing_fs env"
  obtains b where "fs_exists env p = Inr b" | e where "fs_exists env p = Inl (Throws e)" and "fs_threw env e"
  using assms unfolding throwing_fs_def fs_threw_def by (metis obj_sumE)

lemma throwing_entries:
  assumes "throwing_fs env"
  obtains es where "fs_entries env r p = Inr es" | e where "fs_entries env r p = Inl (Throws e)" and "fs_threw env e"
  using assms unfolding throwing_fs_def fs_threw_def by (metis obj_sumE)

lemma create_ends:
  assumes "throwing_fs env"
  shows "(\<exists>b m'. mg_create_collection env n p r m = Inr (b, m')) \<or>
    (\<exists>e. mg_create_collection env n p r m = Inl (Terminates e) \<and> fs_threw env e)"
proof (cases "p = []")
  case True
  then show ?thesis by (simp add: mg_create_collection_def case_prod_unfold Let_def)
next
  case False
  show ?thesis
  proof (cases rule: throwing_exists [OF assms, of p])
    case (1 there)
    with False show ?thesis
      by (cases there; cases rule: throwing_entries [OF assms, of r p])
        (auto simp: mg_create_collection_def case_prod_unfold Let_def)
  next
    case (2 e)
    with False show ?thesis by (auto simp: mg_create_collection_def)
  qed
qed

lemma invalid_paths_ends:
  assumes "throwing_fs env" and "\<And>x. x \<in> set xs \<Longrightarrow> pt_get t (loc x) \<noteq> None"
  shows "(\<exists>ps. invalid_paths env t xs = Inr ps) \<or> (\<exists>e. invalid_paths env t xs = Inl (Throws e) \<and> fs_threw env e)"
  using assms(2)
proof (induction xs)
  case (Cons x xs)
  then obtain d where d: "pt_get t (loc x) = Some d" by fastforce
  have "(\<exists>ps. invalid_paths env t xs = Inr ps) \<or> (\<exists>e. invalid_paths env t xs = Inl (Throws e) \<and> fs_threw env e)"
    using Cons by simp
  with d show ?case
    by (cases rule: throwing_exists [OF assms(1), of "path_append d (cache_value x)"]) (auto simp: Let_def)
qed simp

lemma validate_ends:
  assumes "throwing_fs env" and "manager_ok m"
  shows "(\<exists>b r m'. mg_validate_collection env n m = Inr (b, r, m')) \<or>
    (\<exists>e. mg_validate_collection env n m = Inl (Terminates e) \<and> fs_threw env e)"
proof (cases "lib_map (mg_cache m) n")
  case None
  then have "mg_validate_collection env n m = Inr (False, None, m)"
    by (simp add: mg_validate_collection_def lib_exists_iff lib_map_None_iff)
  then show ?thesis by blast
next
  case (Some c)
  have "pt_get (mg_path_buf m) (loc x) \<noteq> None" if "x \<in> set (m_list c)" for x
    using assms(2) lib_locs_map [OF Some that] by (simp add: manager_ok_def located_def)
  then have "(\<exists>ps. invalid_paths env (mg_path_buf m) (m_list c) = Inr ps) \<or>
      (\<exists>e. invalid_paths env (mg_path_buf m) (m_list c) = Inl (Throws e) \<and> fs_threw env e)"
    by (rule invalid_paths_ends [OF assms(1)])
  then show ?thesis
    using get_cache_found(1-3) [OF Some]
    by (auto simp: mg_validate_collection_def lib_exists_iff slice_put)
qed

text \<open>
  A command of the manager is good if, in a state that keeps the invariant, it returns and
  keeps it.
\<close>

definition good_command :: "('j manager \<Rightarrow> (bool \<times> 'j manager) result) \<Rightarrow> bool" where
  "good_command f \<longleftrightarrow> (\<forall>m. manager_ok m \<longrightarrow> (\<exists>b m'. f m = Inr (b, m') \<and> manager_ok m'))"

lemma good_step:
  fixes f :: "'j manager \<Rightarrow> (bool \<times> 'j manager) result"
  assumes "\<And>m. \<exists>b m'. f m = Inr (b, m') \<and> (\<forall>J :: ('j, unit) json_ops. manager_step J m m')"
  shows "good_command f"
  unfolding good_command_def using assms manager_ok_step by blast

lemma good_pure_step:
  fixes f :: "'j manager \<Rightarrow> bool \<times> 'j manager"
  assumes "\<And>m b m' J. f m = (b, m') \<Longrightarrow> manager_step (J :: ('j, unit) json_ops) m m'"
  shows "good_command (\<lambda>m. Inr (f m))"
  by (rule good_step) (metis assms surj_pair)

text \<open>Creating a collection keeps the invariant, or what the file system throws ends the process.\<close>

lemma create_ok:
  fixes m :: "'j manager"
  assumes "throwing_fs env" and "manager_ok m"
  shows "(\<exists>b m'. mg_create_collection env n p r m = Inr (b, m') \<and> manager_ok m') \<or>
    (\<exists>e. mg_create_collection env n p r m = Inl (Terminates e) \<and> fs_threw env e)"
proof -
  have "manager_ok m'" if "mg_create_collection env n p r m = Inr (b, m')" for b m'
    using manager_ok_step [OF step_create [OF that] assms(2)] .
  with create_ends [OF assms(1), of n p r m] show ?thesis by blast
qed

lemma good_create_empty: "good_command (mg_create_collection env n [] r)"
proof (rule good_step)
  fix m :: "'j manager"
  obtain b m' where "mg_create_collection env n [] r m = Inr (b, m')"
    by (simp add: mg_create_collection_def case_prod_unfold Let_def)
  then show "\<exists>b m'. mg_create_collection env n [] r m = Inr (b, m') \<and>
      (\<forall>J :: ('j, unit) json_ops. manager_step J m m')"
    by (metis step_create)
qed

lemma good_add: "good_command (mg_add_to_collection n p)"
proof (rule good_step)
  fix m :: "'j manager"
  obtain b m' where "mg_add_to_collection n p m = Inr (b, m')"
    using add_to_collection_cases [of n p m] by (auto split: option.splits)
  then show "\<exists>b m'. mg_add_to_collection n p m = Inr (b, m') \<and>
      (\<forall>J :: ('j, unit) json_ops. manager_step J m m')"
    by (metis step_add)
qed

lemma good_remove_wallpaper: "good_command (mg_remove_wallpaper n v)"
proof (rule good_step)
  fix m :: "'j manager"
  have "\<exists>r l'. remove_cache_item n v (mg_cache m) = Inr (r, l')"
    unfolding remove_cache_item_cases by (metis surj_pair)
  then obtain b m' where "mg_remove_wallpaper n v m = Inr (b, m')"
    by (auto simp: mg_remove_wallpaper_def)
  then show "\<exists>b m'. mg_remove_wallpaper n v m = Inr (b, m') \<and>
      (\<forall>J :: ('j, unit) json_ops. manager_step J m m')"
    by (metis step_remove_wallpaper)
qed

lemma good_move: "CHR 0x00 \<notin> set v \<Longrightarrow> good_command (mg_move_wallpaper k n v)"
proof (rule good_step)
  fix m :: "'j manager"
  assume v: "CHR 0x00 \<notin> set v"
  have "\<exists>r l'. move_cache_item k n v (mg_cache m) = Inr (r, l')"
    unfolding move_cache_item_cases [OF v] by (metis surj_pair)
  then obtain b m' where "mg_move_wallpaper k n v m = Inr (b, m')"
    by (auto simp: mg_move_wallpaper_def)
  with v show "\<exists>b m'. mg_move_wallpaper k n v m = Inr (b, m') \<and>
      (\<forall>J :: ('j, unit) json_ops. manager_step J m m')"
    by (metis step_move)
qed

lemma good_pure_commands:
  "good_command (\<lambda>m. Inr (mg_change_active n m))"
  "good_command (\<lambda>m. Inr (mg_remove_collection n m))"
  "good_command (\<lambda>m. Inr (mg_rename_collection k n m))"
  "CHR 0x00 \<notin> set k \<Longrightarrow> good_command (\<lambda>m. Inr (mg_merge_collection k n m))"
  by (rule good_pure_step, erule step_change step_remove step_rename step_merge, assumption?)+

end
