(* ===== verification/Application.thy ===== *)
theory Application
  imports Commands
begin

text \<open>
  The command line program: the option tables of \<^verbatim>\<open>src/src/change_app/wall_cmds.hpp\<close> and class
  \<^verbatim>\<open>application\<close> of \<^verbatim>\<open>wall_app.hpp\<close> and \<^verbatim>\<open>wall_app.cpp\<close>. The option parser is
  \<^verbatim>\<open>boost::program_options\<close> and a parameter: the options found by the first parse, the tokens
  it left over, and the function that parses them for a group. What is printed is a list of
  typed messages, whose text is in \<open>Printing\<close>.
\<close>

section \<open>The option tables\<close>

text \<open>\<^verbatim>\<open>po::value\<close> of a type; \<open>None\<close> is the null pointer of an option without argument.\<close>

datatype value_semantic = String_value | String_list_value | Int_value

record command_desc =
  command :: string
  description :: string
  semantic :: "value_semantic option"

definition desc :: "string \<Rightarrow> string \<Rightarrow> value_semantic option \<Rightarrow> command_desc" where
  "desc c d v = \<lparr>command = c, description = d, semantic = v\<rparr>"

datatype subcommand_e = GLOBAL | COLLECTION | CONFIG | HISTORY

definition global_options :: "command_desc list" where
  "global_options =
     [desc ''command'' ''command to execute'' (Some String_value),
      desc ''subargs'' ''arguments to command'' (Some String_list_value),
      desc ''next,n'' ''next wallpaper'' None,
      desc ''previous,p'' ''previous wallpaper'' None,
      desc ''current-info'' ''print informatin about current wallpaper'' None,
      desc ''mark-favorate'' ''mark current wallpaper as Favorate'' None,
      desc ''scrub'' ''drop references to removed path's and removed wallpaper's'' None,
      desc ''version'' ''Program version'' None,
      desc ''help,h'' ''Print Help Message'' None]"

definition collection_options :: "command_desc list" where
  "collection_options =
     [desc ''create'' ''create new collection. [Col] [Path] (Path Can Be Empty)'' (Some String_list_value),
      desc ''activate'' ''Activate Specified Collection. [Arg]'' (Some String_value),
      desc ''add'' ''add wallpaper to collection. [Col] [Wall]'' (Some String_list_value),
      desc ''remove'' ''remove collection or wallpaper from collection. [Col] or [Col] [wall]''
        (Some String_list_value),
      desc ''rename'' ''rename collection. [Col] [Arg]'' (Some String_list_value),
      desc ''merge'' ''merge two collection. [col1] [col2]'' (Some String_list_value),
      desc ''list'' ''list wallpapers in collection [Col]. If Col Is Empty List All Collections.''
        (Some String_value),
      desc ''move'' ''move wallpaper from one collection to another. [wall] [col1] [col2]''
        (Some String_list_value),
      desc ''validate'' ''validate all entries in specifed collection exist. [col]'' (Some String_value),
      desc ''help,h'' ''print help message'' None]"

definition config_options :: "command_desc list" where
  "config_options =
     [desc ''collect-favorates'' ''collect favorates in all collections to new favorate collection'' None,
      desc ''recursive-dir''
        ''recursively search directories when adding to a collection.[default = false]'' None,
      desc ''priority-favorate'' ''prioratize favorate collection first'' None,
      desc ''interval'' ''set change interval between wallpapers in hours.[default = 24]'' (Some Int_value),
      desc ''help,h'' ''print help message'' None]"

definition history_options :: "command_desc list" where
  "history_options =
     [desc ''reset-state'' ''reset state in all collections'' None,
      desc ''help,h'' ''print help message'' None]"

definition m_group_name :: "string list" where
  "m_group_name = [''global'', ''collection'', ''configuration'', ''history'']"

definition m_cmds :: "(string \<times> command_desc list) list" where
  "m_cmds = zip m_group_name [global_options, collection_options, config_options, history_options]"

text \<open>
  The constructor files every table under the group of the same name;
  \<^verbatim>\<open>m_group_vec[sub_cmd]\<close> reads them by position.
\<close>

definition m_group_vec :: "(string \<times> command_desc list) list" where
  "m_group_vec = map (\<lambda>n. (n, concat (map snd (filter (\<lambda>c. fst c = n) m_cmds)))) m_group_name"

primrec group_index :: "subcommand_e \<Rightarrow> nat" where
  "group_index GLOBAL = 0"
| "group_index COLLECTION = 1"
| "group_index CONFIG = 2"
| "group_index HISTORY = 3"

definition group_options :: "subcommand_e \<Rightarrow> command_desc list" where
  "group_options g = snd (m_group_vec ! group_index g)"

section \<open>Options and state\<close>

text \<open>A \<^verbatim>\<open>po::variables_map\<close>; reading a value as another type, or a missing one, throws.\<close>

datatype option_value = Flag | Text string | Texts "string list" | Number int

type_synonym options = "string \<rightharpoonup> option_value"

definition contains :: "options \<Rightarrow> string \<Rightarrow> bool" where
  "contains opts k \<longleftrightarrow> opts k \<noteq> None"

definition as_string :: "options \<Rightarrow> string \<Rightarrow> string result" where
  "as_string opts k = (case opts k of Some (Text s) \<Rightarrow> Inr s | _ \<Rightarrow> Inl (Throws Bad_any_cast))"

definition as_strings :: "options \<Rightarrow> string \<Rightarrow> string list result" where
  "as_strings opts k = (case opts k of Some (Texts xs) \<Rightarrow> Inr xs | _ \<Rightarrow> Inl (Throws Bad_any_cast))"

datatype printed =
    Usage "command_desc list" "string list"
  | Version_info
  | Group_help "command_desc list"
  | Unsupported string
  | Collections "string list"
  | Wall_table "string list list"
  | Validation report

record 'j application =
  ap_options :: options
  ap_state :: "'j manager"
  ap_printed :: "printed list"

text \<open>
  The parser: what \<^verbatim>\<open>collect_unrecognized\<close> returns with the positional arguments, and the
  parse of a token list by the options of a group.
\<close>

record parser =
  left_over :: "string list"
  parse_group :: "command_desc list \<Rightarrow> string list \<Rightarrow> options result"

definition new_application :: "options \<Rightarrow> 'j manager \<Rightarrow> 'j application" where
  "new_application opts m = \<lparr>ap_options = opts, ap_state = m, ap_printed = []\<rparr>"

definition print :: "printed \<Rightarrow> 'j application \<Rightarrow> 'j application" where
  "print p a = a\<lparr>ap_printed := ap_printed a @ [p]\<rparr>"

section \<open>Running a command\<close>

text \<open>
  \<^verbatim>\<open>m_process_commands\<close>: the first left-over token is dropped, the rest parsed and stored;
  \<^verbatim>\<open>po::store\<close> keeps the values that are already there.
\<close>

definition m_process_commands :: "parser \<Rightarrow> subcommand_e \<Rightarrow> 'j application \<Rightarrow> 'j application result" where
  "m_process_commands P sub_cmd a =
     (case left_over P of
        [] \<Rightarrow> Inl Undefined
      | _ # tokens \<Rightarrow>
          rbind (parse_group P (group_options sub_cmd) tokens) (\<lambda>parsed.
            let a' = a\<lparr>ap_options := parsed ++ ap_options a\<rparr>
            in Inr (if contains (ap_options a') ''help'' then print (Group_help (group_options sub_cmd)) a'
                    else a')))"

text \<open>
  A block of \<^verbatim>\<open>m_collection_cmds\<close> handles one option: it returns whether to go on with the
  next block, and the application after it.
\<close>

type_synonym 'j handler = "'j application \<Rightarrow> (bool \<times> 'j application) result"

definition on_state :: "('j manager \<Rightarrow> (bool \<times> 'j manager) result) \<Rightarrow> 'j handler" where
  "on_state f a = rbind (f (ap_state a)) (\<lambda>(b, m). Inr (b, a\<lparr>ap_state := m\<rparr>))"

definition when_given :: "string \<Rightarrow> 'j handler \<Rightarrow> 'j handler" where
  "when_given k h a = (if contains (ap_options a) k then h a else Inr (True, a))"

definition and_then :: "'j handler \<Rightarrow> 'j handler \<Rightarrow> 'j handler" where
  "and_then h k a = rbind (h a) (\<lambda>(go, a'). if go then k a' else Inr (False, a'))"

definition first_arg :: "string list \<Rightarrow> string result" where
  "first_arg res = (case res of [] \<Rightarrow> Inl Undefined | x # _ \<Rightarrow> Inr x)"

definition do_create :: "fs_calls \<Rightarrow> 'j handler" where
  "do_create env a =
     rbind (as_strings (ap_options a) ''create'') (\<lambda>res.
     if 2 \<le> length res
     then on_state (mg_create_collection env (res ! 0) (res ! 1) False) a
     else rbind (first_arg res) (\<lambda>name. on_state (mg_create_collection env name [] False) a))"

definition do_activate :: "'j handler" where
  "do_activate a = rbind (as_string (ap_options a) ''activate'') (\<lambda>res.
     on_state (\<lambda>m. Inr (mg_change_active res m)) a)"

text \<open>The rows of the table: a header, then number, name, path id and state of each item.\<close>

definition table_row :: "nat \<Rightarrow> string cache_item \<Rightarrow> string list" where
  "table_row idx x =
     [dec_string idx, cache_value x, dec_string (unat (loc x)), format_state (cache_state x)]"

definition do_list :: "'j handler" where
  "do_list a = rbind (as_string (ap_options a) ''list'') (\<lambda>res.
     Inr (True, print (
       if res = ''collections'' then Collections (mg_list_collection (ap_state a))
       else Wall_table ([''No'', ''Wallpaper'', ''PathID'', ''State''] #
         map (\<lambda>(idx, x). table_row idx x) (enumerate 0 (mg_get_cache res (ap_state a))))) a))"

definition do_add :: "'j handler" where
  "do_add a = rbind (as_strings (ap_options a) ''add'') (\<lambda>res.
     if length res = 2 then on_state (mg_add_to_collection (res ! 0) (res ! 1)) a else Inr (True, a))"

definition do_remove :: "'j handler" where
  "do_remove a = rbind (as_strings (ap_options a) ''remove'') (\<lambda>res.
     if 2 \<le> length res then on_state (mg_remove_wallpaper (res ! 0) (res ! 1)) a
     else rbind (first_arg res) (\<lambda>name. on_state (\<lambda>m. Inr (mg_remove_collection name m)) a))"

definition do_rename :: "'j handler" where
  "do_rename a = rbind (as_strings (ap_options a) ''rename'') (\<lambda>res.
     if length res = 2 then on_state (\<lambda>m. Inr (mg_rename_collection (res ! 0) (res ! 1) m)) a
     else Inr (True, a))"

definition do_merge :: "'j handler" where
  "do_merge a = rbind (as_strings (ap_options a) ''merge'') (\<lambda>res.
     if length res = 2 then on_state (\<lambda>m. Inr (mg_merge_collection (res ! 0) (res ! 1) m)) a
     else Inr (True, a))"

definition do_move :: "'j handler" where
  "do_move a = rbind (as_strings (ap_options a) ''move'') (\<lambda>res.
     if length res = 3 then on_state (mg_move_wallpaper (res ! 1) (res ! 2) (res ! 0)) a
     else Inr (True, a))"

text \<open>\<^verbatim>\<open>validate_collection\<close> prints its report.\<close>

definition do_validate :: "fs_calls \<Rightarrow> 'j handler" where
  "do_validate env a = rbind (as_string (ap_options a) ''validate'') (\<lambda>res.
     rbind (mg_validate_collection env res (ap_state a)) (\<lambda>(b, r, m).
       let a' = a\<lparr>ap_state := m\<rparr>
       in Inr (b, case r of Some rep \<Rightarrow> print (Validation rep) a' | None \<Rightarrow> a')))"

definition collection_handlers :: "fs_calls \<Rightarrow> (string \<times> 'j handler) list" where
  "collection_handlers env =
     [(''create'', do_create env), (''activate'', do_activate), (''list'', do_list),
      (''add'', do_add), (''remove'', do_remove), (''rename'', do_rename), (''merge'', do_merge),
      (''move'', do_move), (''validate'', do_validate env)]"

definition run_handlers :: "(string \<times> 'j handler) list \<Rightarrow> 'j handler" where
  "run_handlers hs = foldr (\<lambda>(k, h) rest. and_then (when_given k h) rest) hs (\<lambda>a. Inr (True, a))"

definition m_collection_cmds :: "parser \<Rightarrow> fs_calls \<Rightarrow> 'j application \<Rightarrow> 'j application result" where
  "m_collection_cmds P env a =
     rbind (m_process_commands P COLLECTION a) (\<lambda>a1.
     rbind (run_handlers (collection_handlers env) a1) (\<lambda>(go, a2). Inr a2))"

text \<open>
  \<^verbatim>\<open>run\<close>. The branches for \<^verbatim>\<open>next\<close>, \<^verbatim>\<open>previous\<close>, \<^verbatim>\<open>mark-favorate\<close>,
  \<^verbatim>\<open>current-info\<close> and \<^verbatim>\<open>scrub\<close> are empty.
\<close>

definition print_requested :: "'j application \<Rightarrow> 'j application" where
  "print_requested a =
     (let opts = ap_options a;
          a1 = (if \<not> contains opts ''command'' \<and> contains opts ''help''
                then print (Usage (drop 2 (group_options GLOBAL)) (drop 1 m_group_name)) a else a)
      in if contains opts ''version'' then print Version_info a1 else a1)"

definition dispatch :: "parser \<Rightarrow> fs_calls \<Rightarrow> 'j application \<Rightarrow> 'j application result" where
  "dispatch P env a =
     (let a2 = print_requested a
      in if contains (ap_options a) ''command''
         then rbind (as_string (ap_options a) ''command'') (\<lambda>cmd.
              if cmd = ''collection'' then m_collection_cmds P env a2
              else if cmd = ''configuration'' then m_process_commands P CONFIG a2
              else if cmd = ''history'' then m_process_commands P HISTORY a2
              else Inr (print (Unsupported cmd) a2))
         else Inr a2)"

definition run ::
    "('j, 't) json_ops \<Rightarrow> parser \<Rightarrow> fs_calls \<Rightarrow> string \<Rightarrow> (string \<Rightarrow> bool) \<Rightarrow> 'j application \<Rightarrow> 't files \<Rightarrow>
      (int \<times> 'j application \<times> 't files) result" where
  "run J P env data_dir can_write a fs =
     rbind (dispatch P env a) (\<lambda>a'.
     rbind (store_manager J data_dir can_write (ap_state a') fs) (\<lambda>fs'. Inr (0, a', fs')))"

text \<open>
  The constructor parses the arguments with the global options; the first of the others is the
  command, and all after it are kept.
\<close>

type_synonym first_parser = "command_desc list \<Rightarrow> (string \<times> int) list \<Rightarrow> string list \<Rightarrow> options result"

definition positional_options :: "(string \<times> int) list" where
  "positional_options = [(''command'', 1), (''subargs'', -1)]"

definition parse_arguments :: "first_parser \<Rightarrow> string list \<Rightarrow> options result" where
  "parse_arguments parse args = parse (group_options GLOBAL) positional_options args"

text \<open>
  The process: the members of the application are made first, the state among them, then the
  command line is parsed, which may throw.
\<close>

definition app_main ::
    "('j, 't) json_ops \<Rightarrow> first_parser \<Rightarrow> parser \<Rightarrow> fs_calls \<Rightarrow> string \<Rightarrow> (string \<Rightarrow> bool) \<Rightarrow> string list \<Rightarrow> 't files \<Rightarrow>
      (int \<times> 'j application \<times> 't files) result" where
  "app_main J parse P env data_dir can_write args fs =
     rbind (open_manager J data_dir fs) (\<lambda>m.
     rbind (parse_arguments parse args) (\<lambda>opts. run J P env data_dir can_write (new_application opts m) fs))"

section \<open>Options that fit their tables\<close>

text \<open>
  What the parser promises of the options it returns: each belongs to the table, under its
  long name, and its value has the declared type; a list has at least one element.
\<close>

definition option_key :: "command_desc \<Rightarrow> string" where
  "option_key d = takeWhile (\<lambda>c. c \<noteq> CHR '','') (command d)"

definition value_fits :: "value_semantic option \<Rightarrow> option_value \<Rightarrow> bool" where
  "value_fits s v = (case (s, v) of
      (None, Flag) \<Rightarrow> True
    | (Some String_value, Text _) \<Rightarrow> True
    | (Some String_list_value, Texts xs) \<Rightarrow> xs \<noteq> []
    | (Some Int_value, Number _) \<Rightarrow> True
    | _ \<Rightarrow> False)"

definition typed_options :: "command_desc list \<Rightarrow> options \<Rightarrow> bool" where
  "typed_options table opts \<longleftrightarrow>
     (\<forall>k v. opts k = Some v \<longrightarrow> (\<exists>d \<in> set table. option_key d = k \<and> value_fits (semantic d) v))"

text \<open>Arguments are C strings.\<close>

definition nul_free :: "option_value \<Rightarrow> bool" where
  "nul_free v = (case v of Text s \<Rightarrow> CHR 0x00 \<notin> set s | Texts xs \<Rightarrow> (\<forall>s \<in> set xs. CHR 0x00 \<notin> set s) | _ \<Rightarrow> True)"

definition good_options :: "options \<Rightarrow> bool" where
  "good_options opts \<longleftrightarrow> typed_options (global_options @ collection_options) opts \<and> (\<forall>v \<in> ran opts. nul_free v)"

lemma value_fits_simps [simp]:
  "value_fits None v \<longleftrightarrow> v = Flag"
  "value_fits (Some String_value) v \<longleftrightarrow> (\<exists>s. v = Text s)"
  "value_fits (Some String_list_value) v \<longleftrightarrow> (\<exists>x xs. v = Texts (x # xs))"
  "value_fits (Some Int_value) v \<longleftrightarrow> (\<exists>i. v = Number i)"
  by (auto simp: value_fits_def neq_Nil_conv split: option_value.splits)

lemma desc_simps [simp]:
  "option_key (desc c d s) = takeWhile (\<lambda>ch. ch \<noteq> CHR '','') c" "semantic (desc c d s) = s"
  by (simp_all add: option_key_def desc_def)

lemma good_strings:
  assumes "good_options opts" and "opts k = Some v"
    and "k \<in> {''create'', ''add'', ''remove'', ''rename'', ''merge'', ''move''}"
  obtains x xs where "opts k = Some (Texts (x # xs))" and "\<forall>s \<in> set (x # xs). CHR 0x00 \<notin> set s"
proof -
  have "\<exists>d \<in> set (global_options @ collection_options). option_key d = k \<and> value_fits (semantic d) v"
    using assms(1,2) by (simp add: good_options_def typed_options_def)
  with assms(3) obtain x xs where v: "v = Texts (x # xs)"
    by (auto simp: global_options_def collection_options_def)
  have "v \<in> ran opts" using assms(2) by (auto simp: ran_def)
  with assms(1) v have "\<forall>s \<in> set (x # xs). CHR 0x00 \<notin> set s" by (auto simp: good_options_def nul_free_def)
  with v assms(2) that show ?thesis by simp
qed

lemma good_string:
  assumes "good_options opts" and "opts k = Some v" and "k \<in> {''activate'', ''list'', ''validate''}"
  obtains s where "opts k = Some (Text s)"
proof -
  have "\<exists>d \<in> set (global_options @ collection_options). option_key d = k \<and> value_fits (semantic d) v"
    using assms(1,2) by (simp add: good_options_def typed_options_def)
  with assms(3) obtain s where "v = Text s"
    by (auto simp: global_options_def collection_options_def)
  with assms(2) that show ?thesis by simp
qed

section \<open>Handlers that keep the state in order\<close>

definition app_ok :: "'j application \<Rightarrow> bool" where
  "app_ok a \<longleftrightarrow> manager_ok (ap_state a) \<and> good_options (ap_options a)"

text \<open>
  A handler is safe if it returns, keeps the invariant and leaves the options alone. It is sound if
  it is safe, but that the process may end with what the file system throws, when an option asks
  for a command that looks at files.
\<close>

definition safe :: "'j handler \<Rightarrow> bool" where
  "safe h \<longleftrightarrow> (\<forall>a. app_ok a \<longrightarrow> (\<exists>go a'. h a = Inr (go, a') \<and> app_ok a' \<and> ap_options a' = ap_options a))"

definition reads_files :: "options \<Rightarrow> bool" where
  "reads_files opts \<longleftrightarrow> contains opts ''create'' \<or> contains opts ''validate''"

definition sound :: "fs_calls \<Rightarrow> 'j handler \<Rightarrow> bool" where
  "sound env h \<longleftrightarrow> (\<forall>a. app_ok a \<longrightarrow>
     (\<exists>go a'. h a = Inr (go, a') \<and> app_ok a' \<and> ap_options a' = ap_options a) \<or>
     (\<exists>e. h a = Inl (Terminates e) \<and> fs_threw env e \<and> reads_files (ap_options a)))"

lemma safe_sound: "safe h \<Longrightarrow> sound env h"
  by (simp add: safe_def sound_def)

lemma safe_when_given: "(\<And>a. app_ok a \<Longrightarrow> contains (ap_options a) k \<Longrightarrow>
    \<exists>go a'. h a = Inr (go, a') \<and> app_ok a' \<and> ap_options a' = ap_options a) \<Longrightarrow> safe (when_given k h)"
  by (auto simp: safe_def when_given_def)

lemma sound_when_given:
  assumes "k = ''create'' \<or> k = ''validate''"
    and "\<And>a. app_ok a \<Longrightarrow> contains (ap_options a) k \<Longrightarrow>
      (\<exists>go a'. h a = Inr (go, a') \<and> app_ok a' \<and> ap_options a' = ap_options a) \<or> (\<exists>e. h a = Inl (Terminates e) \<and> fs_threw env e)"
  shows "sound env (when_given k h)"
  using assms unfolding sound_def when_given_def reads_files_def by auto

lemma sound_and_then: "sound env h \<Longrightarrow> sound env k \<Longrightarrow> sound env (and_then h k)"
  unfolding sound_def and_then_def by (fastforce split: if_splits)

lemma sound_run_handlers: "(\<And>k h. (k, h) \<in> set hs \<Longrightarrow> sound env (when_given k h)) \<Longrightarrow> sound env (run_handlers hs)"
  by (induction hs) (auto simp: run_handlers_def sound_and_then sound_def [of env "\<lambda>a. Inr (True, a)"])

lemma app_ok_print [simp]: "app_ok (print p a) = app_ok a"
  by (simp add: app_ok_def print_def)

lemma options_printed [simp]: "ap_options (print p a) = ap_options a"
  by (simp add: print_def)

lemma good_on_state:
  "good_command f \<Longrightarrow> app_ok a \<Longrightarrow> \<exists>go a'. on_state f a = Inr (go, a') \<and> app_ok a' \<and> ap_options a' = ap_options a"
  by (fastforce simp: good_command_def on_state_def app_ok_def)

lemma given_strings:
  assumes "app_ok a" and "contains (ap_options a) k"
    and "k \<in> {''create'', ''add'', ''remove'', ''rename'', ''merge'', ''move''}"
  obtains x xs where "as_strings (ap_options a) k = Inr (x # xs)" and "\<forall>s \<in> set (x # xs). CHR 0x00 \<notin> set s"
proof -
  from assms(2) obtain v where "ap_options a k = Some v" by (auto simp: contains_def)
  then obtain x xs where "ap_options a k = Some (Texts (x # xs))" "\<forall>s \<in> set (x # xs). CHR 0x00 \<notin> set s"
    using assms(1,3) good_strings [of "ap_options a" k v] unfolding app_ok_def by metis
  with that show ?thesis by (simp add: as_strings_def)
qed

lemma given_string:
  assumes "app_ok a" and "contains (ap_options a) k" and "k \<in> {''activate'', ''list'', ''validate''}"
  obtains s where "as_string (ap_options a) k = Inr s"
proof -
  from assms(2) obtain v where "ap_options a k = Some v" by (auto simp: contains_def)
  then obtain s where "ap_options a k = Some (Text s)"
    using assms(1,3) good_string [of "ap_options a" k v] unfolding app_ok_def by metis
  with that show ?thesis by (simp add: as_string_def)
qed

lemma sound_create: "throwing_fs env \<Longrightarrow> sound env (when_given ''create'' (do_create env))"
proof (rule sound_when_given)
  fix a :: "'j application"
  assume env: "throwing_fs env" and a: "app_ok a" "contains (ap_options a) ''create''"
  from a obtain x xs where args: "as_strings (ap_options a) ''create'' = Inr (x # xs)"
    by (rule given_strings) simp_all
  have "(\<exists>go a'. on_state (mg_create_collection env n p r) a = Inr (go, a') \<and> app_ok a' \<and> ap_options a' = ap_options a) \<or>
      (\<exists>e. on_state (mg_create_collection env n p r) a = Inl (Terminates e) \<and> fs_threw env e)" for n p r
    using create_ok [OF env, of "ap_state a" n p r] a(1) by (auto simp: on_state_def app_ok_def)
  with args show "(\<exists>go a'. do_create env a = Inr (go, a') \<and> app_ok a' \<and> ap_options a' = ap_options a) \<or>
      (\<exists>e. do_create env a = Inl (Terminates e) \<and> fs_threw env e)"
    by (cases xs) (simp_all add: do_create_def first_arg_def)
qed simp

lemma safe_activate: "safe (when_given ''activate'' (do_activate))"
proof (rule safe_when_given)
  fix a :: "'j application"
  assume a: "app_ok a" "contains (ap_options a) ''activate''"
  from a obtain s where args: "as_string (ap_options a) ''activate'' = Inr s"
    by (rule given_string) simp_all
  show "\<exists>go a'. do_activate a = Inr (go, a') \<and> app_ok a' \<and> ap_options a' = ap_options a"
    using args a good_on_state [OF good_pure_commands(1) a(1)] by (simp add: do_activate_def)
qed

lemma safe_list: "safe (when_given ''list'' (do_list))"
proof (rule safe_when_given)
  fix a :: "'j application"
  assume a: "app_ok a" "contains (ap_options a) ''list''"
  from a obtain s where args: "as_string (ap_options a) ''list'' = Inr s"
    by (rule given_string) simp_all
  show "\<exists>go a'. do_list a = Inr (go, a') \<and> app_ok a' \<and> ap_options a' = ap_options a"
    using args a by (auto simp: do_list_def)
qed

lemma safe_add: "safe (when_given ''add'' (do_add))"
proof (rule safe_when_given)
  fix a :: "'j application"
  assume a: "app_ok a" "contains (ap_options a) ''add''"
  from a obtain x xs where args: "as_strings (ap_options a) ''add'' = Inr (x # xs)" "CHR 0x00 \<notin> set x"
    by (rule given_strings) simp_all
  show "\<exists>go a'. do_add a = Inr (go, a') \<and> app_ok a' \<and> ap_options a' = ap_options a"
    using args a good_on_state [OF good_add a(1)] by (auto simp: do_add_def)
qed

lemma safe_remove: "safe (when_given ''remove'' (do_remove))"
proof (rule safe_when_given)
  fix a :: "'j application"
  assume a: "app_ok a" "contains (ap_options a) ''remove''"
  from a obtain x xs where args: "as_strings (ap_options a) ''remove'' = Inr (x # xs)" "CHR 0x00 \<notin> set x"
    by (rule given_strings) simp_all
  show "\<exists>go a'. do_remove a = Inr (go, a') \<and> app_ok a' \<and> ap_options a' = ap_options a"
    using args a good_on_state [OF good_remove_wallpaper a(1)] good_on_state [OF good_pure_commands(2) a(1)]
    by (cases xs) (simp_all add: do_remove_def first_arg_def)
qed

lemma safe_rename: "safe (when_given ''rename'' (do_rename))"
proof (rule safe_when_given)
  fix a :: "'j application"
  assume a: "app_ok a" "contains (ap_options a) ''rename''"
  from a obtain x xs where args: "as_strings (ap_options a) ''rename'' = Inr (x # xs)" "CHR 0x00 \<notin> set x"
    by (rule given_strings) simp_all
  show "\<exists>go a'. do_rename a = Inr (go, a') \<and> app_ok a' \<and> ap_options a' = ap_options a"
    using args a good_on_state [OF good_pure_commands(3) a(1)] by (auto simp: do_rename_def)
qed

lemma safe_merge: "safe (when_given ''merge'' (do_merge))"
proof (rule safe_when_given)
  fix a :: "'j application"
  assume a: "app_ok a" "contains (ap_options a) ''merge''"
  from a obtain x xs where args: "as_strings (ap_options a) ''merge'' = Inr (x # xs)" "CHR 0x00 \<notin> set x"
    by (rule given_strings) simp_all
  show "\<exists>go a'. do_merge a = Inr (go, a') \<and> app_ok a' \<and> ap_options a' = ap_options a"
    using args a good_on_state [OF good_pure_commands(4) [OF args(2)] a(1)] by (auto simp: do_merge_def)
qed

lemma safe_move: "safe (when_given ''move'' (do_move))"
proof (rule safe_when_given)
  fix a :: "'j application"
  assume a: "app_ok a" "contains (ap_options a) ''move''"
  from a obtain x xs where args: "as_strings (ap_options a) ''move'' = Inr (x # xs)" "CHR 0x00 \<notin> set x"
    by (rule given_strings) simp_all
  show "\<exists>go a'. do_move a = Inr (go, a') \<and> app_ok a' \<and> ap_options a' = ap_options a"
    using args a good_on_state [OF good_move [OF args(2)] a(1)] by (auto simp: do_move_def)
qed

lemma sound_validate: "throwing_fs env \<Longrightarrow> sound env (when_given ''validate'' (do_validate env))"
proof (rule sound_when_given)
  fix a :: "'j application"
  assume env: "throwing_fs env" and a: "app_ok a" "contains (ap_options a) ''validate''"
  from a obtain s where args: "as_string (ap_options a) ''validate'' = Inr s"
    by (rule given_string) simp_all
  have ok: "manager_ok (ap_state a)" using a(1) by (simp add: app_ok_def)
  from validate_ends [OF env ok, of s]
  show "(\<exists>go a'. do_validate env a = Inr (go, a') \<and> app_ok a' \<and> ap_options a' = ap_options a) \<or>
      (\<exists>e. do_validate env a = Inl (Terminates e) \<and> fs_threw env e)"
  proof (elim disjE exE conjE)
    fix b r m' assume ret: "mg_validate_collection env s (ap_state a) = Inr (b, r, m')"
    have "manager_ok m'" using manager_ok_validate [OF ok ret] .
    then show ?thesis using args ret a(1)
      by (auto simp: do_validate_def Let_def app_ok_def print_def split: option.split)
  qed (use args in \<open>auto simp: do_validate_def\<close>)
qed simp

lemma sound_collection_handlers: "throwing_fs env \<Longrightarrow> sound env (run_handlers (collection_handlers env))"
  by (rule sound_run_handlers)
    (auto simp: collection_handlers_def sound_create sound_validate safe_activate [THEN safe_sound]
      safe_list [THEN safe_sound] safe_add [THEN safe_sound] safe_remove [THEN safe_sound]
      safe_rename [THEN safe_sound] safe_merge [THEN safe_sound] safe_move [THEN safe_sound])

lemma group_options_collection: "group_options COLLECTION = collection_options"
  by (simp add: group_options_def m_group_vec_def m_cmds_def m_group_name_def)

section \<open>Properties\<close>

text \<open>
  C23: every option a collection command reads is declared with the type it is read as. So in a
  state that commands can reach, with arguments that parse, a collection command never reads an
  argument past the end of a list or as another type, and either returns and keeps the invariant
  that every wallpaper can be resolved, or ends the process with what the file system threw: the
  functions that ask it are \<^verbatim>\<open>noexcept\<close>. This needs the option to create or to validate. It does
  happen when a collection is created from a path that exists and cannot be listed, such as a
  file.
\<close>

theorem collection_commands_safe:
  assumes "manager_ok (ap_state a)" and "throwing_fs env" and "left_over P = tok # tokens"
    and "parse_group P collection_options tokens = Inr parsed"
    and "good_options (parsed ++ ap_options a)"
  shows "((\<exists>a'. m_collection_cmds P env a = Inr a' \<and> manager_ok (ap_state a')) \<or>
      (\<exists>e. m_collection_cmds P env a = Inl (Terminates e) \<and> fs_threw env e \<and> reads_files (parsed ++ ap_options a))) \<and>
    (\<forall>n p rest e. (parsed ++ ap_options a) ''create'' = Some (Texts (n # p # rest)) \<and> p \<noteq> [] \<and>
      fs_exists env p = Inr True \<and> fs_entries env False p = Inl (Throws e) \<longrightarrow>
      m_collection_cmds P env a = Inl (Terminates e))"
proof -
  let ?a = "a\<lparr>ap_options := parsed ++ ap_options a\<rparr>"
  let ?a1 = "if contains (ap_options ?a) ''help'' then print (Group_help (group_options COLLECTION)) ?a else ?a"
  have processed: "m_process_commands P COLLECTION a = Inr ?a1"
    using assms(3,4) group_options_collection by (simp add: m_process_commands_def Let_def)
  have opts: "ap_options ?a1 = parsed ++ ap_options a" by simp
  have "app_ok ?a1" using assms(1,5) by (simp add: app_ok_def print_def)
  then have ends: "(\<exists>go a2. run_handlers (collection_handlers env) ?a1 = Inr (go, a2) \<and> app_ok a2) \<or>
      (\<exists>e. run_handlers (collection_handlers env) ?a1 = Inl (Terminates e) \<and> fs_threw env e \<and> reads_files (ap_options ?a1))"
    using sound_collection_handlers [OF assms(2)] unfolding sound_def by blast
  have ended: "run_handlers (collection_handlers env) ?a1 = Inl (Terminates e)"
    if "(parsed ++ ap_options a) ''create'' = Some (Texts (n # p # rest))" "p \<noteq> []"
      "fs_exists env p = Inr True" "fs_entries env False p = Inl (Throws e)" for n p rest e
  proof -
    have given: "contains (ap_options ?a1) ''create''" "as_strings (ap_options ?a1) ''create'' = Inr (n # p # rest)"
      using that(1) unfolding opts by (simp_all add: contains_def as_strings_def)
    then have "do_create env ?a1 = Inl (Terminates e)"
      using that(2-4) by (simp add: do_create_def on_state_def mg_create_collection_def)
    with given(1) show ?thesis
      by (simp add: run_handlers_def collection_handlers_def and_then_def when_given_def)
  qed
  show ?thesis
  proof (intro conjI allI impI)
    show "(\<exists>a'. m_collection_cmds P env a = Inr a' \<and> manager_ok (ap_state a')) \<or>
        (\<exists>e. m_collection_cmds P env a = Inl (Terminates e) \<and> fs_threw env e \<and> reads_files (parsed ++ ap_options a))"
      using ends processed opts by (auto simp: m_collection_cmds_def app_ok_def)
  qed (use ended processed in \<open>simp add: m_collection_cmds_def\<close>)
qed

definition sample_parser :: parser where
  "sample_parser = \<lparr>left_over = [''collection'', ''--create'', ''a'', ''/p''],
     parse_group = (\<lambda>opts tokens. Inr [''create'' \<mapsto> Texts (drop 1 tokens)])\<rparr>"

lemma good_sample_options:
  "good_options ([''create'' \<mapsto> Texts [''a'', ''/p'']] ++ [''command'' \<mapsto> Text ''collection''])"
proof -
  let ?opts = "[''create'' \<mapsto> Texts [''a'', ''/p''], ''command'' \<mapsto> Text ''collection'']"
  have "typed_options (global_options @ collection_options) ?opts"
    by (simp add: typed_options_def global_options_def collection_options_def)
  moreover have "nul_free v" if "v \<in> ran ?opts" for v
  proof -
    from that have "v = Text ''collection'' \<or> v = Texts [''a'', ''/p'']"
      by (auto simp: ran_def split: if_splits)
    then show ?thesis by (auto simp: nul_free_def)
  qed
  ultimately show ?thesis by (simp add: good_options_def)
qed

text \<open>The path \<^verbatim>\<open>/p\<close> is a directory in one file system and a regular file in the other.\<close>

definition sample_file_fs :: fs_calls where
  "sample_file_fs = sample_fs\<lparr>fs_entries := (\<lambda>r p. Inl (Throws Filesystem_error))\<rparr>"

lemma throwing_samples: "throwing_fs sample_fs" "throwing_fs sample_file_fs"
  by (simp_all add: throwing_fs_def sample_fs_def sample_file_fs_def)

theorem collection_commands_safe_witness:
  "(\<exists>a'. m_collection_cmds sample_parser sample_fs
      (new_application [''command'' \<mapsto> Text ''collection''] (new_manager :: json_tree manager)) = Inr a' \<and>
    manager_ok (ap_state a')) \<and>
   m_collection_cmds sample_parser sample_file_fs
      (new_application [''command'' \<mapsto> Text ''collection''] (new_manager :: json_tree manager)) = Inl (Terminates Filesystem_error)"
proof
  let ?a = "new_application [''command'' \<mapsto> Text ''collection''] (new_manager :: json_tree manager)"
  let ?parsed = "[''create'' \<mapsto> Texts [''a'', ''/p'']]"
  have h: "left_over sample_parser = ''collection'' # [''--create'', ''a'', ''/p'']"
    "parse_group sample_parser collection_options [''--create'', ''a'', ''/p''] = Inr ?parsed"
    by (simp_all add: sample_parser_def)
  have ok: "manager_ok (ap_state ?a)" "good_options (?parsed ++ ap_options ?a)"
    using good_sample_options by (simp_all add: new_application_def)
  have "\<not> fs_threw sample_fs e" for e by (simp add: fs_threw_def sample_fs_def)
  with collection_commands_safe [OF ok(1) throwing_samples(1) h ok(2)]
  show "\<exists>a'. m_collection_cmds sample_parser sample_fs ?a = Inr a' \<and> manager_ok (ap_state a')" by blast
  have "(?parsed ++ ap_options ?a) ''create'' = Some (Texts [''a'', ''/p''])" "fs_exists sample_file_fs ''/p'' = Inr True"
    "fs_entries sample_file_fs False ''/p'' = Inl (Throws Filesystem_error)"
    by (simp_all add: new_application_def sample_file_fs_def sample_fs_def)
  with collection_commands_safe [OF ok(1) throwing_samples(2) h ok(2), THEN conjunct2, rule_format, of "''a''" "''/p''" "[]" Filesystem_error]
  show "m_collection_cmds sample_parser sample_file_fs ?a = Inl (Terminates Filesystem_error)" by simp
qed

text \<open>
  Only the command \<^verbatim>\<open>collection\<close> can change the state. Every other run, with the options
  for the next or previous wallpaper or for a favourite as well, does nothing with it but
  store it: the branches of these options are empty.
\<close>

theorem other_commands_keep_state:
  assumes "ap_options a ''command'' \<noteq> Some (Text ''collection'')"
    and "run J P env d can_write a fs = Inr (code, a', fs')"
  shows "ap_state a' = ap_state a \<and> code = 0 \<and> store_manager J d can_write (ap_state a) fs = Inr fs'"
proof -
  from assms(2) have ret: "dispatch P env a = Inr a'" and code: "code = 0"
    and stored: "store_manager J d can_write (ap_state a') fs = Inr fs'"
    by (auto simp: run_def rbind_eq_Inr_iff)
  let ?a2 = "print_requested a"
  have a2: "ap_state ?a2 = ap_state a" by (simp add: print_requested_def print_def Let_def)
  have processed: "ap_state b = ap_state b'" if "m_process_commands P g b' = Inr b" for g b b'
    using that by (cases "left_over P") (auto simp: m_process_commands_def rbind_eq_Inr_iff Let_def print_def)
  have "ap_state a' = ap_state a"
  proof (cases "contains (ap_options a) ''command''")
    case False
    with ret have "a' = ?a2" by (simp add: dispatch_def Let_def)
    with a2 show ?thesis by simp
  next
    case True
    then obtain v where v: "ap_options a ''command'' = Some v" by (auto simp: contains_def)
    show ?thesis
    proof (cases v)
      case (Text cmd)
      with v assms(1) have "cmd \<noteq> ''collection''" by simp
      with True ret v Text have "(if cmd = ''configuration'' then m_process_commands P CONFIG ?a2
          else if cmd = ''history'' then m_process_commands P HISTORY ?a2
          else Inr (print (Unsupported cmd) ?a2)) = Inr a'"
        by (simp add: dispatch_def Let_def as_string_def)
      then show ?thesis
        using a2 processed [of CONFIG ?a2 a'] processed [of HISTORY ?a2 a']
        by (auto simp: print_def [of "Unsupported cmd"] split: if_split_asm)
    qed (use True ret v in \<open>simp_all add: dispatch_def Let_def as_string_def\<close>)
  qed
  with stored code show ?thesis by simp
qed

theorem other_commands_keep_state_witness:
  "\<exists>a' fs'. run json_tree_ops sample_parser sample_fs ''/d'' (\<lambda>_. True)
      (new_application [''next'' \<mapsto> Flag] sample_manager) Map.empty = Inr (0, a', fs') \<and>
    ap_state a' = sample_manager"
proof -
  let ?m = "sample_manager :: json_tree manager"
  let ?a = "new_application [''next'' \<mapsto> Flag] ?m"
  have "manager_ok ?m" by (rule manager_ok_sample)
  then obtain fs' where "store_manager json_tree_ops ''/d'' (\<lambda>_. True) ?m Map.empty = Inr fs'"
    using tree.store_open [of ?m "''/d''" Map.empty "\<lambda>_. True"]
    by (auto simp: manager_ok_def sample_active sample_collections_def sample_cache_def cache_count_def
        pt_insert_def pt_exists_iff empty_table_def)
  moreover have "dispatch sample_parser sample_fs ?a = Inr ?a"
    by (simp add: dispatch_def print_requested_def contains_def new_application_def)
  ultimately have ret: "run json_tree_ops sample_parser sample_fs ''/d'' (\<lambda>_. True) ?a Map.empty = Inr (0, ?a, fs')"
    by (simp add: run_def new_application_def)
  from other_commands_keep_state [OF _ ret] ret show ?thesis by (simp add: new_application_def)
qed

section \<open>The first session\<close>

text \<open>
  The options of the first parse of such a run: the command, and the other positional arguments;
  then the blocks that are skipped.
\<close>

definition only_positional :: "options \<Rightarrow> bool" where
  "only_positional opts \<longleftrightarrow> opts ''command'' = Some (Text ''collection'') \<and> dom opts \<subseteq> set (map fst positional_options)"

lemma only_positional_given:
  assumes "only_positional opts" and "k \<notin> {''command'', ''subargs''}"
  shows "opts k = None"
proof -
  have "k \<notin> dom opts" using assms by (auto simp: only_positional_def positional_options_def)
  then show ?thesis by blast
qed

lemma run_handlers_Cons:
  "run_handlers ((k, h) # hs) a =
    (if contains (ap_options a) k
     then rbind (h a) (\<lambda>(go, a'). if go then run_handlers hs a' else Inr (False, a'))
     else run_handlers hs a)"
  unfolding run_handlers_def by (simp add: and_then_def when_given_def)

lemma run_handlers_none:
  "\<forall>p \<in> set hs. \<not> contains (ap_options a) (fst p) \<Longrightarrow> run_handlers hs a = Inr (True, a)"
  by (induction hs) (auto simp: run_handlers_def and_then_def when_given_def)

lemma on_state_options: "on_state f a = Inr (go, a') \<Longrightarrow> ap_options a' = ap_options a"
  by (auto simp: on_state_def rbind_eq_Inr_iff)

lemma do_create_options: "do_create env a = Inr (go, a') \<Longrightarrow> ap_options a' = ap_options a"
  by (auto simp: do_create_def rbind_eq_Inr_iff dest: on_state_options split: if_splits)

lemma new_application_simps [simp]:
  "ap_options (new_application opts m) = opts" "ap_state (new_application opts m) = m"
  by (simp_all add: new_application_def)

lemma run_create:
  assumes "left_over P = tok # tokens"
    and "parse_group P collection_options tokens = Inr [''create'' \<mapsto> Texts args]" and "only_positional opts"
  shows "dispatch P env (new_application opts m) =
    rbind (do_create env (new_application (opts(''create'' \<mapsto> Texts args)) m))
      (\<lambda>(go, a). Inr (a :: 'j application))"
proof -
  let ?a = "new_application (opts(''create'' \<mapsto> Texts args)) m :: 'j application"
  note none = only_positional_given [OF assms(3)]
  have swap: "[''create'' \<mapsto> Texts args] ++ opts = ap_options ?a"
    using none [of "''create''"] by (auto simp: new_application_def map_add_def split: option.split)
  note group_options_collection
  with assms(1,2) swap none have "m_process_commands P COLLECTION (new_application opts m) = Inr ?a"
    by (simp add: m_process_commands_def new_application_def contains_def Let_def)
  moreover have "run_handlers (collection_handlers env) ?a = do_create env ?a"
  proof -
    have rest: "run_handlers (tl (collection_handlers env)) a' = Inr (True, a')"
      if "ap_options a' = ap_options ?a" for a'
      using that by (intro run_handlers_none)
        (auto simp: collection_handlers_def new_application_def contains_def none)
    have head: "collection_handlers env = (''create'', do_create env) # tl (collection_handlers env)"
      by (simp add: collection_handlers_def)
    have "run_handlers (collection_handlers env) ?a =
        rbind (do_create env ?a) (\<lambda>(go, a'). if go then run_handlers (tl (collection_handlers env)) a' else Inr (False, a'))"
      by (subst head) (simp add: run_handlers_Cons contains_def)
    also have "\<dots> = do_create env ?a"
    proof (cases "do_create env ?a")
      case (Inr r)
      with do_create_options [of env ?a "fst r" "snd r"] rest [of "snd r"] show ?thesis
        by (cases r) auto
    qed simp
    finally show ?thesis .
  qed
  moreover have "opts ''command'' = Some (Text ''collection'')" using assms(3) by (simp add: only_positional_def)
  ultimately show ?thesis
    by (simp add: dispatch_def print_requested_def contains_def as_string_def m_collection_cmds_def none)
qed

lemma first_run:
  assumes "json_library J" and "only_positional opts" and "left_over P = tok # tokens"
    and "parse_group P collection_options tokens = Inr [''create'' \<mapsto> Texts (n # args)]"
    and "fs_exists env p = Inr True" and "fs_entries env False p = Inr entries"
    and "p \<noteq> []" and "file_names entries \<noteq> []" and "args = [] \<or> args = [p]" and "\<And>f. can_write f"
  shows "if args = []
    then run J P env d can_write (new_application opts new_manager) Map.empty = Inl Undefined
    else \<exists>a' fs' m c. run J P env d can_write (new_application opts new_manager) Map.empty
        = Inr (0, a', fs') \<and> open_manager J d fs' = Inr m \<and> mg_list_collection m = [n] \<and>
      active_coherent (mg_cache m) \<and> active_cache_name (mg_cache m) = n \<and> lib_map (mg_cache m) n = Some c \<and>
      m_list c = map (\<lambda>v. make_item v Unused (path_hash p)) (first_occurrences (file_names entries))"
proof (cases "args = []")
  case True
  let ?l = "\<lparr>m_cache_vec = [(n, empty_cache)], m_current = 0, m_active_name = []\<rparr>"
  have "mg_create_collection env n [] False (new_manager :: 'a manager) =
      Inr (True, \<lparr>mg_cache = ?l, mg_path_buf = empty_table, mg_previous = []\<rparr>)"
    by (simp add: mg_create_collection_def new_manager_def new_lib_def lib_insert_cases cache_list_def succeeded_def)
  then have "dispatch P env (new_application opts (new_manager :: 'a manager)) =
      Inr ((new_application (opts(''create'' \<mapsto> Texts [n])) new_manager)
        \<lparr>ap_state := \<lparr>mg_cache = ?l, mg_path_buf = empty_table, mg_previous = []\<rparr>\<rparr>)"
    using True assms(3,4)
    by (simp add: run_create [OF _ _ assms(2)] do_create_def as_strings_def first_arg_def on_state_def)
  with True show ?thesis
    by (simp add: run_def store_manager_def pt_save_def empty_table_def serialize_lib_def lib_modified_cases)
next
  case False
  then have args: "args = [p]" using assms(9) by simp
  let ?c = "fold (inserter (path_hash p)) entries empty_cache"
  let ?m = "\<lparr>mg_cache = \<lparr>m_cache_vec = [(n, ?c)], m_current = 0, m_active_name = []\<rparr>,
      mg_path_buf = pt_insert p empty_table, mg_previous = []\<rparr> :: 'a manager"
  have created: "mg_create_collection env n p False new_manager = Inr (True, ?m)"
    using assms(5-7)
    by (simp add: mg_create_collection_def new_manager_def new_lib_def lib_insert_cases cache_list_def succeeded_def)
  then have "manager_ok ?m" by (rule manager_ok_create [rotated]) simp
  have "m_modified ?c" using assms(8) by (simp add: fold_inserter modified_load)
  have list: "m_list ?c = map (\<lambda>v. make_item v Unused (path_hash p)) (first_occurrences (file_names entries))"
    by (rule m_list_created)
  obtain fs' where fs': "store_manager J d can_write ?m Map.empty = Inr fs'" "open_manager J d fs' = Inr (reopened ?m)"
    using json_library.store_open [OF assms(1), of ?m d Map.empty can_write] \<open>manager_ok ?m\<close> \<open>m_modified ?c\<close> assms(10)
    by (auto simp: manager_ok_def cache_count_def pt_insert_def pt_exists_iff empty_table_def)
  have "first_occurrences (m_list ?c) = m_list ?c"
    unfolding list by (rule first_occurrences_distinct) (simp add: distinct_map inj_on_def make_item_def)
  moreover have "run J P env d can_write (new_application opts new_manager) Map.empty
      = Inr (0, (new_application (opts(''create'' \<mapsto> Texts [n, p])) new_manager)\<lparr>ap_state := ?m\<rparr>, fs')"
    using assms(3,4) args created fs'(1)
    by (simp add: run_def run_create [OF _ _ assms(2)] do_create_def as_strings_def on_state_def)
  ultimately show ?thesis
    using fs'(2) False list
    by (auto simp: reopened_def mg_list_collection_def reloaded_lib_def cache_list_def active_coherent_def
        active_cache_name_def lib_map_def reloaded_def)
qed

text \<open>
  C22: a first session, in which the first parse of the arguments finds the command and, as its
  positional arguments, what follows it. Creating a collection from a directory with at least one file and
  reopening the program gives exactly this collection, active, with the first occurrences of
  the file names. Creating one without a path instead has undefined behaviour: no collection is
  modified, and storing the library dereferences the end iterator.
\<close>

theorem first_session:
  assumes "json_library J" and "parse_arguments parse argv = Inr opts" and "only_positional opts" and "left_over P = tok # tokens"
    and "parse_group P collection_options tokens = Inr [''create'' \<mapsto> Texts (n # args)]"
    and "fs_exists env p = Inr True" and "fs_entries env False p = Inr entries"
    and "p \<noteq> []" and "file_names entries \<noteq> []" and "args = [] \<or> args = [p]" and "\<And>f. can_write f"
  shows "if args = []
    then app_main J parse P env d can_write argv Map.empty = Inl Undefined
    else \<exists>a' fs' m c. app_main J parse P env d can_write argv Map.empty
        = Inr (0, a', fs') \<and> open_manager J d fs' = Inr m \<and> mg_list_collection m = [n] \<and>
      active_coherent (mg_cache m) \<and> active_cache_name (mg_cache m) = n \<and> lib_map (mg_cache m) n = Some c \<and>
      m_list c = map (\<lambda>v. make_item v Unused (path_hash p)) (first_occurrences (file_names entries))"
proof -
  have "app_main J parse P env d can_write argv Map.empty =
      run J P env d can_write (new_application opts new_manager) Map.empty"
    by (simp add: app_main_def open_new_manager assms(2))
  then show ?thesis
    using first_run [OF assms(1,3-10), where d = d and can_write = can_write] assms(11) by metis
qed

text \<open>The first parse files what follows the command as its arguments.\<close>

definition sample_arguments :: options where
  "sample_arguments = [''command'' \<mapsto> Text ''collection'', ''subargs'' \<mapsto> Texts [''a'', ''/p'']]"

theorem first_session_witness:
  "\<exists>a' fs' m. app_main json_tree_ops (\<lambda>_ _ _. Inr sample_arguments) sample_parser sample_fs
      ''/d'' (\<lambda>_. True) [''changer'', ''collection'', ''--create'', ''a'', ''/p''] Map.empty = Inr (0, a', fs') \<and>
    open_manager json_tree_ops ''/d'' fs' = Inr m \<and> mg_list_collection m = [''a'']"
proof -
  have h: "parse_arguments (\<lambda>_ _ _. Inr sample_arguments) [''changer'', ''collection'', ''--create'', ''a'', ''/p''] =
      Inr sample_arguments"
    "only_positional sample_arguments"
    "left_over sample_parser = ''collection'' # [''--create'', ''a'', ''/p'']"
    "parse_group sample_parser collection_options [''--create'', ''a'', ''/p''] = Inr [''create'' \<mapsto> Texts (''a'' # [''/p''])]"
    "fs_exists sample_fs ''/p'' = Inr True"
    "fs_entries sample_fs False ''/p'' = Inr [(''/p/x'', False), (''/p/sub'', True), (''/p/y'', False)]"
    "''/p'' \<noteq> []" "file_names [(''/p/x'', False), (''/p/sub'', True), (''/p/y'', False)] \<noteq> []"
    by (simp_all add: sample_parser_def sample_fs_def file_names_def parse_arguments_def only_positional_def
        positional_options_def sample_arguments_def)
  show ?thesis
    using first_session [OF tree_library h, of "\<lambda>_. True" "''/d''"] by auto
qed

end
