(* ===== verification/Known_Folders.thy ===== *)
theory Known_Folders
  imports Prelude "HOL-Library.Mapping"
begin

text \<open>
  The directories of the program on Linux: the table of
  \<^verbatim>\<open>src/src/change_lib/platform/linux/linux_known_folders.cpp\<close> with its reader of
  \<^verbatim>\<open>user-dirs.dirs\<close>, \<^verbatim>\<open>get_path\<close> of \<^verbatim>\<open>known-folders.cpp\<close> and the directories of
  \<^verbatim>\<open>helpers.cpp\<close>. What the process asks the system for is one record: the user id, the variable
  \<^verbatim>\<open>HOME\<close>, the password entry, the current directory and the files that open, by path.
\<close>

section \<open>The folders and their table\<close>

datatype Folders =
    home | documents | pictures | music | videos | desktop | downloads | pub | fonts | app_menu
  | cache | roaming_configuration | local_configuration | global_configuration | data
  | runtime | executable_dir

definition folder_number :: "Folders \<Rightarrow> u8" where
  "folder_number f = (case f of
     home \<Rightarrow> 0 | documents \<Rightarrow> 1 | pictures \<Rightarrow> 2 | music \<Rightarrow> 3 | videos \<Rightarrow> 4 | desktop \<Rightarrow> 5
   | downloads \<Rightarrow> 6 | pub \<Rightarrow> 7 | fonts \<Rightarrow> 8 | app_menu \<Rightarrow> 9 | cache \<Rightarrow> 10
   | roaming_configuration \<Rightarrow> 11 | local_configuration \<Rightarrow> 12 | global_configuration \<Rightarrow> 13
   | data \<Rightarrow> 14 | runtime \<Rightarrow> 15 | executable_dir \<Rightarrow> 16)"

type_synonym folder_table = "(u8, string) mapping"

text \<open>\<^verbatim>\<open>emplace\<close> keeps what is there; the subscript inserts the empty string for a new key.\<close>

definition emplace :: "Folders \<Rightarrow> string \<Rightarrow> folder_table \<Rightarrow> folder_table" where
  "emplace f v t = 
     (case Mapping.lookup t (folder_number f) of
        None \<Rightarrow> Mapping.update (folder_number f) v t | Some _ \<Rightarrow> t)"

definition subscript :: "Folders \<Rightarrow> folder_table \<Rightarrow> string \<times> folder_table" where
  "subscript f t = (case Mapping.lookup t (folder_number f) of
     Some v \<Rightarrow> (v, t) | None \<Rightarrow> ([], Mapping.update (folder_number f) [] t))"

record environment =
  env_uid :: u32
  env_home :: "string option"
  env_pw_dir :: "string option"
  env_cwd :: string
  env_file :: "string \<Rightarrow> string option"

text \<open>Without a password entry \<^verbatim>\<open>getpwuid_r\<close> leaves the pointer null that is then read.\<close>

definition get_home :: "environment \<Rightarrow> string result" where
  "get_home env =
     (if env_uid env \<noteq> 0 \<and> env_home env \<noteq> None then Inr (the (env_home env))
      else case env_pw_dir env of None \<Rightarrow> Inl Undefined | Some d \<Rightarrow> Inr d)"

section \<open>The reader of user-dirs.dirs\<close>

text \<open>\<^verbatim>\<open>std::getline\<close> until it fails: a last line need not end in a newline.\<close>

fun getlines :: "string \<Rightarrow> string list" where
  "getlines [] = []"
| "getlines (c # cs) =
     (if c = CHR 0x0A then [] # getlines cs
      else case getlines cs of [] \<Rightarrow> [[c]] | l # ls \<Rightarrow> (c # l) # ls)"

text \<open>\<^verbatim>\<open>views::split\<close> by one character; an empty range has no parts.\<close>

fun split_more :: "char \<Rightarrow> string \<Rightarrow> string list" where
  "split_more d [] = [[]]"
| "split_more d (c # cs) =
     (if c = d then [] # split_more d cs
      else case split_more d cs of [] \<Rightarrow> [[c]] | p # ps \<Rightarrow> (c # p) # ps)"

definition split_at :: "char \<Rightarrow> string \<Rightarrow> string list" where
  "split_at d s = (if s = [] then [] else split_more d s)"

definition vector_at :: "'a list \<Rightarrow> nat \<Rightarrow> 'a result" where
  "vector_at xs i = (if i < length xs then Inr (xs ! i) else Inl (Throws Std_out_of_range))"

text \<open>The position of the first occurrence, \<open>None\<close> for \<^verbatim>\<open>npos\<close>.\<close>

fun string_find :: "string \<Rightarrow> string \<Rightarrow> nat option" where
  "string_find pat [] = (if pat = [] then Some 0 else None)"
| "string_find pat (c # cs) =
     (if take (length pat) (c # cs) = pat then Some 0
      else case string_find pat cs of None \<Rightarrow> None | Some i \<Rightarrow> Some (Suc i))"

text \<open>\<^verbatim>\<open>replace\<close> refuses a position past the end, which \<^verbatim>\<open>npos\<close> is.\<close>

definition string_replace :: "nat option \<Rightarrow> nat \<Rightarrow> string \<Rightarrow> string \<Rightarrow> string result" where
  "string_replace pos n new s = (case pos of
     None \<Rightarrow> Inl (Throws Std_out_of_range)
   | Some i \<Rightarrow> if i \<le> length s then Inr (take i s @ new @ drop (i + n) s)
              else Inl (Throws Std_out_of_range))"

text \<open>\<^verbatim>\<open>erase(find(s, c))\<close>: the end iterator must not be erased.\<close>

definition erase_first :: "char \<Rightarrow> string \<Rightarrow> string result" where
  "erase_first c s =
     (let i = find_pos (\<lambda>d. d = c) s in if i < length s then Inr (erase_at i s) else Inl Undefined)"

definition file_folder :: "string \<Rightarrow> folder_table \<Rightarrow> string \<Rightarrow> folder_table" where
  "file_folder first t second =
     (let t1 = if first = ''XDG_DESKTOP_DIR'' then emplace desktop second t else t;
          t2 = if first = ''XDG_DOWNLOAD_DIR'' then emplace downloads second t1 else t1;
          t3 = if first = ''XDG_PUBLICSHARE_DIR'' then emplace pub second t2 else t2;
          t4 = if first = ''XDG_DOCUMENTS_DIR'' then emplace documents second t3 else t3;
          t5 = if first = ''XDG_MUSIC_DIR'' then emplace music second t4 else t4;
          t6 = if first = ''XDG_PICTURES_DIR'' then emplace pictures second t5 else t5;
          t7 = if first = ''XDG_VIDEOS_DIR'' then emplace videos second t6 else t6
      in t7)"

definition user_dirs_line :: "string \<Rightarrow> folder_table \<Rightarrow> folder_table result" where
  "user_dirs_line line t =
     (if CHR ''#'' \<notin> set line
      then let pair = split_at (CHR ''='') line in
        rbind (vector_at pair 0) (\<lambda>first.
        rbind (vector_at pair 1) (\<lambda>value.
          let pos = string_find ''$HOME'' value; (home_dir, t1) = subscript home t in
        rbind (string_replace pos 5 home_dir value) (\<lambda>s1.
        rbind (erase_first (CHR 0x22) s1) (\<lambda>s2.
        rbind (erase_first (CHR 0x22) s2) (\<lambda>s3.
          Inr (file_folder first t1 s3))))))
      else Inr t)"

primrec user_dirs_lines :: "string list \<Rightarrow> folder_table \<Rightarrow> folder_table result" where
  "user_dirs_lines [] t = Inr t"
| "user_dirs_lines (l # ls) t = rbind (user_dirs_line l t) (user_dirs_lines ls)"

section \<open>The table and its clients\<close>

definition fixed_folders :: "environment \<Rightarrow> string \<Rightarrow> folder_table \<Rightarrow> folder_table" where
  "fixed_folders env h t =
     emplace executable_dir (env_cwd env) (emplace runtime ''/tmp'' (emplace global_configuration ''/etc''
       (emplace data (h @ ''/.local/share'') (emplace fonts (h @ ''/.local/share/fonts'')
         (emplace app_menu (h @ ''/.local/share/applications'')
           (emplace roaming_configuration (h @ ''/.config'') (emplace local_configuration (h @ ''/.config'')
             (emplace cache (h @ ''/.cache'') (emplace home h t)))))))))"

definition init :: "environment \<Rightarrow> folder_table \<Rightarrow> folder_table result" where
  "init env t =
     rbind (get_home env) (\<lambda>h.
       let t1 = fixed_folders env h t; (home_dir, t2) = subscript home t1
       in case env_file env (home_dir @ ''/.config/user-dirs.dirs'') of
            None \<Rightarrow> Inr t2
          | Some content \<Rightarrow> user_dirs_lines (getlines content) t2)"

text \<open>
  The table lives as long as the process; the call gives the path and the table after it. An
  exception ends the program, nothing above catches it.
\<close>

definition linux_get_path :: "environment \<Rightarrow> Folders \<Rightarrow> folder_table \<Rightarrow> (string \<times> folder_table) result" where
  "linux_get_path env fld t =
     (if Mapping.is_empty t then rbind (init env t) (\<lambda>t1. Inr (subscript fld t1))
      else Inr (subscript fld t))"

definition get_path :: "environment \<Rightarrow> Folders \<Rightarrow> folder_table \<Rightarrow> (string \<times> folder_table) result" where
  "get_path env folder t = linux_get_path env folder t"

definition in_directory :: "(string \<times> folder_table) result \<Rightarrow> (string \<times> folder_table) result" where
  "in_directory r = rbind r (\<lambda>(ret, t). Inr (ret @ ''/wallchanger'', t))"

definition data_directory :: "environment \<Rightarrow> folder_table \<Rightarrow> (string \<times> folder_table) result" where
  "data_directory env t = in_directory (get_path env data t)"

definition config_directory :: "environment \<Rightarrow> folder_table \<Rightarrow> (string \<times> folder_table) result" where
  "config_directory env t = in_directory (get_path env local_configuration t)"

definition cache_directory :: "environment \<Rightarrow> folder_table \<Rightarrow> (string \<times> folder_table) result" where
  "cache_directory env t = in_directory (get_path env cache t)"

section \<open>Reading back a written file\<close>

text \<open>The XDG name under which a folder is stored, and the folders the program fixes itself.\<close>

definition xdg_name :: "Folders \<Rightarrow> string option" where
  "xdg_name f = (case f of
     desktop \<Rightarrow> Some ''XDG_DESKTOP_DIR'' | downloads \<Rightarrow> Some ''XDG_DOWNLOAD_DIR''
   | pub \<Rightarrow> Some ''XDG_PUBLICSHARE_DIR'' | documents \<Rightarrow> Some ''XDG_DOCUMENTS_DIR''
   | music \<Rightarrow> Some ''XDG_MUSIC_DIR'' | pictures \<Rightarrow> Some ''XDG_PICTURES_DIR''
   | videos \<Rightarrow> Some ''XDG_VIDEOS_DIR'' | _ \<Rightarrow> None)"

definition fixed_path :: "environment \<Rightarrow> string \<Rightarrow> Folders \<Rightarrow> string option" where
  "fixed_path env h f = (case f of
     home \<Rightarrow> Some h | cache \<Rightarrow> Some (h @ ''/.cache'') | local_configuration \<Rightarrow> Some (h @ ''/.config'')
   | roaming_configuration \<Rightarrow> Some (h @ ''/.config'')
   | app_menu \<Rightarrow> Some (h @ ''/.local/share/applications'') | fonts \<Rightarrow> Some (h @ ''/.local/share/fonts'')
   | data \<Rightarrow> Some (h @ ''/.local/share'') | global_configuration \<Rightarrow> Some ''/etc''
   | runtime \<Rightarrow> Some ''/tmp'' | executable_dir \<Rightarrow> Some (env_cwd env) | _ \<Rightarrow> None)"

text \<open>A file as \<^verbatim>\<open>xdg-user-dirs\<close> writes it: comments and directories below the home directory.\<close>

datatype user_dirs_entry = Comment string | Entry string string

primrec entry_line :: "user_dirs_entry \<Rightarrow> string" where
  "entry_line (Comment c) = CHR ''#'' # c"
| "entry_line (Entry n s) = n @ ''='' @ [CHR 0x22] @ ''$HOME'' @ s @ [CHR 0x22]"

definition user_dirs_file :: "user_dirs_entry list \<Rightarrow> string" where
  "user_dirs_file es = concat (map (\<lambda>e. entry_line e @ [CHR 0x0A]) es)"

definition plain_text :: "string \<Rightarrow> bool" where
  "plain_text s \<longleftrightarrow> list_all (\<lambda>c. c \<noteq> CHR 0x0A \<and> c \<noteq> CHR 0x22 \<and> c \<noteq> CHR ''='' \<and> c \<noteq> CHR ''#'') s"

primrec clean_entry :: "user_dirs_entry \<Rightarrow> bool" where
  "clean_entry (Comment c) \<longleftrightarrow> CHR 0x0A \<notin> set c"
| "clean_entry (Entry n s) \<longleftrightarrow> plain_text n \<and> plain_text s"

primrec entries :: "user_dirs_entry list \<Rightarrow> (string \<times> string) list" where
  "entries [] = []"
| "entries (e # es) = (case e of Comment _ \<Rightarrow> entries es | Entry n s \<Rightarrow> (n, s) # entries es)"

lemma folder_number_eq [simp]: "folder_number f = folder_number g \<longleftrightarrow> f = g"
  by (cases f; cases g; simp add: folder_number_def)

lemma lookup_emplace:
  "Mapping.lookup (emplace f v t) (folder_number g) =
    (if f = g \<and> Mapping.lookup t (folder_number g) = None then Some v else Mapping.lookup t (folder_number g))"
  by (auto simp: emplace_def lookup_update' split: option.splits)

lemma subscript_known: "Mapping.lookup t (folder_number f) = Some v \<Longrightarrow> subscript f t = (v, t)"
  by (simp add: subscript_def)

lemma lookup_fixed_folders:
  "Mapping.lookup (fixed_folders env h Mapping.empty) (folder_number f) = fixed_path env h f"
  by (cases f) (simp_all add: fixed_folders_def lookup_emplace fixed_path_def)

lemma lookup_file_folder:
  "Mapping.lookup (file_folder n t v) (folder_number f) =
    (if Mapping.lookup t (folder_number f) = None \<and> xdg_name f = Some n then Some v
     else Mapping.lookup t (folder_number f))"
  by (cases f) (auto simp: file_folder_def lookup_emplace xdg_name_def Let_def)

lemma getlines_line: "CHR 0x0A \<notin> set l \<Longrightarrow> getlines (l @ CHR 0x0A # rest) = l # getlines rest"
  by (induction l) auto

lemma entry_line_clean: "clean_entry e \<Longrightarrow> CHR 0x0A \<notin> set (entry_line e)"
  by (cases e) (auto simp: plain_text_def list_all_iff)

lemma getlines_file:
  "list_all clean_entry es \<Longrightarrow> getlines (user_dirs_file es @ rest) = map entry_line es @ getlines rest"
  by (induction es) (auto simp: user_dirs_file_def getlines_line entry_line_clean)

lemma split_more_none: "d \<notin> set s \<Longrightarrow> split_more d s = [s]"
  by (induction s) auto

lemma split_more_append: "d \<notin> set n \<Longrightarrow> split_more d (n @ d # s) = n # split_more d s"
  by (induction n) auto

lemma erase_first_append: "c \<notin> set xs \<Longrightarrow> erase_first c (xs @ c # ys) = Inr (xs @ ys)"
proof -
  assume "c \<notin> set xs"
  then have "find_pos (\<lambda>d. d = c) (xs @ c # ys) = length xs" by (induction xs) auto
  then show ?thesis by (simp add: erase_first_def erase_at_def Let_def)
qed

lemma user_dirs_entry_line:
  assumes "clean_entry (Entry n s)" and "Mapping.lookup t (folder_number home) = Some h" and "CHR 0x22 \<notin> set h"
  shows "user_dirs_line (entry_line (Entry n s)) t = Inr (file_folder n t (h @ s))"
proof -
  let ?v = "CHR 0x22 # ''$HOME'' @ s @ [CHR 0x22]"
  have clean: "CHR ''='' \<notin> set n" "CHR ''='' \<notin> set s" "CHR ''#'' \<notin> set n" "CHR ''#'' \<notin> set s"
    "CHR 0x22 \<notin> set s"
    using assms(1) by (auto simp: plain_text_def list_all_iff)
  then have split: "split_at (CHR ''='') (entry_line (Entry n s)) = [n, ?v]"
    by (simp add: split_at_def split_more_append split_more_none)
  have hash: "CHR ''#'' \<notin> set (entry_line (Entry n s))" using clean by simp
  have find: "string_find ''$HOME'' ?v = Some 1" by simp
  have "erase_first (CHR 0x22) (CHR 0x22 # h @ s @ [CHR 0x22]) = Inr (h @ s @ [CHR 0x22])"
    using erase_first_append [of "CHR 0x22" "[]"] by simp
  moreover have "erase_first (CHR 0x22) (h @ s @ [CHR 0x22]) = Inr (h @ s)"
    using erase_first_append [of "CHR 0x22" "h @ s" "[]"] assms(3) clean by simp
  ultimately show ?thesis
    unfolding user_dirs_line_def if_P [OF hash] split find Let_def
    by (simp add: vector_at_def subscript_known [OF assms(2)] string_replace_def)
qed

lemma user_dirs_lines_append:
  "user_dirs_lines (xs @ ys) t = rbind (user_dirs_lines xs t) (user_dirs_lines ys)"
  by (induction xs arbitrary: t) (auto simp: rbind_def split: sum.splits)

lemma user_dirs_lines_entries:
  assumes "list_all clean_entry es" and "Mapping.lookup t (folder_number home) = Some h" and "CHR 0x22 \<notin> set h"
  shows "\<exists>t'. user_dirs_lines (map entry_line es) t = Inr t' \<and>
    (\<forall>f. Mapping.lookup t' (folder_number f) = (case Mapping.lookup t (folder_number f) of
       Some v \<Rightarrow> Some v | None \<Rightarrow> map_option (\<lambda>s. h @ s) (Option.bind (xdg_name f) (map_of (entries es)))))"
  using assms(1,2)
proof (induction es arbitrary: t)
  case Nil
  then show ?case by (auto split: option.splits bind_splits)
next
  case (Cons e es)
  show ?case
  proof (cases e)
    case (Comment c)
    then have "entries (e # es) = entries es" "user_dirs_line (entry_line e) t = Inr t"
      by (simp_all add: user_dirs_line_def)
    with Cons.IH [OF _ Cons.prems(2)] Cons.prems(1) show ?thesis
      unfolding \<open>entries (e # es) = entries es\<close> by simp
  next
    case (Entry n s)
    let ?t1 = "file_folder n t (h @ s)"
    have "Mapping.lookup ?t1 (folder_number home) = Some h"
      using Cons.prems by (simp add: lookup_file_folder)
    from Cons.IH [OF _ this] Cons.prems(1) obtain t'
      where t': "user_dirs_lines (map entry_line es) ?t1 = Inr t'"
        "\<forall>f. Mapping.lookup t' (folder_number f) = (case Mapping.lookup ?t1 (folder_number f) of
          Some v \<Rightarrow> Some v | None \<Rightarrow> map_option (\<lambda>s. h @ s) (Option.bind (xdg_name f) (map_of (entries es))))"
      by auto
    have "user_dirs_lines (map entry_line (e # es)) t = Inr t'"
      using Entry Cons.prems user_dirs_entry_line [OF _ Cons.prems(2) assms(3), of n s] t'(1) by simp
    moreover have "Mapping.lookup t' (folder_number f) = (case Mapping.lookup t (folder_number f) of
        Some v \<Rightarrow> Some v | None \<Rightarrow> map_option (\<lambda>s. h @ s) (Option.bind (xdg_name f) (map_of (entries (e # es)))))" for f
      using t'(2) Entry by (cases "xdg_name f") (auto simp: lookup_file_folder split: option.splits)
    ultimately show ?thesis by blast
  qed
qed

text \<open>The path a folder has for the rest of the process, after the first call.\<close>

definition user_path :: "environment \<Rightarrow> string \<Rightarrow> user_dirs_entry list \<Rightarrow> Folders \<Rightarrow> string" where
  "user_path env h es f = (case fixed_path env h f of
     Some v \<Rightarrow> v
   | None \<Rightarrow> (case Option.bind (xdg_name f) (map_of (entries es)) of Some s \<Rightarrow> h @ s | None \<Rightarrow> []))"

definition table_shows :: "(Folders \<Rightarrow> string) \<Rightarrow> folder_table \<Rightarrow> bool" where
  "table_shows P t \<longleftrightarrow> \<not> Mapping.is_empty t \<and>
     (\<forall>f. (case Mapping.lookup t (folder_number f) of Some v \<Rightarrow> v | None \<Rightarrow> []) = P f)"

definition user_dirs_content :: "user_dirs_entry list option \<Rightarrow> string option" where
  "user_dirs_content fo = map_option user_dirs_file fo"

lemma lookup_not_empty: "Mapping.lookup t k = Some v \<Longrightarrow> \<not> Mapping.is_empty t"
  by (auto simp: Mapping.is_empty_def keys_dom_lookup)

lemma fixed_home: "fixed_path env h home = Some h"
  by (simp add: fixed_path_def)

lemma init_home:
  assumes "get_home env = Inr h"
  shows "init env Mapping.empty = (case env_file env (h @ ''/.config/user-dirs.dirs'') of
    None \<Rightarrow> Inr (fixed_folders env h Mapping.empty)
  | Some content \<Rightarrow> user_dirs_lines (getlines content) (fixed_folders env h Mapping.empty))"
  using assms by (simp add: init_def subscript_known lookup_fixed_folders fixed_home Let_def)

lemma init_shows:
  assumes "get_home env = Inr h" and "CHR 0x22 \<notin> set h"
    and "env_file env (h @ ''/.config/user-dirs.dirs'') = user_dirs_content fo"
    and "list_all clean_entry (case fo of None \<Rightarrow> [] | Some es \<Rightarrow> es)"
  shows "\<exists>t. init env Mapping.empty = Inr t \<and>
    table_shows (user_path env h (case fo of None \<Rightarrow> [] | Some es \<Rightarrow> es)) t"
proof -
  let ?es = "case fo of None \<Rightarrow> [] | Some es \<Rightarrow> es"
  let ?t = "fixed_folders env h Mapping.empty"
  have home: "Mapping.lookup ?t (folder_number home) = Some h"
    by (simp add: lookup_fixed_folders fixed_home)
  obtain t where t: "user_dirs_lines (map entry_line ?es) ?t = Inr t"
    "\<And>f. Mapping.lookup t (folder_number f) = (case fixed_path env h f of
       Some v \<Rightarrow> Some v | None \<Rightarrow> map_option (\<lambda>s. h @ s) (Option.bind (xdg_name f) (map_of (entries ?es))))"
    using user_dirs_lines_entries [OF assms(4) home assms(2)] unfolding lookup_fixed_folders by blast
  have "init env Mapping.empty = Inr t"
  proof (cases fo)
    case None
    with t(1) assms(1,3) show ?thesis by (simp add: init_home user_dirs_content_def)
  next
    case (Some es)
    with t(1) assms(1,3,4) getlines_file [of es "[]"] show ?thesis by (simp add: init_home user_dirs_content_def)
  qed
  moreover have "\<not> Mapping.is_empty t"
    by (rule lookup_not_empty [of _ "folder_number home" h]) (simp add: t(2) fixed_home)
  ultimately show ?thesis
    using t(2) by (auto simp: table_shows_def user_path_def split: option.splits)
qed

lemma subscript_shows:
  "table_shows P t \<Longrightarrow> \<exists>t'. subscript f t = (P f, t') \<and> table_shows P t'"
proof (cases "Mapping.lookup t (folder_number f)")
  case None
  assume *: "table_shows P t"
  let ?t = "Mapping.update (folder_number f) [] t"
  from * have "(case Mapping.lookup t (folder_number f) of Some v \<Rightarrow> v | None \<Rightarrow> []) = P f"
    by (simp add: table_shows_def)
  with None have "P f = []" by simp
  moreover have "\<not> Mapping.is_empty ?t" by (rule lookup_not_empty [of _ "folder_number f" "[]"]) simp
  moreover have "(case Mapping.lookup ?t (folder_number g) of Some v \<Rightarrow> v | None \<Rightarrow> []) = P g" for g
    using * None \<open>P f = []\<close> by (auto simp: table_shows_def lookup_update')
  ultimately show ?thesis using None by (simp add: subscript_def table_shows_def)
next
  case (Some v)
  assume *: "table_shows P t"
  then have "(case Mapping.lookup t (folder_number f) of Some v \<Rightarrow> v | None \<Rightarrow> []) = P f"
    by (simp add: table_shows_def)
  with Some * show ?thesis by (simp add: subscript_def)
qed

lemma get_path_shows: "table_shows P t \<Longrightarrow> \<exists>t'. get_path env f t = Inr (P f, t') \<and> table_shows P t'"
  using subscript_shows [of P t f] by (simp add: get_path_def linux_get_path_def table_shows_def)

lemma get_path_first:
  "init env Mapping.empty = Inr t \<Longrightarrow> table_shows P t \<Longrightarrow>
    \<exists>t'. get_path env f Mapping.empty = Inr (P f, t') \<and> table_shows P t'"
  using subscript_shows [of P t f] by (auto simp: get_path_def linux_get_path_def)

section \<open>Properties\<close>

text \<open>
  C27: with no \<^verbatim>\<open>user-dirs.dirs\<close>, or one as \<^verbatim>\<open>xdg-user-dirs\<close> writes it with every directory
  below the home directory, the first call gives for every folder what the file or the program
  fixes, the first of two entries winning; a folder that is nowhere named is the empty path,
  not an error. Every later call agrees whatever the environment then is, so the data directory
  is the same for the whole process.
\<close>

theorem user_dirs_read:
  assumes "get_home env = Inr h" and "CHR 0x22 \<notin> set h"
    and "env_file env (h @ ''/.config/user-dirs.dirs'') = user_dirs_content fo"
    and "list_all clean_entry (case fo of None \<Rightarrow> [] | Some es \<Rightarrow> es)"
  shows "\<exists>t. get_path env f Mapping.empty =
      Inr (user_path env h (case fo of None \<Rightarrow> [] | Some es \<Rightarrow> es) f, t) \<and>
    (\<exists>t'. get_path env' g t = Inr (user_path env h (case fo of None \<Rightarrow> [] | Some es \<Rightarrow> es) g, t')) \<and>
    (\<exists>t'. data_directory env' t = Inr (h @ ''/.local/share/wallchanger'', t')) \<and>
    (\<exists>t'. config_directory env' t = Inr (h @ ''/.config/wallchanger'', t')) \<and>
    (\<exists>t'. cache_directory env' t = Inr (h @ ''/.cache/wallchanger'', t'))"
proof -
  let ?P = "user_path env h (case fo of None \<Rightarrow> [] | Some es \<Rightarrow> es)"
  obtain t0 where t0: "init env Mapping.empty = Inr t0" "table_shows ?P t0"
    using init_shows [OF assms] by blast
  obtain t where t: "get_path env f Mapping.empty = Inr (?P f, t)" "table_shows ?P t"
    using get_path_first [OF t0] by blast
  have "?P data = h @ ''/.local/share''" "?P local_configuration = h @ ''/.config''" "?P cache = h @ ''/.cache''"
    by (simp_all add: user_path_def fixed_path_def)
  moreover have "\<exists>t'. get_path env' k t = Inr (?P k, t')"
    and "\<exists>t'. in_directory (get_path env' k t) = Inr (?P k @ ''/wallchanger'', t')" for k
    using get_path_shows [OF t(2), of env' k] by (auto simp: in_directory_def)
  moreover note this(1) [of g] this(2) [of data] this(2) [of local_configuration] this(2) [of cache]
  ultimately show ?thesis
    unfolding data_directory_def config_directory_def cache_directory_def using t(1) by simp
qed

definition sample_environment :: "string \<Rightarrow> environment" where
  "sample_environment content =
     \<lparr>env_uid = 1000, env_home = Some ''/home/u'', env_pw_dir = None, env_cwd = ''/work'',
      env_file = (\<lambda>p. if p = ''/home/u/.config/user-dirs.dirs'' then Some content else None)\<rparr>"

theorem user_dirs_read_witness:
  "\<exists>t. get_path (sample_environment (user_dirs_file [Comment '' user dirs'', Entry ''XDG_PICTURES_DIR'' ''/img'']))
    pictures Mapping.empty = Inr (''/home/u/img'', t)"
proof -
  let ?es = "[Comment '' user dirs'', Entry ''XDG_PICTURES_DIR'' ''/img'']"
  have h: "get_home (sample_environment (user_dirs_file ?es)) = Inr ''/home/u''" "CHR 0x22 \<notin> set ''/home/u''"
    "env_file (sample_environment (user_dirs_file ?es)) (''/home/u'' @ ''/.config/user-dirs.dirs'') =
      user_dirs_content (Some ?es)"
    "list_all clean_entry (case Some ?es of None \<Rightarrow> [] | Some es \<Rightarrow> es)"
    by (simp_all add: get_home_def sample_environment_def user_dirs_content_def plain_text_def)
  have "user_path (sample_environment (user_dirs_file ?es)) ''/home/u'' ?es pictures = ''/home/u/img''"
    by (simp add: user_path_def fixed_path_def xdg_name_def)
  with user_dirs_read [OF h, of pictures] show ?thesis by auto
qed

text \<open>
  A line that is no comment and has no equals sign, an empty line included, or whose value
  does not mention \<^verbatim>\<open>$HOME\<close>, such as an absolute directory, which the format of the file
  allows, makes the first directory the program asks for throw, whatever follows the line.
\<close>

theorem user_dirs_fault:
  assumes "get_home env = Inr h" and "CHR 0x22 \<notin> set h" and "list_all clean_entry es"
    and "env_file env (h @ ''/.config/user-dirs.dirs'') = Some (user_dirs_file es @ line @ CHR 0x0A # rest)"
    and "CHR 0x0A \<notin> set line" and "CHR ''#'' \<notin> set line"
    and "CHR ''='' \<in> set line \<longrightarrow> string_find ''$HOME'' (split_at (CHR ''='') line ! 1) = None"
  shows "get_path env f Mapping.empty = Inl (Throws Std_out_of_range) \<and>
    cache_directory env Mapping.empty = Inl (Throws Std_out_of_range)"
proof -
  let ?t = "fixed_folders env h Mapping.empty"
  have home: "Mapping.lookup ?t (folder_number home) = Some h" by (simp add: lookup_fixed_folders fixed_home)
  obtain t where t: "user_dirs_lines (map entry_line es) ?t = Inr t"
    using user_dirs_lines_entries [OF assms(3) home assms(2)] by blast
  have "length (split_at (CHR ''='') line) \<le> 1" if "CHR ''='' \<notin> set line"
    using that by (simp add: split_at_def split_more_none)
  then have "user_dirs_line line t = Inl (Throws Std_out_of_range)"
    using assms(6,7) by (auto simp: user_dirs_line_def vector_at_def string_replace_def Let_def split: prod.splits)
  with t assms(1,3,4,5) have "init env Mapping.empty = Inl (Throws Std_out_of_range)"
    by (simp add: init_home getlines_file user_dirs_lines_append getlines_line)
  then show ?thesis
    by (simp add: get_path_def linux_get_path_def cache_directory_def in_directory_def)
qed

theorem user_dirs_fault_witness:
  "cache_directory (sample_environment (user_dirs_file [] @ ''XDG_MUSIC_DIR='' @ [CHR 0x22] @ ''/music'' @ [CHR 0x22, CHR 0x0A]))
    Mapping.empty = Inl (Throws Std_out_of_range)"
proof -
  let ?line = "''XDG_MUSIC_DIR='' @ [CHR 0x22] @ ''/music'' @ [CHR 0x22]"
  let ?env = "sample_environment (user_dirs_file [] @ ?line @ [CHR 0x0A])"
  have h: "get_home ?env = Inr ''/home/u''" "CHR 0x22 \<notin> set ''/home/u''" "list_all clean_entry []"
    "env_file ?env (''/home/u'' @ ''/.config/user-dirs.dirs'') = Some (user_dirs_file [] @ ?line @ CHR 0x0A # [])"
    "CHR 0x0A \<notin> set ?line" "CHR ''#'' \<notin> set ?line"
    "CHR ''='' \<in> set ?line \<longrightarrow> string_find ''$HOME'' (split_at (CHR ''='') ?line ! 1) = None"
    by (simp_all add: get_home_def sample_environment_def split_at_def)
  from user_dirs_fault [OF h, of home] show ?thesis by simp
qed

end
