(* ===== verification/Net_Message.thy ===== *)
theory Net_Message
  imports Crc32
begin

text \<open>
  The messages of the client and server: \<^verbatim>\<open>src/src/change_lib/net/net_message.hpp\<close>. The id
  is a type parameter, as in the template. Data of a standard-layout type is the list of bytes
  of its representation, so a push or pull of a type is one of that many bytes; the clock
  \<^verbatim>\<open>finalize\<close> reads is an argument.
\<close>

section \<open>The code\<close>

record 't message_header =
  msg_id :: 't
  msg_size :: u32
  msg_hash :: u32

record 't message =
  header :: "'t message_header"
  time :: u64
  body :: "u8 list"

definition new_message :: "'t \<Rightarrow> 't message" where
  "new_message i = \<lparr>header = \<lparr>msg_id = i, msg_size = 0, msg_hash = 0\<rparr>, time = 0, body = []\<rparr>"

definition finalize :: "u64 \<Rightarrow> 't message \<Rightarrow> 't message" where
  "finalize now msg =
     msg\<lparr>header := (header msg)\<lparr>msg_hash := crc_u32 (body msg), msg_size := of_nat (length (body msg))\<rparr>,
         time := now\<rparr>"

text \<open>The checksum is compared at the width it was computed with.\<close>

definition validate :: "'t message \<Rightarrow> bool" where
  "validate msg \<longleftrightarrow> (crc (body msg) :: u64) = ucast (msg_hash (header msg))"

definition push_data :: "u64 \<Rightarrow> u8 list \<Rightarrow> 't message \<Rightarrow> 't message" where
  "push_data now data msg =
     (let msg1 = msg\<lparr>body := body msg @ data\<rparr>;
          msg2 = msg1\<lparr>header := (header msg1)\<lparr>msg_size := of_nat (length (body msg1))\<rparr>\<rparr>
      in finalize now msg2)"

text \<open>
  \<^verbatim>\<open>operator>>\<close> for a type of \<open>n\<close> bytes: the bytes copied, if any. A body shorter than the
  type makes the unsigned difference wrap and the copy read out of bounds.
\<close>

definition pull_data :: "nat \<Rightarrow> 't message \<Rightarrow> (u8 list option \<times> 't message) result" where
  "pull_data n msg =
     (if validate msg
      then if n \<le> length (body msg)
        then let body_size = length (body msg) - n;
                 data = drop body_size (body msg);
                 msg1 = msg\<lparr>body := take body_size (body msg)\<rparr>
             in Inr (Some data, msg1\<lparr>header := (header msg1)\<lparr>msg_size := of_nat (length (body msg1))\<rparr>\<rparr>)
        else Inl Undefined
      else Inr (None, msg))"

lemma crc_u64: "(crc bs :: u64) = ucast (crc_u32 bs)"
  by (simp add: crc_is_reference crc_u32_reference)

lemma validate_iff: "validate msg \<longleftrightarrow> crc_u32 (body msg) = msg_hash (header msg)"
proof -
  have "(ucast x :: u64) = ucast y \<longleftrightarrow> x = y" for x y :: u32
    by (metis ucast_u32_u64_u32)
  then show ?thesis by (simp add: validate_def crc_u64)
qed

lemma finalize_simps [simp]:
  "body (finalize now msg) = body msg" "msg_id (header (finalize now msg)) = msg_id (header msg)"
  "msg_size (header (finalize now msg)) = of_nat (length (body msg))"
  "msg_hash (header (finalize now msg)) = crc_u32 (body msg)" "validate (finalize now msg)"
  by (simp_all add: finalize_def validate_iff)

lemma push_data_simps [simp]:
  "body (push_data now d msg) = body msg @ d" "msg_id (header (push_data now d msg)) = msg_id (header msg)"
  "msg_hash (header (push_data now d msg)) = crc_u32 (body msg @ d)"
  "msg_size (header (push_data now d msg)) = of_nat (length (body msg @ d))" "validate (push_data now d msg)"
  by (simp_all add: push_data_def Let_def)

text \<open>A message that is ready to be sent: size and checksum are those of the body.\<close>

definition finalized :: "'t message \<Rightarrow> bool" where
  "finalized msg \<longleftrightarrow> msg_size (header msg) = of_nat (length (body msg)) \<and> msg_hash (header msg) = crc_u32 (body msg)"

lemma finalized_intros [simp, intro]:
  "finalized (finalize now msg)" "finalized (push_data now d msg)"
  by (simp_all add: finalized_def)

section \<open>Properties\<close>

text \<open>
  What was pushed last is what the next pull returns, and the body is again what it was.
  But the pull leaves the checksum of the longer body in the header, so the message is then
  valid only if the two checksums happen to agree; after two pushed flags, for instance, the
  second pull copies nothing.
\<close>

theorem message_push_pull:
  "\<exists>m. pull_data (length d) (push_data now d msg) = Inr (Some d, m) \<and> body m = body msg \<and>
    msg_id (header m) = msg_id (header msg) \<and> msg_size (header m) = of_nat (length (body msg)) \<and>
    (if crc_u32 (body msg) = crc_u32 (body msg @ d) then validate m else pull_data n m = Inr (None, m)) \<and>
    (body msg = [1] \<and> d = [1] \<longrightarrow> pull_data n m = Inr (None, m))"
proof -
  let ?m = "(push_data now d msg)\<lparr>body := body msg,
    header := (header (push_data now d msg))\<lparr>msg_size := of_nat (length (body msg))\<rparr>\<rparr>"
  have "pull_data (length d) (push_data now d msg) = Inr (Some d, ?m)"
    by (simp add: pull_data_def Let_def)
  moreover have "validate ?m \<longleftrightarrow> crc_u32 (body msg) = crc_u32 (body msg @ d)"
    by (simp add: validate_iff)
  moreover have "crc_u32 [1] \<noteq> crc_u32 ([1] @ [1])"
    by (simp add: crc_eval)
  ultimately show ?thesis
    by (intro exI [of _ ?m]) (auto simp: pull_data_def)
qed

theorem message_push_pull_witness:
  "\<exists>m. pull_data 1 (push_data 5 [1] (push_data 4 [1] (new_message ''id''))) = Inr (Some [1], m) \<and>
    body m = [1] \<and> pull_data 1 m = Inr (None, m)"
  using message_push_pull [of "[1]" 5 "push_data 4 [1] (new_message ''id'')" 1]
  by (auto simp: new_message_def)

text \<open>
  C26: a message that was changed on the way inside a window of at most four bytes of its body
  is recognised as corrupted, and nothing can be pulled from it.
\<close>

theorem message_corruption:
  assumes "body msg = xs @ bs @ ys" and "length bs = length bs'" and "length bs \<le> 4" and "bs \<noteq> bs'"
  shows "validate (finalize now msg) \<and> \<not> validate ((finalize now msg)\<lparr>body := xs @ bs' @ ys\<rparr>) \<and>
    pull_data n ((finalize now msg)\<lparr>body := xs @ bs' @ ys\<rparr>)
      = Inr (None, (finalize now msg)\<lparr>body := xs @ bs' @ ys\<rparr>)"
  using assms crc_sum.detects [OF assms(2-4), of xs ys]
  by (simp add: pull_data_def validate_iff)

theorem message_corruption_witness:
  "\<not> validate ((finalize 9 ((new_message ''id'')\<lparr>body := [1, 2, 3]\<rparr>))\<lparr>body := [1, 7, 3]\<rparr>)"
  using message_corruption [of "(new_message ''id'')\<lparr>body := [1, 2, 3]\<rparr>" "[1]" "[2]" "[3]" "[7]" 9] by simp

end
