(* ===== verification/Connect_Queue.thy ===== *)
theory Connect_Queue
  imports Prelude
begin

text \<open>
  The locked queue of \<^verbatim>\<open>src/src/change_lib/net/connect_queue.hpp\<close>. Every operation holds the
  queue's mutex for its whole body, so it is a function on the queue's content. Only \<^verbatim>\<open>wait\<close>
  interleaves with others: it is a step relation between one waiting thread and the threads
  that push.
\<close>

section \<open>The operations\<close>

record 'a connect_queue =
  m_queue :: "'a list"

definition new_queue :: "'a connect_queue" where
  "new_queue = \<lparr>m_queue = []\<rparr>"

text \<open>The deque's \<^verbatim>\<open>front\<close>, \<^verbatim>\<open>back\<close> and pops need an element.\<close>

definition queue_front :: "'a connect_queue \<Rightarrow> 'a result" where
  "queue_front q = (if m_queue q \<noteq> [] then Inr (hd (m_queue q)) else Inl Undefined)"

definition queue_back :: "'a connect_queue \<Rightarrow> 'a result" where
  "queue_back q = (if m_queue q \<noteq> [] then Inr (last (m_queue q)) else Inl Undefined)"

definition pop_front :: "'a connect_queue \<Rightarrow> ('a \<times> 'a connect_queue) result" where
  "pop_front q =
     (if m_queue q \<noteq> [] then Inr (hd (m_queue q), q\<lparr>m_queue := tl (m_queue q)\<rparr>) else Inl Undefined)"

definition pop_back :: "'a connect_queue \<Rightarrow> ('a \<times> 'a connect_queue) result" where
  "pop_back q =
     (if m_queue q \<noteq> [] then Inr (last (m_queue q), q\<lparr>m_queue := butlast (m_queue q)\<rparr>) else Inl Undefined)"

definition push_front :: "'a \<Rightarrow> 'a connect_queue \<Rightarrow> 'a connect_queue" where
  "push_front data q = q\<lparr>m_queue := data # m_queue q\<rparr>"

definition push_back :: "'a \<Rightarrow> 'a connect_queue \<Rightarrow> 'a connect_queue" where
  "push_back data q = q\<lparr>m_queue := m_queue q @ [data]\<rparr>"

definition queue_empty :: "'a connect_queue \<Rightarrow> bool" where
  "queue_empty q \<longleftrightarrow> m_queue q = []"

definition queue_size :: "'a connect_queue \<Rightarrow> nat" where
  "queue_size q = length (m_queue q)"

definition queue_clear :: "'a connect_queue \<Rightarrow> 'a connect_queue" where
  "queue_clear q = q\<lparr>m_queue := []\<rparr>"

section \<open>Waiting\<close>

text \<open>
  Where a thread in \<^verbatim>\<open>wait\<close> stands: about to ask \<^verbatim>\<open>empty\<close>, past an answer of true but
  before locking the blocking mutex, holding that mutex, asleep on the condition variable, or
  done. A pushing thread is either outside, or has appended its element and still holds the
  queue's mutex, before it locks the blocking mutex and notifies.
\<close>

datatype waiter = Checking | Decided | Locked | Asleep | Returned

datatype pusher = Outside | Pushed

record 'a wait_state =
  ws_queue :: "'a connect_queue"
  ws_waiter :: waiter
  ws_pusher :: pusher

text \<open>A step carries the elements it pushes, and a run those of its steps in their order.\<close>

inductive wait_step :: "'a wait_state \<Rightarrow> 'a list \<Rightarrow> 'a wait_state \<Rightarrow> bool" where
  wait_check: "ws_waiter s = Checking \<Longrightarrow> ws_pusher s = Outside \<Longrightarrow>
    wait_step s [] (s\<lparr>ws_waiter := (if queue_empty (ws_queue s) then Decided else Returned)\<rparr>)"
| wait_lock: "ws_waiter s = Decided \<Longrightarrow> wait_step s [] (s\<lparr>ws_waiter := Locked\<rparr>)"
| wait_sleep: "ws_waiter s = Locked \<Longrightarrow> wait_step s [] (s\<lparr>ws_waiter := Asleep\<rparr>)"
| wait_spurious: "ws_waiter s = Asleep \<Longrightarrow> wait_step s [] (s\<lparr>ws_waiter := Checking\<rparr>)"
| push_data: "ws_pusher s = Outside \<Longrightarrow>
    wait_step s [x] (s\<lparr>ws_queue := push_back x (ws_queue s), ws_pusher := Pushed\<rparr>)"
| push_notify: "ws_pusher s = Pushed \<Longrightarrow> ws_waiter s \<noteq> Locked \<Longrightarrow>
    wait_step s [] (s\<lparr>ws_pusher := Outside, ws_waiter := (if ws_waiter s = Asleep then Checking else ws_waiter s)\<rparr>)"

inductive_cases wait_stepE: "wait_step s xs t"

inductive wait_reach :: "'a connect_queue \<Rightarrow> 'a list \<Rightarrow> 'a wait_state \<Rightarrow> bool" for q where
  wait_start: "wait_reach q [] \<lparr>ws_queue = q, ws_waiter = Checking, ws_pusher = Outside\<rparr>"
| wait_next: "wait_reach q pushed s \<Longrightarrow> wait_step s xs t \<Longrightarrow> wait_reach q (pushed @ xs) t"

text \<open>What taking elements from the front gives, one after the other.\<close>

primrec pop_many :: "nat \<Rightarrow> 'a connect_queue \<Rightarrow> ('a list \<times> 'a connect_queue) result" where
  "pop_many 0 q = Inr ([], q)"
| "pop_many (Suc n) q = rbind (pop_front q) (\<lambda>(x, q'). rbind (pop_many n q') (\<lambda>(xs, q''). Inr (x # xs, q'')))"

section \<open>First in, first out\<close>

text \<open>The contract of the queue for the connection and the server, which push back and pop front.\<close>

locale fifo =
  fixes new :: "'q"
    and push :: "'a \<Rightarrow> 'q \<Rightarrow> 'q"
    and pop :: "'q \<Rightarrow> ('a \<times> 'q) result"
    and items :: "'q \<Rightarrow> 'a list"
  assumes items_new: "items new = []"
    and items_push: "items (push x q) = items q @ [x]"
    and pop_empty: "items q = [] \<Longrightarrow> pop q = Inl Undefined"
    and pop_items: "items q = x # xs \<Longrightarrow> \<exists>q'. pop q = Inr (x, q') \<and> items q' = xs"
begin

lemma items_fold: "items (fold push xs q) = items q @ xs"
  by (induction xs arbitrary: q) (simp_all add: items_push)

lemma pop_after_push: "items q = [] \<Longrightarrow> \<exists>q'. pop (push x q) = Inr (x, q') \<and> items q' = []"
  by (rule pop_items) (simp add: items_push)

lemma pop_oldest: "items q = x # xs \<Longrightarrow> \<exists>q'. pop (fold push ys q) = Inr (x, q') \<and> items q' = xs @ ys"
  by (rule pop_items) (simp add: items_fold)

lemma pop_Inr_iff: "(\<exists>r. pop q = Inr r) \<longleftrightarrow> items q \<noteq> []"
  using pop_items [of q] by (cases "items q") (auto simp: pop_empty)

end

interpretation queue: fifo new_queue push_back pop_front m_queue
  by unfold_locales (auto simp: new_queue_def push_back_def pop_front_def)

lemma pop_many_all: "m_queue q = xs \<Longrightarrow> \<exists>q'. pop_many (length xs) q = Inr (xs, q') \<and> m_queue q' = []"
proof (induction xs arbitrary: q)
  case (Cons x xs)
  obtain q1 where q1: "pop_front q = Inr (x, q1)" "m_queue q1 = xs" using queue.pop_items [OF Cons.prems] by blast
  with Cons.IH [OF q1(2)] show ?case by auto
qed simp

section \<open>The waiting thread\<close>

lemma wait_returned_nonempty:
  assumes "wait_reach q pushed s"
  shows "ws_waiter s = Returned \<longrightarrow> m_queue (ws_queue s) \<noteq> []"
  using assms
proof (induction rule: wait_reach.induct)
  case wait_start
  then show ?case by simp
next
  case (wait_next pushed s xs t)
  from wait_next.hyps(2) wait_next.IH show ?case
    by (cases rule: wait_step.cases) (auto simp: queue_empty_def push_back_def split: if_splits)
qed

lemma wait_queue_grows: "wait_step s xs t \<Longrightarrow> m_queue (ws_queue t) = m_queue (ws_queue s) @ xs"
  by (auto simp: queue.items_push elim!: wait_stepE)

lemma wait_reach_queue: "wait_reach q pushed s \<Longrightarrow> m_queue (ws_queue s) = m_queue q @ pushed"
  by (induction rule: wait_reach.induct) (simp_all add: wait_queue_grows)

section \<open>Properties\<close>

text \<open>
  C24: a thread that returns from \<^verbatim>\<open>wait\<close> finds the queue not empty, and taking everything from
  its front gives what was there before, then all that was pushed while it waited, in the order
  of the pushes, and leaves it empty.
\<close>

theorem wait_returns_nonempty:
  assumes "wait_reach q pushed s" and "ws_waiter s = Returned"
  shows "m_queue q @ pushed \<noteq> [] \<and>
    (\<exists>q'. pop_many (length (m_queue q) + length pushed) (ws_queue s) = Inr (m_queue q @ pushed, q') \<and> queue_empty q')"
proof -
  have "m_queue (ws_queue s) = m_queue q @ pushed" by (rule wait_reach_queue [OF assms(1)])
  with pop_many_all [OF this] wait_returned_nonempty [OF assms(1)] assms(2) show ?thesis
    by (simp add: queue_empty_def)
qed

lemma wait_run: "wait_step s xs t \<Longrightarrow> wait_reach q pushed s \<Longrightarrow> wait_reach q (pushed @ xs) t"
  by (rule wait_next)

text \<open>Two elements come while the thread sleeps: the first wakes it.\<close>

theorem wait_returns_nonempty_witness:
  "\<exists>s q'. wait_reach new_queue [''m'', ''n''] s \<and> ws_waiter s = Returned \<and> pop_many 2 (ws_queue s) = Inr ([''m'', ''n''], q')"
proof -
  let ?s = "\<lambda>q w p. \<lparr>ws_queue = q, ws_waiter = w, ws_pusher = p\<rparr>"
  let ?q1 = "push_back ''m'' new_queue" and ?q2 = "push_back ''n'' (push_back ''m'' new_queue)"
  have 1: "wait_step (?s new_queue Checking Outside) [] (?s new_queue Decided Outside)"
    using wait_check [of "?s new_queue Checking Outside"] by (simp add: new_queue_def queue_empty_def)
  have 2: "wait_step (?s new_queue Decided Outside) [] (?s new_queue Locked Outside)"
    using wait_lock [of "?s new_queue Decided Outside"] by simp
  have 3: "wait_step (?s new_queue Locked Outside) [] (?s new_queue Asleep Outside)"
    using wait_sleep [of "?s new_queue Locked Outside"] by simp
  have 4: "wait_step (?s new_queue Asleep Outside) [''m''] (?s ?q1 Asleep Pushed)"
    using push_data [of "?s new_queue Asleep Outside" "''m''"] by simp
  have 5: "wait_step (?s ?q1 Asleep Pushed) [] (?s ?q1 Checking Outside)"
    using push_notify [of "?s ?q1 Asleep Pushed"] by simp
  have 6: "wait_step (?s ?q1 Checking Outside) [''n''] (?s ?q2 Checking Pushed)"
    using push_data [of "?s ?q1 Checking Outside" "''n''"] by simp
  have 7: "wait_step (?s ?q2 Checking Pushed) [] (?s ?q2 Checking Outside)"
    using push_notify [of "?s ?q2 Checking Pushed"] by simp
  have 8: "wait_step (?s ?q2 Checking Outside) [] (?s ?q2 Returned Outside)"
    using wait_check [of "?s ?q2 Checking Outside"] by (simp add: push_back_def queue_empty_def)
  have "wait_reach new_queue [''m'', ''n''] (?s ?q2 Returned Outside)"
    using wait_run [OF 8 wait_run [OF 7 wait_run [OF 6 wait_run [OF 5 wait_run [OF 4 wait_run [OF 3 wait_run
      [OF 2 wait_run [OF 1 wait_start]]]]]]]] by simp
  with wait_returns_nonempty [OF this] show ?thesis by (auto simp: new_queue_def numeral_2_eq_2)
qed

text \<open>
  C25: a wake-up can be lost. If an element is pushed after \<^verbatim>\<open>wait\<close> saw the queue empty and
  before it locked the blocking mutex, the notification finds nobody, and the thread then
  sleeps although the queue is not empty; only a spurious wake-up or another push can wake it.
\<close>

theorem wait_lost_wakeup:
  "\<exists>s. wait_reach new_queue [x] s \<and> ws_waiter s = Asleep \<and> ws_pusher s = Outside \<and>
    m_queue (ws_queue s) = [x] \<and>
    (\<forall>xs t. wait_step s xs t \<longrightarrow> t = s\<lparr>ws_waiter := Checking\<rparr> \<or>
      (\<exists>y. ws_queue t = push_back y (ws_queue s) \<and> ws_waiter t = Asleep))"
proof -
  let ?s = "\<lambda>q w p. \<lparr>ws_queue = q, ws_waiter = w, ws_pusher = p\<rparr>"
  let ?q = "push_back x new_queue"
  have 1: "wait_step (?s new_queue Checking Outside) [] (?s new_queue Decided Outside)"
    using wait_check [of "?s new_queue Checking Outside"] by (simp add: new_queue_def queue_empty_def)
  have 2: "wait_step (?s new_queue Decided Outside) [x] (?s ?q Decided Pushed)"
    using push_data [of "?s new_queue Decided Outside" x] by simp
  have 3: "wait_step (?s ?q Decided Pushed) [] (?s ?q Decided Outside)"
    using push_notify [of "?s ?q Decided Pushed"] by simp
  have 4: "wait_step (?s ?q Decided Outside) [] (?s ?q Locked Outside)"
    using wait_lock [of "?s ?q Decided Outside"] by simp
  have 5: "wait_step (?s ?q Locked Outside) [] (?s ?q Asleep Outside)"
    using wait_sleep [of "?s ?q Locked Outside"] by simp
  have "wait_reach new_queue [x] (?s ?q Asleep Outside)"
    using wait_run [OF 5 wait_run [OF 4 wait_run [OF 3 wait_run [OF 2 wait_run [OF 1 wait_start]]]]] by simp
  then show ?thesis
    by (intro exI [of _ "?s ?q Asleep Outside"])
      (auto simp: push_back_def new_queue_def elim!: wait_stepE)
qed

theorem wait_lost_wakeup_witness:
  "\<exists>s. wait_reach new_queue [''m''] s \<and> ws_waiter s = Asleep \<and> m_queue (ws_queue s) = [''m'']"
  using wait_lost_wakeup [of "''m''"] by blast

end
