(* ===== verification/Connection.thy ===== *)
theory Connection
  imports Net_Message Connect_Queue
begin

text \<open>
  One end of a connection: \<^verbatim>\<open>src/src/change_lib/net/connection.hpp\<close>. The socket and the
  \<^verbatim>\<open>io_context\<close> belong to asio: the state records whether the socket is open, which
  asynchronous read and write is pending, and the posted tasks in order; every completion
  handler and every task is an operation, and asio decides when one runs. Bytes are written as
  the object representation of the header, which is a parameter, and of the body.
\<close>

section \<open>State\<close>

record 't wire =
  w_size :: nat
  w_enc :: "'t message_header \<Rightarrow> u8 list"
  w_dec :: "u8 list \<Rightarrow> 't message_header"

text \<open>What asio and the platform promise of \<^verbatim>\<open>sizeof\<close> and the bytes of a header.\<close>

locale wire_format =
  fixes W :: "'t wire"
  assumes size_pos: "0 < w_size W"
    and length_enc: "length (w_enc W h) = w_size W"
    and dec_enc_header: "w_dec W (w_enc W h) = h"

datatype owner = Owner_server | Owner_client

text \<open>The asynchronous operation that is pending in one direction, if any.\<close>

datatype pending = No_io | Header_io | Body_io

datatype 't task = Close_socket | Push_message "'t message"

text \<open>A message and the connection to answer on, by its number; the client stores none.\<close>

record 't owned_message =
  remote :: "nat option"
  msg :: "'t message"

record 't connection =
  cn_self :: nat
  cn_owner :: owner
  cn_open :: bool
  cn_connected :: bool
  cn_id :: u32
  cn_outbound :: "'t message connect_queue"
  cn_temp_in :: "'t message"
  cn_reading :: pending
  cn_writing :: pending
  cn_tasks :: "'t task list"

type_synonym 't incomming = "'t owned_message connect_queue"

section \<open>Operations\<close>

definition new_connection :: "nat \<Rightarrow> owner \<Rightarrow> bool \<Rightarrow> 't \<Rightarrow> 't connection" where
  "new_connection self parent socket_open t0 =
     \<lparr>cn_self = self, cn_owner = parent, cn_open = socket_open, cn_connected = False, cn_id = 0,
      cn_outbound = new_queue, cn_temp_in = new_message t0, cn_reading = No_io, cn_writing = No_io,
      cn_tasks = []\<rparr>"

definition is_connected :: "'t connection \<Rightarrow> bool" where
  "is_connected c \<longleftrightarrow> cn_open c \<and> cn_connected c"

definition read_header :: "'t connection \<Rightarrow> 't connection" where
  "read_header c = c\<lparr>cn_reading := Header_io\<rparr>"

definition read_body :: "'t connection \<Rightarrow> 't connection" where
  "read_body c = c\<lparr>cn_reading := Body_io\<rparr>"

definition write_header :: "'t connection \<Rightarrow> 't connection" where
  "write_header c = c\<lparr>cn_writing := Header_io\<rparr>"

definition write_body :: "'t connection \<Rightarrow> 't connection" where
  "write_body c = c\<lparr>cn_writing := Body_io\<rparr>"

definition connect_to_client :: "u32 \<Rightarrow> 't connection \<Rightarrow> 't connection" where
  "connect_to_client i c =
     (if cn_owner c = Owner_server
      then if cn_open c then read_header (c\<lparr>cn_connected := True, cn_id := i\<rparr>) else c
      else c)"

definition disconnect :: "'t connection \<Rightarrow> 't connection" where
  "disconnect c =
     (if is_connected c then c\<lparr>cn_connected := False, cn_tasks := cn_tasks c @ [Close_socket]\<rparr> else c)"

text \<open>The handler that \<^verbatim>\<open>connect_to_server\<close> gives to \<^verbatim>\<open>async_connect\<close>.\<close>

definition on_connect :: "bool \<Rightarrow> 't connection \<Rightarrow> 't connection" where
  "on_connect ok c =
     (if cn_owner c = Owner_client
      then if ok then read_header (c\<lparr>cn_connected := True\<rparr>) else disconnect (c\<lparr>cn_connected := False\<rparr>)
      else c)"

definition send_message :: "'t message \<Rightarrow> 't connection \<Rightarrow> 't connection" where
  "send_message m c = (if is_connected c then c\<lparr>cn_tasks := cn_tasks c @ [Push_message m]\<rparr> else c)"

text \<open>The posted lambdas.\<close>

definition run_task :: "'t task \<Rightarrow> 't connection \<Rightarrow> 't connection" where
  "run_task t c = (case t of
     Close_socket \<Rightarrow> c\<lparr>cn_open := False\<rparr>
   | Push_message m \<Rightarrow>
       let writing_header = \<not> queue_empty (cn_outbound c);
           c1 = c\<lparr>cn_outbound := push_back m (cn_outbound c)\<rparr>
       in if \<not> writing_header then write_header c1 else c1)"

definition next_task :: "'t connection \<Rightarrow> 't connection" where
  "next_task c = (case cn_tasks c of [] \<Rightarrow> c | t # ts \<Rightarrow> run_task t (c\<lparr>cn_tasks := ts\<rparr>))"

definition add_to_incomming :: "'t connection \<Rightarrow> 't incomming \<Rightarrow> 't connection \<times> 't incomming" where
  "add_to_incomming c inq =
     (read_header c,
      push_back \<lparr>remote = (if cn_owner c = Owner_server then Some (cn_self c) else None), msg = cn_temp_in c\<rparr> inq)"

definition resize :: "nat \<Rightarrow> u8 list \<Rightarrow> u8 list" where
  "resize n bs = take n bs @ replicate (n - length bs) 0"

text \<open>
  The completion handlers of the reads take the bytes that filled the buffer, or \<open>None\<close> for an
  error; those of the writes whether the write succeeded.
\<close>

definition on_header_read ::
    "'t wire \<Rightarrow> u8 list option \<Rightarrow> 't connection \<Rightarrow> 't incomming \<Rightarrow> 't connection \<times> 't incomming" where
  "on_header_read W ec c inq = (case ec of
     Some bytes \<Rightarrow>
       let h = w_dec W bytes; c1 = c\<lparr>cn_temp_in := (cn_temp_in c)\<lparr>header := h\<rparr>\<rparr>
       in if msg_size h > 0
          then (read_body (c1\<lparr>cn_temp_in := (cn_temp_in c1)\<lparr>body := resize (unat (msg_size h)) (body (cn_temp_in c1))\<rparr>\<rparr>), inq)
          else add_to_incomming c1 inq
   | None \<Rightarrow> (disconnect (c\<lparr>cn_reading := No_io\<rparr>), inq))"

definition on_body_read ::
    "u8 list option \<Rightarrow> 't connection \<Rightarrow> 't incomming \<Rightarrow> 't connection \<times> 't incomming" where
  "on_body_read ec c inq = (case ec of
     Some bytes \<Rightarrow> add_to_incomming (c\<lparr>cn_temp_in := (cn_temp_in c)\<lparr>body := bytes\<rparr>\<rparr>) inq
   | None \<Rightarrow> (disconnect (c\<lparr>cn_reading := No_io\<rparr>), inq))"

definition write_next :: "'t connection \<Rightarrow> 't connection result" where
  "write_next c = rbind (pop_front (cn_outbound c)) (\<lambda>(_, q).
     let c1 = c\<lparr>cn_outbound := q, cn_writing := No_io\<rparr>
     in Inr (if \<not> queue_empty q then write_header c1 else c1))"

definition on_header_written :: "bool \<Rightarrow> 't connection \<Rightarrow> 't connection result" where
  "on_header_written ok c =
     (if ok
      then rbind (queue_front (cn_outbound c)) (\<lambda>m.
           if 0 < length (body m) then Inr (write_body c) else write_next c)
      else Inr (disconnect (c\<lparr>cn_writing := No_io\<rparr>)))"

definition on_body_written :: "bool \<Rightarrow> 't connection \<Rightarrow> 't connection result" where
  "on_body_written ok c =
     (if ok then write_next c else Inr (disconnect (c\<lparr>cn_writing := No_io\<rparr>)))"

section \<open>The sending side\<close>

text \<open>
  The second component of a sender state is what was put on the wire, the third a history
  variable: the messages whose task ran, in order. A write that completes has sent its whole
  buffer, one that fails any beginning of it.
\<close>

definition frame :: "'t wire \<Rightarrow> 't message \<Rightarrow> u8 list" where
  "frame W m = w_enc W (header m) @ body m"

inductive send_step ::
    "'t wire \<Rightarrow> 't connection \<times> u8 list \<times> 't message list \<Rightarrow> 't connection \<times> u8 list \<times> 't message list \<Rightarrow> bool"
  for W where
  send_post: "send_step W (c, out, log) (send_message m c, out, log)"
| send_disconnect: "send_step W (c, out, log) (disconnect c, out, log)"
| send_task: "cn_tasks c = t # ts \<Longrightarrow>
    send_step W (c, out, log) (next_task c, out, (case t of Push_message m \<Rightarrow> log @ [m] | Close_socket \<Rightarrow> log))"
| send_header: "cn_writing c = Header_io \<Longrightarrow> cn_open c \<Longrightarrow> queue_front (cn_outbound c) = Inr m \<Longrightarrow>
    on_header_written True c = Inr c' \<Longrightarrow> send_step W (c, out, log) (c', out @ w_enc W (header m), log)"
| send_body: "cn_writing c = Body_io \<Longrightarrow> cn_open c \<Longrightarrow> queue_front (cn_outbound c) = Inr m \<Longrightarrow>
    on_body_written True c = Inr c' \<Longrightarrow> send_step W (c, out, log) (c', out @ body m, log)"
| send_header_error: "cn_writing c = Header_io \<Longrightarrow> queue_front (cn_outbound c) = Inr m \<Longrightarrow>
    on_header_written False c = Inr c' \<Longrightarrow>
    send_step W (c, out, log) (c', out @ take n (w_enc W (header m)), log)"
| send_body_error: "cn_writing c = Body_io \<Longrightarrow> queue_front (cn_outbound c) = Inr m \<Longrightarrow>
    on_body_written False c = Inr c' \<Longrightarrow> send_step W (c, out, log) (c', out @ take n (body m), log)"

inductive_cases send_stepE: "send_step W s t"

inductive send_reach :: "'t wire \<Rightarrow> 't connection \<Rightarrow> 't connection \<times> u8 list \<times> 't message list \<Rightarrow> bool"
  for W c0 where
  send_start: "send_reach W c0 (c0, [], [])"
| send_next: "send_reach W c0 s \<Longrightarrow> send_step W s t \<Longrightarrow> send_reach W c0 t"

text \<open>The bytes still to be written for the messages in the outbound queue.\<close>

definition unsent :: "'t wire \<Rightarrow> 't connection \<Rightarrow> u8 list" where
  "unsent W c = (case cn_writing c of
     Body_io \<Rightarrow> body (hd (m_queue (cn_outbound c))) @ concat (map (frame W) (tl (m_queue (cn_outbound c))))
   | _ \<Rightarrow> concat (map (frame W) (m_queue (cn_outbound c))))"

text \<open>
  Either the sender is in step with its queue, or a write failed: then nothing is being
  written, the queue is not empty, and it never becomes empty again.
\<close>

definition in_step :: "'t wire \<Rightarrow> 't connection \<times> u8 list \<times> 't message list \<Rightarrow> bool" where
  "in_step W s = (case s of (c, out, log) \<Rightarrow>
     out @ unsent W c = concat (map (frame W) log) \<and>
     (cn_writing c = No_io \<longleftrightarrow> m_queue (cn_outbound c) = []))"

definition stuck :: "'t wire \<Rightarrow> 't connection \<times> u8 list \<times> 't message list \<Rightarrow> bool" where
  "stuck W s = (case s of (c, out, log) \<Rightarrow>
     (\<exists>rest. out @ rest = concat (map (frame W) log)) \<and>
     cn_writing c = No_io \<and> m_queue (cn_outbound c) \<noteq> [])"

definition send_inv :: "'t wire \<Rightarrow> 't connection \<times> u8 list \<times> 't message list \<Rightarrow> bool" where
  "send_inv W s \<longleftrightarrow> in_step W s \<or> stuck W s"

section \<open>The receiving side\<close>

text \<open>A read completes when its buffer is full; the bytes come from the stream in order.\<close>

function (sequential) receive ::
    "'t wire \<Rightarrow> 't connection \<Rightarrow> 't incomming \<Rightarrow> u8 list \<Rightarrow> 't connection \<times> 't incomming \<times> u8 list" where
  "receive W c inq bytes =
     (let n = (case cn_reading c of No_io \<Rightarrow> 0 | Header_io \<Rightarrow> w_size W | Body_io \<Rightarrow> length (body (cn_temp_in c)))
      in if n = 0 \<or> length bytes < n then (c, inq, bytes)
         else let (c', inq') = (if cn_reading c = Header_io then on_header_read W (Some (take n bytes)) c inq
                                else on_body_read (Some (take n bytes)) c inq)
              in receive W c' inq' (drop n bytes))"
  by pat_completeness auto

termination
  by (relation "measure (\<lambda>(W, c, inq, bytes). length bytes)") auto

declare receive.simps [simp del]

text \<open>
  What arrives: a message without a body keeps the body of the one before, because the buffer
  is reused and only resized when the header announces a body; the time is never sent.
\<close>

primrec arrived :: "'t message \<Rightarrow> 't message list \<Rightarrow> 't message list" where
  "arrived prev [] = []"
| "arrived prev (m # ms) =
     (let x = prev\<lparr>header := header m, body := (if body m = [] then body prev else body m)\<rparr>
      in x # arrived x ms)"

section \<open>The sender writes whole frames in order\<close>

lemma in_step_cong:
  "cn_writing c' = cn_writing c \<Longrightarrow> cn_outbound c' = cn_outbound c \<Longrightarrow>
    in_step W (c', out, log) = in_step W (c, out, log)"
  unfolding in_step_def unsent_def prod.case by (simp cong: pending.case_cong)

lemma send_inv_cong:
  "cn_writing c' = cn_writing c \<Longrightarrow> cn_outbound c' = cn_outbound c \<Longrightarrow>
    send_inv W (c', out, log) = send_inv W (c, out, log)"
  using in_step_cong [of c' c W out log] by (simp add: send_inv_def stuck_def)

lemma front_hd: "queue_front q = Inr m \<longleftrightarrow> m_queue q \<noteq> [] \<and> hd (m_queue q) = m"
  by (auto simp: queue_front_def)

lemma write_next_eval:
  "m_queue (cn_outbound c) = m # ms \<Longrightarrow>
    write_next c = Inr (c\<lparr>cn_outbound := (cn_outbound c)\<lparr>m_queue := ms\<rparr>,
      cn_writing := (if ms = [] then No_io else Header_io)\<rparr>)"
  by (simp add: write_next_def pop_front_def queue_empty_def write_header_def Let_def)

lemma unsent_next:
  "m_queue (cn_outbound c) = m # ms \<Longrightarrow> write_next c = Inr c' \<Longrightarrow>
    unsent W c' = concat (map (frame W) ms) \<and> (cn_writing c' = No_io \<longleftrightarrow> m_queue (cn_outbound c') = [])"
  by (cases ms) (auto simp: write_next_eval unsent_def)

lemma send_task_inv:
  assumes "send_inv W (c, out, log)" and "cn_tasks c = t # ts"
  shows "send_inv W (next_task c, out, (case t of Push_message m \<Rightarrow> log @ [m] | Close_socket \<Rightarrow> log))"
proof (cases t)
  case Close_socket
  with assms(2) have "next_task c = c\<lparr>cn_tasks := ts, cn_open := False\<rparr>"
    by (simp add: next_task_def run_task_def)
  with assms(1) Close_socket show ?thesis by (simp add: send_inv_cong [of "c\<lparr>cn_tasks := ts, cn_open := False\<rparr>" c])
next
  case (Push_message m)
  from assms(1) consider "in_step W (c, out, log)" | "stuck W (c, out, log)"
    by (auto simp: send_inv_def)
  then show ?thesis
  proof cases
    assume "in_step W (c, out, log)"
    with assms(2) Push_message
    have "in_step W (next_task c, out, log @ [m])"
      by (cases "m_queue (cn_outbound c)"; cases "cn_writing c")
        (simp_all add: in_step_def next_task_def run_task_def unsent_def push_back_def queue_empty_def
          write_header_def Let_def)
    with Push_message show ?thesis by (simp add: send_inv_def)
  next
    assume st: "stuck W (c, out, log)"
    then obtain rest where "out @ rest = concat (map (frame W) log)" by (auto simp: stuck_def)
    then have "out @ (rest @ frame W m) = concat (map (frame W) (log @ [m]))" by simp
    then have "\<exists>rest. out @ rest = concat (map (frame W) (log @ [m]))" by blast
    moreover have "cn_writing (next_task c) = No_io \<and> m_queue (cn_outbound (next_task c)) \<noteq> []"
      using st assms(2) Push_message
      by (simp add: stuck_def next_task_def run_task_def push_back_def queue_empty_def Let_def)
    ultimately have "stuck W (next_task c, out, log @ [m])" unfolding stuck_def prod.case by blast
    with Push_message show ?thesis by (simp add: send_inv_def)
  qed
qed

text \<open>While a write is pending the sender is in step and its buffer starts the unsent bytes.\<close>

lemma send_inv_writing:
  "send_inv W (c, out, log) \<Longrightarrow> cn_writing c \<noteq> No_io \<Longrightarrow> in_step W (c, out, log)"
  by (simp add: send_inv_def stuck_def)

lemma send_io_inv:
  assumes "send_inv W (c, out, log)" and "queue_front (cn_outbound c) = Inr m"
  shows "cn_writing c = Header_io \<Longrightarrow> on_header_written True c = Inr c' \<Longrightarrow>
      send_inv W (c', out @ w_enc W (header m), log)"
    and "cn_writing c = Body_io \<Longrightarrow> on_body_written True c = Inr c' \<Longrightarrow> send_inv W (c', out @ body m, log)"
proof -
  obtain ms where q: "m_queue (cn_outbound c) = m # ms"
    using assms(2) by (cases "m_queue (cn_outbound c)") (auto simp: front_hd)
  show "send_inv W (c', out @ w_enc W (header m), log)"
    if "cn_writing c = Header_io" "on_header_written True c = Inr c'"
  proof (cases "body m = []")
    case True
    with that assms(2) have "write_next c = Inr c'" by (simp add: on_header_written_def)
    from unsent_next [OF q this] send_inv_writing [OF assms(1)] that(1) q True show ?thesis
      by (simp add: send_inv_def in_step_def unsent_def frame_def)
  next
    case False
    with that assms(2) have "c' = write_body c" by (simp add: on_header_written_def)
    with send_inv_writing [OF assms(1)] that(1) q show ?thesis
      by (simp add: send_inv_def in_step_def unsent_def frame_def write_body_def)
  qed
  show "send_inv W (c', out @ body m, log)"
    if "cn_writing c = Body_io" "on_body_written True c = Inr c'"
  proof -
    from that have "write_next c = Inr c'" by (simp add: on_body_written_def)
    from unsent_next [OF q this] send_inv_writing [OF assms(1)] that(1) q show ?thesis
      by (simp add: send_inv_def in_step_def unsent_def)
  qed
qed

lemma disconnect_simps [simp]:
  "cn_writing (disconnect c) = cn_writing c" "cn_outbound (disconnect c) = cn_outbound c"
  by (simp_all add: disconnect_def)

lemma send_error_inv:
  assumes "send_inv W (c, out, log)" and "queue_front (cn_outbound c) = Inr m"
  shows "cn_writing c = Header_io \<Longrightarrow> on_header_written False c = Inr c' \<Longrightarrow>
      send_inv W (c', out @ take n (w_enc W (header m)), log)"
    and "cn_writing c = Body_io \<Longrightarrow> on_body_written False c = Inr c' \<Longrightarrow>
      send_inv W (c', out @ take n (body m), log)"
proof -
  obtain ms where q: "m_queue (cn_outbound c) = m # ms"
    using assms(2) by (cases "m_queue (cn_outbound c)") (auto simp: front_hd)
  have part: "\<exists>rest. out @ take n xs @ rest = bs" if "out @ xs @ ys = bs" for xs ys bs :: "u8 list"
    using that by (intro exI [of _ "drop n xs @ ys"]) (metis append.assoc append_take_drop_id)
  show "send_inv W (c', out @ take n (w_enc W (header m)), log)"
    if "cn_writing c = Header_io" "on_header_written False c = Inr c'"
    using send_inv_writing [OF assms(1)] that q
    by (auto simp: send_inv_def in_step_def stuck_def unsent_def frame_def on_header_written_def intro: part)
  show "send_inv W (c', out @ take n (body m), log)"
    if "cn_writing c = Body_io" "on_body_written False c = Inr c'"
    using send_inv_writing [OF assms(1)] that q
    by (auto simp: send_inv_def in_step_def stuck_def unsent_def frame_def on_body_written_def intro: part)
qed

lemma send_step_inv:
  assumes "send_step W s t" and "send_inv W s"
  shows "send_inv W t"
  using assms
proof (induction rule: send_step.induct)
  case (send_post c out log m)
  then show ?case by (subst send_inv_cong [of _ c]) (simp_all add: send_message_def)
next
  case (send_disconnect c out log)
  then show ?case by (subst send_inv_cong [of _ c]) simp_all
qed (blast intro: send_task_inv send_io_inv send_error_inv)+

lemma send_reach_inv:
  assumes "send_reach W c0 s" and "cn_writing c0 = No_io" and "m_queue (cn_outbound c0) = []"
  shows "send_inv W s"
  using assms
proof (induction rule: send_reach.induct)
  case send_start
  then show ?case by (simp add: send_inv_def in_step_def unsent_def)
next
  case (send_next s t)
  then show ?case by (blast intro: send_step_inv)
qed

lemma send_inv_prefix:
  assumes "send_inv W (c, out, log)"
  shows "\<exists>rest. out @ rest = concat (map (frame W) log)"
    and "m_queue (cn_outbound c) = [] \<Longrightarrow> out = concat (map (frame W) log)"
  using assms by (auto simp: send_inv_def in_step_def stuck_def unsent_def)

section \<open>The receiver takes the frames apart\<close>

definition arrival :: "'t connection \<Rightarrow> 't message \<Rightarrow> 't owned_message" where
  "arrival c x = \<lparr>remote = (if cn_owner c = Owner_server then Some (cn_self c) else None), msg = x\<rparr>"

text \<open>Messages that can be framed: size and checksum set, and the size fits its field.\<close>

definition sendable :: "'t message \<Rightarrow> bool" where
  "sendable m \<longleftrightarrow> finalized m \<and> length (body m) < 2 ^ 32"

lemma sendable_size: "sendable m \<Longrightarrow> unat (msg_size (header m)) = length (body m)"
  by (simp add: sendable_def finalized_def unat_of_nat take_bit_nat_eq_self)

lemma sendable_empty: "sendable m \<Longrightarrow> msg_size (header m) > 0 \<longleftrightarrow> body m \<noteq> []"
  using sendable_size [of m] by (auto simp: word_gt_0 simp flip: unat_eq_0)

lemma length_resize [simp]: "length (resize n bs) = n"
  by (simp add: resize_def)

lemma same_reading:
  "cn_reading c = r \<Longrightarrow> c\<lparr>cn_temp_in := x, cn_reading := r\<rparr> = c\<lparr>cn_temp_in := x\<rparr>"
  by (cases c) simp

context wire_format begin

lemma receive_frame:
  assumes "cn_reading c = Header_io" and "sendable m"
  shows "receive W c inq (frame W m @ rest) =
    (let x = (cn_temp_in c)\<lparr>header := header m, body := (if body m = [] then body (cn_temp_in c) else body m)\<rparr>
     in receive W (c\<lparr>cn_temp_in := x\<rparr>) (push_back (arrival c x) inq) rest)"
proof (cases "body m = []")
  case True
  have "on_header_read W (Some (w_enc W (header m))) c inq =
      (c\<lparr>cn_temp_in := (cn_temp_in c)\<lparr>header := header m\<rparr>\<rparr>,
       push_back (arrival c ((cn_temp_in c)\<lparr>header := header m\<rparr>)) inq)"
    using True assms sendable_empty [OF assms(2)]
    by (simp add: on_header_read_def dec_enc_header add_to_incomming_def arrival_def read_header_def Let_def)
  with True assms(1) size_pos show ?thesis
    by (subst receive.simps) (simp add: frame_def length_enc Let_def)
next
  case False
  let ?c1 = "c\<lparr>cn_temp_in := (cn_temp_in c)\<lparr>header := header m,
      body := resize (length (body m)) (body (cn_temp_in c))\<rparr>, cn_reading := Body_io\<rparr>"
  have "on_header_read W (Some (w_enc W (header m))) c inq = (?c1, inq)"
    using False assms sendable_empty [OF assms(2)] sendable_size [OF assms(2)]
    by (simp add: on_header_read_def dec_enc_header read_body_def Let_def)
  then have "receive W c inq (frame W m @ rest) = receive W ?c1 inq (body m @ rest)"
    using assms(1) size_pos by (subst receive.simps) (simp add: frame_def length_enc Let_def)
  also have "\<dots> = receive W (c\<lparr>cn_temp_in := (cn_temp_in c)\<lparr>header := header m, body := body m\<rparr>\<rparr>)
      (push_back (arrival c ((cn_temp_in c)\<lparr>header := header m, body := body m\<rparr>)) inq) rest"
    using False assms(1)
    by (subst receive.simps)
      (simp add: on_body_read_def add_to_incomming_def arrival_def read_header_def same_reading)
  finally show ?thesis using False by (simp add: Let_def)
qed

lemma receive_frames:
  assumes "list_all sendable ms" and "cn_reading c = Header_io"
  shows "\<exists>c' inq'. receive W c inq (concat (map (frame W) ms)) = (c', inq', []) \<and>
    m_queue inq' = m_queue inq @ map (arrival c) (arrived (cn_temp_in c) ms) \<and> cn_reading c' = Header_io"
  using assms
proof (induction ms arbitrary: c inq)
  case Nil
  with size_pos show ?case by (simp add: receive.simps)
next
  case (Cons m ms)
  let ?x = "(cn_temp_in c)\<lparr>header := header m, body := (if body m = [] then body (cn_temp_in c) else body m)\<rparr>"
  have same: "arrival (c\<lparr>cn_temp_in := ?x\<rparr>) = arrival c" by (rule ext) (simp add: arrival_def)
  have "receive W c inq (concat (map (frame W) (m # ms))) =
      receive W (c\<lparr>cn_temp_in := ?x\<rparr>) (push_back (arrival c ?x) inq) (concat (map (frame W) ms))"
    using Cons.prems by (simp add: receive_frame Let_def)
  with Cons.IH [of "c\<lparr>cn_temp_in := ?x\<rparr>" "push_back (arrival c ?x) inq"] Cons.prems same
  show ?case by (auto simp: push_back_def Let_def)
qed

end

lemma arrived_bodies:
  "(\<And>m. m \<in> set ms \<Longrightarrow> body m \<noteq> []) \<Longrightarrow> arrived prev ms = map (\<lambda>m. m\<lparr>time := time prev\<rparr>) ms"
  by (induction ms arbitrary: prev) (auto simp: Let_def)

section \<open>Headers on a little-endian machine\<close>

text \<open>
  The header is three 32-bit words, the id being an enumeration over \<^verbatim>\<open>uint32_t\<close>; here the id
  is its underlying number.
\<close>

definition u32_bytes :: "u32 \<Rightarrow> u8 list" where
  "u32_bytes w = [ucast w, ucast (drop_bit 8 w), ucast (drop_bit 16 w), ucast (drop_bit 24 w)]"

lemma le_word_u32_bytes: "le_word (u32_bytes w) = w"
proof (rule bit_eqI)
  fix n assume "possible_bit TYPE(u32) n"
  then have "n < 32" by simp
  then consider "n < 8" | "8 \<le> n" "n < 16" | "16 \<le> n" "n < 24" | "24 \<le> n" "n < 32" by linarith
  then show "bit (le_word (u32_bytes w)) n = bit w n"
    by cases (auto simp: u32_bytes_def bit_simps)
qed

definition native_wire :: "u32 wire" where
  "native_wire =
     \<lparr>w_size = 12,
      w_enc = (\<lambda>h. u32_bytes (msg_id h) @ u32_bytes (msg_size h) @ u32_bytes (msg_hash h)),
      w_dec = (\<lambda>bs. \<lparr>msg_id = le_word (take 4 bs), msg_size = le_word (take 4 (drop 4 bs)),
                     msg_hash = le_word (take 4 (drop 8 bs))\<rparr>)\<rparr>"

lemma length_u32_bytes [simp]: "length (u32_bytes w) = 4"
  by (simp add: u32_bytes_def)

interpretation native: wire_format native_wire
  by unfold_locales (simp_all add: native_wire_def le_word_u32_bytes)

section \<open>Properties\<close>

text \<open>
  At every moment the bytes on the wire are the beginning of the frames of the messages
  accepted so far, in their order and without interleaving, failed writes included. Once the
  outbound queue is empty, a receiver that is waiting for a header puts exactly these messages into its queue, each with
  the connection to answer on; only the time is not transmitted. The messages must be
  finalized and have a body.
\<close>

theorem connection_delivers:
  assumes "wire_format W" and "send_reach W c0 (c, out, log)"
    and "cn_writing c0 = No_io" and "m_queue (cn_outbound c0) = []"
    and "list_all sendable log" and "list_all (\<lambda>m. body m \<noteq> []) log" and "cn_reading r = Header_io"
  shows "(\<exists>rest. out @ rest = concat (map (frame W) log)) \<and>
    (m_queue (cn_outbound c) = [] \<longrightarrow> (\<exists>r' inq'. receive W r inq out = (r', inq', []) \<and>
      m_queue inq' = m_queue inq @ map (\<lambda>m. arrival r (m\<lparr>time := time (cn_temp_in r)\<rparr>)) log))"
proof -
  note inv = send_inv_prefix [OF send_reach_inv [OF assms(2-4)]]
  have "arrived (cn_temp_in r) log = map (\<lambda>m. m\<lparr>time := time (cn_temp_in r)\<rparr>) log"
    using assms(6) by (intro arrived_bodies) (simp add: list_all_iff)
  then show ?thesis
    using wire_format.receive_frames [OF assms(1,5,7), of inq] inv by (auto simp: comp_def)
qed

definition sample_message :: "u32 message" where
  "sample_message = push_data 0 [1] (new_message 19)"

text \<open>A server end that is connected and was asked to send one message.\<close>

definition sample_end :: "u32 connection" where
  "sample_end = (connect_to_client 5 (new_connection 0 Owner_server True 0))"

lemma sample_sends:
  "\<exists>c. send_reach native_wire sample_end (c, frame native_wire sample_message, [sample_message]) \<and> m_queue (cn_outbound c) = []"
proof -
  let ?c0 = sample_end
  let ?c1 = "send_message sample_message ?c0"
  let ?c2 = "next_task ?c1"
  let ?c3 = "write_body ?c2"
  let ?c4 = "?c3\<lparr>cn_outbound := (cn_outbound ?c3)\<lparr>m_queue := []\<rparr>, cn_writing := No_io\<rparr>"
  have c0: "cn_tasks ?c0 = []" "is_connected ?c0" "cn_outbound ?c0 = new_queue"
    by (simp_all add: sample_end_def connect_to_client_def new_connection_def read_header_def is_connected_def)
  have c1: "cn_tasks ?c1 = [Push_message sample_message]" using c0 by (simp add: send_message_def)
  have c2: "cn_writing ?c2 = Header_io" "m_queue (cn_outbound ?c2) = [sample_message]" "cn_open ?c2"
    using c0 by (simp_all add: next_task_def send_message_def run_task_def queue_empty_def new_queue_def
        push_back_def write_header_def is_connected_def)
  have body: "body sample_message = [1]" by (simp add: sample_message_def new_message_def)
  have front: "queue_front (cn_outbound ?c2) = Inr sample_message" using c2(2) by (simp add: front_hd)
  have "send_reach native_wire ?c0 (?c1, [], [])"
    by (rule send_next [OF send_start send_post])
  then have "send_reach native_wire ?c0 (?c2, [], [sample_message])"
    by (rule send_next) (use send_task [OF c1, of native_wire "[]" "[]"] in simp)
  then have "send_reach native_wire ?c0 (?c3, w_enc native_wire (header sample_message), [sample_message])"
    by (rule send_next) (use send_header [OF c2(1,3) front, of ?c3 native_wire "[]"] front body
        in \<open>simp add: on_header_written_def\<close>)
  then have "send_reach native_wire ?c0 (?c4, w_enc native_wire (header sample_message) @ body sample_message, [sample_message])"
    by (rule send_next)
      (use send_body [of ?c3 sample_message ?c4 native_wire] c2
        in \<open>simp add: front_hd on_body_written_def write_next_eval write_body_def\<close>)
  then show ?thesis by (intro exI [of _ ?c4]) (simp add: frame_def)
qed

theorem connection_delivers_witness:
  "\<exists>c r' inq'. send_reach native_wire sample_end (c, frame native_wire sample_message, [sample_message]) \<and>
    receive native_wire sample_end new_queue (frame native_wire sample_message) = (r', inq', []) \<and>
    map msg (m_queue inq') = [sample_message\<lparr>time := 0\<rparr>]"
proof -
  obtain c where c: "send_reach native_wire sample_end (c, frame native_wire sample_message, [sample_message])"
    "m_queue (cn_outbound c) = []" using sample_sends by blast
  have h: "cn_writing sample_end = No_io" "m_queue (cn_outbound sample_end) = []"
    "list_all sendable [sample_message]" "list_all (\<lambda>m. body m \<noteq> []) [sample_message]"
    "cn_reading sample_end = Header_io" "time (cn_temp_in sample_end) = 0"
    by (simp_all add: sample_end_def connect_to_client_def new_connection_def read_header_def new_queue_def
        sample_message_def new_message_def sendable_def)
  show ?thesis
    using connection_delivers [OF native.wire_format_axioms c(1) h(1-5), of new_queue] c h(6)
    by (auto simp: new_queue_def arrival_def)
qed

text \<open>
  A message without a body that follows one with a body arrives with the body of the
  other, so it fails validation unless the checksum of that body is zero.
\<close>

theorem connection_stale_body:
  assumes "wire_format W" and "sendable m" and "body m \<noteq> []" and "sendable e" and "body e = []"
    and "cn_reading r = Header_io"
  shows "\<exists>r' inq' y. receive W r inq (frame W m @ frame W e) = (r', inq', []) \<and>
    m_queue inq' = m_queue inq @ [arrival r (m\<lparr>time := time (cn_temp_in r)\<rparr>), arrival r y] \<and> header y = header e \<and> body y = body m \<and>
    (validate y \<longleftrightarrow> crc_u32 (body m) = 0)"
proof -
  have "list_all sendable [m, e]" using assms(2,4) by simp
  from wire_format.receive_frames [OF assms(1) this assms(6), of inq] obtain r' inq'
    where ret: "receive W r inq (frame W m @ frame W e) = (r', inq', [])"
      "m_queue inq' = m_queue inq @ map (arrival r) (arrived (cn_temp_in r) [m, e])"
    by auto
  have "msg_hash (header e) = 0" using assms(4,5) by (simp add: sendable_def finalized_def)
  then have "validate ((cn_temp_in r)\<lparr>header := header e, body := body m\<rparr>) \<longleftrightarrow> crc_u32 (body m) = 0"
    by (simp add: validate_iff)
  moreover have "arrived (cn_temp_in r) [m, e] =
      [m\<lparr>time := time (cn_temp_in r)\<rparr>, (cn_temp_in r)\<lparr>header := header e, body := body m\<rparr>]"
    using assms(3,5) by (auto simp: Let_def intro!: message.equality)
  ultimately show ?thesis
    using ret by (intro exI [of _ r'] exI [of _ inq'] exI [of _ "(cn_temp_in r)\<lparr>header := header e, body := body m\<rparr>"])
      (simp del: arrived.simps)
qed

theorem connection_stale_body_witness:
  "\<exists>r' inq'. receive native_wire sample_end new_queue
      (frame native_wire sample_message @ frame native_wire (new_message 3)) = (r', inq', []) \<and>
    map (\<lambda>w. body (msg w)) (m_queue inq') = [[1], [1]]"
proof -
  have h: "sendable sample_message" "body sample_message \<noteq> []" "sendable (new_message 3 :: u32 message)"
    "body (new_message 3 :: u32 message) = []" "cn_reading sample_end = Header_io"
    by (simp_all add: sample_message_def new_message_def sendable_def finalized_def sample_end_def
        connect_to_client_def new_connection_def read_header_def)
  show ?thesis
    using connection_stale_body [OF native.wire_format_axioms h, of new_queue]
    by (auto simp: new_queue_def arrival_def) (simp_all add: sample_message_def new_message_def)
qed

end
