(* ===== verification/Server_Interface.thy ===== *)
theory Server_Interface
  imports Connection
begin

text \<open>
  The server side of the protocol: \<^verbatim>\<open>src/src/change_lib/net/server_interface.hpp\<close>. Connections
  are shared objects, so the state keeps them by address; the deque of the server and the
  messages hold addresses, \<open>None\<close> being a null pointer. A derived class extends the record of
  the state and overrides the virtual functions, which are a record of functions on it. The
  acceptor, the context and its thread belong to asio: an accepted socket is an event.
\<close>

section \<open>State\<close>

record 't server =
  sv_conns :: "nat \<Rightarrow> 't connection option"
  m_connections :: "nat option list"
  m_incomming :: "'t incomming"

record ('t, 'z) virtuals =
  on_client_connect :: "nat \<Rightarrow> ('t, 'z) server_scheme \<Rightarrow> (bool \<times> ('t, 'z) server_scheme) result"
  on_client_disconnect :: "nat option \<Rightarrow> ('t, 'z) server_scheme \<Rightarrow> ('t, 'z) server_scheme result"
  on_message :: "nat option \<Rightarrow> 't message \<Rightarrow> ('t, 'z) server_scheme \<Rightarrow> ('t, 'z) server_scheme result"

section \<open>Operations\<close>

text \<open>Calls through a pointer to a connection; a null one must not be read.\<close>

definition client_connected :: "nat option \<Rightarrow> ('t, 'z) server_scheme \<Rightarrow> bool" where
  "client_connected client sv =
     (case Option.bind client (sv_conns sv) of Some c \<Rightarrow> is_connected c | None \<Rightarrow> False)"

definition client_send :: "nat option \<Rightarrow> 't message \<Rightarrow> ('t, 'z) server_scheme \<Rightarrow> ('t, 'z) server_scheme result" where
  "client_send client m sv = (case client of
     None \<Rightarrow> Inl Undefined
   | Some a \<Rightarrow> (case sv_conns sv a of
       None \<Rightarrow> Inl Undefined
     | Some c \<Rightarrow> Inr (sv\<lparr>sv_conns := (sv_conns sv)(a \<mapsto> send_message m c)\<rparr>)))"

definition client_id :: "nat option \<Rightarrow> ('t, 'z) server_scheme \<Rightarrow> u32 result" where
  "client_id client sv = (case Option.bind client (sv_conns sv) of Some c \<Rightarrow> Inr (cn_id c) | None \<Rightarrow> Inl Undefined)"

text \<open>
  The handler of \<^verbatim>\<open>async_accept\<close>: for an error nothing, otherwise the address of the new
  object, whether the socket still has a remote endpoint, whether it is open, and the random number of
  \<^verbatim>\<open>gen_id\<close>. The line for the log asks for the endpoint of a peer that may be gone, and what this throws
  leaves the thread of asio. The virtual function runs before the connection is marked as connected.
\<close>

definition on_accept ::
    "('t, 'z) virtuals \<Rightarrow> 't \<Rightarrow> (nat \<times> bool \<times> bool \<times> u32) option \<Rightarrow> ('t, 'z) server_scheme \<Rightarrow> ('t, 'z) server_scheme result" where
  "on_accept V t0 ec sv = (case ec of
     None \<Rightarrow> Inr sv
   | Some (a, has_endpoint, socket_open, gen_id) \<Rightarrow>
       if \<not> has_endpoint then Inl (Terminates Asio_error)
       else let new_con = new_connection a Owner_server socket_open t0;
           sv1 = sv\<lparr>sv_conns := (sv_conns sv)(a \<mapsto> new_con)\<rparr>
       in rbind (on_client_connect V a sv1) (\<lambda>(ok, sv2).
            if ok
            then case sv_conns sv2 a of
                   None \<Rightarrow> Inl Undefined
                 | Some c \<Rightarrow> Inr (sv2\<lparr>m_connections := m_connections sv2 @ [Some a],
                                      sv_conns := (sv_conns sv2)(a \<mapsto> connect_to_client gen_id c)\<rparr>)
            else Inr sv2))"

text \<open>
  \<^verbatim>\<open>message_client\<close> takes the pointer by value, so its reset does not reach the deque, and the
  erasure that follows looks for null pointers.
\<close>

definition message_client ::
    "('t, 'z) virtuals \<Rightarrow> nat option \<Rightarrow> 't message \<Rightarrow> ('t, 'z) server_scheme \<Rightarrow> ('t, 'z) server_scheme result" where
  "message_client V client m sv =
     (if client_connected client sv
      then client_send client m sv
      else rbind (on_client_disconnect V client sv) (\<lambda>sv1.
             let client' = None
             in Inr (sv1\<lparr>m_connections := filter (\<lambda>p. p \<noteq> client') (m_connections sv1)\<rparr>)))"

text \<open>
  The loop of \<^verbatim>\<open>message_all_client\<close> over the positions of the deque, which the overridden
  functions leave alone; a reset goes through the reference to the element.
\<close>

primrec message_loop ::
    "('t, 'z) virtuals \<Rightarrow> 't message \<Rightarrow> nat option \<Rightarrow> nat list \<Rightarrow> bool \<Rightarrow> ('t, 'z) server_scheme \<Rightarrow>
      (bool \<times> ('t, 'z) server_scheme) result" where
  "message_loop V m ignore [] invalid sv = Inr (invalid, sv)"
| "message_loop V m ignore (i # is) invalid sv =
     (let client = m_connections sv ! i in
      if client_connected client sv
      then if client \<noteq> ignore
           then rbind (client_send client m sv) (message_loop V m ignore is invalid)
           else message_loop V m ignore is invalid sv
      else rbind (on_client_disconnect V client sv) (\<lambda>sv1.
             message_loop V m ignore is True (sv1\<lparr>m_connections := (m_connections sv1)[i := None]\<rparr>)))"

definition message_all_client ::
    "('t, 'z) virtuals \<Rightarrow> 't message \<Rightarrow> nat option \<Rightarrow> ('t, 'z) server_scheme \<Rightarrow> ('t, 'z) server_scheme result" where
  "message_all_client V m ignore sv =
     rbind (message_loop V m ignore [0..<length (m_connections sv)] False sv) (\<lambda>(invalid, sv1).
       Inr (if invalid then sv1\<lparr>m_connections := filter (\<lambda>p. p \<noteq> None) (m_connections sv1)\<rparr> else sv1))"

text \<open>
  \<^verbatim>\<open>update\<close> without the wait before it: at most the given number of messages, the default
  being the largest number.
\<close>

primrec update_loop :: "('t, 'z) virtuals \<Rightarrow> nat \<Rightarrow> ('t, 'z) server_scheme \<Rightarrow> ('t, 'z) server_scheme result" where
  "update_loop V 0 sv = Inr sv"
| "update_loop V (Suc n) sv =
     (if \<not> queue_empty (m_incomming sv)
      then rbind (pop_front (m_incomming sv)) (\<lambda>(m, q).
             rbind (on_message V (remote m) (msg m) (sv\<lparr>m_incomming := q\<rparr>)) (update_loop V n))
      else Inr sv)"

definition update :: "('t, 'z) virtuals \<Rightarrow> u64 \<Rightarrow> ('t, 'z) server_scheme \<Rightarrow> ('t, 'z) server_scheme result" where
  "update V max_msg sv = update_loop V (unat max_msg) sv"

text \<open>
  The thread that runs asio: whether the context was stopped, and whether the thread object
  stands for a thread. \<^verbatim>\<open>start\<close> catches what creating a thread throws, but assigning to an object
  that still stands for one ends the process, which is \<open>None\<close>. The destructor is \<^verbatim>\<open>stop\<close>.
\<close>

record server_thread =
  st_stopped :: bool
  st_joinable :: bool

definition server_start :: "bool \<Rightarrow> server_thread \<Rightarrow> (bool \<times> server_thread) option" where
  "server_start thread_created t =
     (if thread_created
      then if st_joinable t then None else Some (True, t\<lparr>st_joinable := True\<rparr>)
      else Some (False, t))"

definition server_stop :: "server_thread \<Rightarrow> server_thread" where
  "server_stop t =
     (let t1 = (if \<not> st_stopped t then t\<lparr>st_stopped := True\<rparr> else t)
      in if st_joinable t1 then t1\<lparr>st_joinable := False\<rparr> else t1)"

section \<open>The server as a transition system\<close>

text \<open>
  What asio and the main loop do with a server: accept, complete a read or write of one of its
  connections, run a posted task, and update. A completion only happens for the operation that
  is pending.
\<close>

definition put_conn :: "nat \<Rightarrow> 't connection \<times> 't incomming \<Rightarrow> ('t, 'z) server_scheme \<Rightarrow> ('t, 'z) server_scheme" where
  "put_conn a r sv = sv\<lparr>sv_conns := (sv_conns sv)(a \<mapsto> fst r), m_incomming := snd r\<rparr>"

inductive server_step ::
    "('t, 'z) virtuals \<Rightarrow> 't wire \<Rightarrow> 't \<Rightarrow> ('t, 'z) server_scheme \<Rightarrow> ('t, 'z) server_scheme \<Rightarrow> bool"
  for V W t0 where
  accept: "sv_conns sv a = None \<Longrightarrow> on_accept V t0 (Some (a, has_endpoint, socket_open, i)) sv = Inr sv' \<Longrightarrow> server_step V W t0 sv sv'"
| accept_error: "on_accept V t0 None sv = Inr sv' \<Longrightarrow> server_step V W t0 sv sv'"
| header_read: "sv_conns sv a = Some c \<Longrightarrow> cn_reading c = Header_io \<Longrightarrow>
    server_step V W t0 sv (put_conn a (on_header_read W ec c (m_incomming sv)) sv)"
| body_read: "sv_conns sv a = Some c \<Longrightarrow> cn_reading c = Body_io \<Longrightarrow>
    server_step V W t0 sv (put_conn a (on_body_read ec c (m_incomming sv)) sv)"
| header_written: "sv_conns sv a = Some c \<Longrightarrow> cn_writing c = Header_io \<Longrightarrow> on_header_written ok c = Inr c' \<Longrightarrow>
    server_step V W t0 sv (put_conn a (c', m_incomming sv) sv)"
| body_written: "sv_conns sv a = Some c \<Longrightarrow> cn_writing c = Body_io \<Longrightarrow> on_body_written ok c = Inr c' \<Longrightarrow>
    server_step V W t0 sv (put_conn a (c', m_incomming sv) sv)"
| task_run: "sv_conns sv a = Some c \<Longrightarrow> server_step V W t0 sv (put_conn a (next_task c, m_incomming sv) sv)"
| updated: "update V max_msg sv = Inr sv' \<Longrightarrow> server_step V W t0 sv sv'"

inductive_cases server_stepE: "server_step V W t0 sv sv'"

definition empty_server :: "('t, 'z) server_scheme \<Rightarrow> bool" where
  "empty_server sv \<longleftrightarrow> sv_conns sv = (\<lambda>_. None) \<and> m_connections sv = [] \<and> m_queue (m_incomming sv) = []"

inductive server_reach ::
    "('t, 'z) virtuals \<Rightarrow> 't wire \<Rightarrow> 't \<Rightarrow> ('t, 'z) server_scheme \<Rightarrow> ('t, 'z) server_scheme \<Rightarrow> bool"
  for V W t0 sv0 where
  server_start: "server_reach V W t0 sv0 sv0"
| server_next: "server_reach V W t0 sv0 sv \<Longrightarrow> server_step V W t0 sv sv' \<Longrightarrow> server_reach V W t0 sv0 sv'"

text \<open>
  Every object knows its address and is a server end, the deque holds each of its objects once
  and no null pointer, and a queued message names an existing connection to answer on.
\<close>

definition valid_client :: "nat option \<Rightarrow> ('t, 'z) server_scheme \<Rightarrow> bool" where
  "valid_client p sv \<longleftrightarrow> Option.bind p (sv_conns sv) \<noteq> None"

definition server_ok :: "('t, 'z) server_scheme \<Rightarrow> bool" where
  "server_ok sv \<longleftrightarrow>
     (\<forall>a c. sv_conns sv a = Some c \<longrightarrow> cn_self c = a \<and> cn_owner c = Owner_server) \<and>
     distinct (m_connections sv) \<and> (\<forall>p \<in> set (m_connections sv). valid_client p sv) \<and>
     (\<forall>m \<in> set (m_queue (m_incomming sv)). valid_client (remote m) sv)"

text \<open>The effect the overridden functions have on the base class: they send messages.\<close>

definition sent :: "'t message list \<Rightarrow> 't connection \<Rightarrow> 't connection" where
  "sent ms c = c\<lparr>cn_tasks := cn_tasks c @ map Push_message ms\<rparr>"

definition only_sends :: "('t, 'z) server_scheme \<Rightarrow> ('t, 'z) server_scheme \<Rightarrow> bool" where
  "only_sends sv sv' \<longleftrightarrow> m_connections sv' = m_connections sv \<and> m_incomming sv' = m_incomming sv \<and>
     (\<forall>a. \<exists>ms. sv_conns sv' a = map_option (sent ms) (sv_conns sv a))"

lemma valid_not_null: "valid_client p sv \<Longrightarrow> p \<noteq> None"
  by (cases p) (simp_all add: valid_client_def)

section \<open>Sending\<close>

lemma sent_simps [simp]:
  "cn_self (sent ms c) = cn_self c" "cn_owner (sent ms c) = cn_owner c" "is_connected (sent ms c) = is_connected c"
  "sent ms (sent ns c) = sent (ns @ ms) c" "sent [] c = c" "cn_id (sent ms c) = cn_id c"
  by (simp_all add: sent_def is_connected_def)

lemma send_message_sent: "send_message m c = sent (if is_connected c then [m] else []) c"
  by (simp add: send_message_def sent_def)

lemma only_sends_refl [simp, intro]: "only_sends sv sv"
proof -
  have "sv_conns sv a = map_option (sent []) (sv_conns sv a)" for a by (cases "sv_conns sv a") auto
  then show ?thesis unfolding only_sends_def by blast
qed

lemma only_sends_trans [trans]:
  assumes "only_sends sv1 sv2" and "only_sends sv2 sv3"
  shows "only_sends sv1 sv3"
proof -
  have "\<exists>ms. sv_conns sv3 a = map_option (sent ms) (sv_conns sv1 a)" for a
  proof -
    obtain ms ns where "sv_conns sv2 a = map_option (sent ms) (sv_conns sv1 a)"
      "sv_conns sv3 a = map_option (sent ns) (sv_conns sv2 a)"
      using assms unfolding only_sends_def by meson
    then show ?thesis by (intro exI [of _ "ms @ ns"]) (simp add: option.map_comp comp_def)
  qed
  with assms show ?thesis by (simp add: only_sends_def)
qed

lemma client_send_eval:
  "client_send client m sv = Inr sv' \<longleftrightarrow>
    (\<exists>a c. client = Some a \<and> sv_conns sv a = Some c \<and> sv' = sv\<lparr>sv_conns := (sv_conns sv)(a \<mapsto> send_message m c)\<rparr>)"
  by (auto simp: client_send_def split: option.splits)

lemma client_send_valid: "valid_client client sv \<Longrightarrow> \<exists>sv'. client_send client m sv = Inr sv'"
  by (cases client) (auto simp: client_send_def valid_client_def split: option.splits)

lemma client_send_sends: "client_send client m sv = Inr sv' \<Longrightarrow> only_sends sv sv'"
proof -
  assume "client_send client m sv = Inr sv'"
  then obtain a c where a: "sv_conns sv a = Some c" "sv' = sv\<lparr>sv_conns := (sv_conns sv)(a \<mapsto> send_message m c)\<rparr>"
    by (auto simp: client_send_eval)
  have "\<exists>ms. sv_conns sv' b = map_option (sent ms) (sv_conns sv b)" for b
  proof (cases "b = a")
    case True
    with a show ?thesis
      by (intro exI [of _ "if is_connected c then [m] else []"]) (simp add: send_message_sent)
  next
    case False
    with a show ?thesis by (intro exI [of _ "[]"]) (cases "sv_conns sv b"; simp)
  qed
  with a(2) show ?thesis by (simp add: only_sends_def)
qed

lemma only_sends_valid: "only_sends sv sv' \<Longrightarrow> valid_client p sv' = valid_client p sv"
  by (cases p) (auto simp: only_sends_def valid_client_def, metis not_None_eq option.map_disc_iff, metis option.simps(3) option.map_disc_iff not_None_eq)

lemma only_sends_ok:
  assumes "only_sends sv sv'" and "server_ok sv"
  shows "server_ok sv'"
proof -
  have "cn_self c = a \<and> cn_owner c = Owner_server" if "sv_conns sv' a = Some c" for a c
  proof -
    obtain ms where "sv_conns sv' a = map_option (sent ms) (sv_conns sv a)"
      using assms(1) unfolding only_sends_def by blast
    with that assms(2) show ?thesis by (auto simp: server_ok_def)
  qed
  then show ?thesis
    using assms only_sends_valid [OF assms(1)] by (simp add: server_ok_def only_sends_def)
qed

text \<open>The parts of a step that only touch one connection and append to the queue.\<close>

lemma put_conn_ok:
  assumes "server_ok sv" and "sv_conns sv a = Some c" and "cn_self (fst r) = cn_self c" and "cn_owner (fst r) = cn_owner c"
    and "\<forall>m \<in> set (m_queue (snd r)). m \<in> set (m_queue (m_incomming sv)) \<or> remote m = Some (cn_self c)"
  shows "server_ok (put_conn a r sv)"
proof -
  let ?sv = "put_conn a r sv"
  have self: "cn_self c = a" "cn_owner c = Owner_server" using assms(1,2) by (auto simp: server_ok_def)
  have valid: "valid_client p ?sv = valid_client p sv" for p
    using assms(2) by (cases p) (auto simp: valid_client_def put_conn_def)
  have "valid_client (Some a) sv" using assms(2) by (simp add: valid_client_def)
  then have "\<forall>m \<in> set (m_queue (m_incomming ?sv)). valid_client (remote m) ?sv"
    using assms(1,5) self unfolding valid by (auto simp: put_conn_def server_ok_def)
  moreover have "\<forall>b d. sv_conns ?sv b = Some d \<longrightarrow> cn_self d = b \<and> cn_owner d = Owner_server"
    using assms(1,3,4) self by (auto simp: put_conn_def server_ok_def)
  moreover have "distinct (m_connections ?sv) \<and> (\<forall>p \<in> set (m_connections ?sv). valid_client p ?sv)"
    using assms(1) unfolding valid by (simp add: put_conn_def server_ok_def)
  ultimately show ?thesis unfolding server_ok_def by blast
qed

lemma disconnect_same [simp]: "cn_self (disconnect c) = cn_self c" "cn_owner (disconnect c) = cn_owner c"
  by (simp_all add: disconnect_def)

lemma write_next_same: "write_next c = Inr c' \<Longrightarrow> cn_self c' = cn_self c \<and> cn_owner c' = cn_owner c"
  by (auto simp: write_next_def rbind_eq_Inr_iff write_header_def Let_def split: if_splits)

lemma on_header_written_same:
  "on_header_written ok c = Inr c' \<Longrightarrow> cn_self c' = cn_self c \<and> cn_owner c' = cn_owner c"
  by (auto simp: on_header_written_def rbind_eq_Inr_iff write_body_def dest: write_next_same split: if_splits)

lemma on_body_written_same:
  "on_body_written ok c = Inr c' \<Longrightarrow> cn_self c' = cn_self c \<and> cn_owner c' = cn_owner c"
  by (auto simp: on_body_written_def dest: write_next_same split: if_splits)

lemma next_task_same [simp]: "cn_self (next_task c) = cn_self c" "cn_owner (next_task c) = cn_owner c"
  by (simp_all add: next_task_def run_task_def write_header_def Let_def split: list.split task.split)

lemma add_to_incomming_same:
  assumes "cn_owner c = Owner_server"
  shows "cn_self (fst (add_to_incomming c q)) = cn_self c" "cn_owner (fst (add_to_incomming c q)) = cn_owner c"
    "m \<in> set (m_queue (snd (add_to_incomming c q))) \<Longrightarrow> m \<in> set (m_queue q) \<or> remote m = Some (cn_self c)"
  using assms by (auto simp: add_to_incomming_def read_header_def push_back_def)

lemma on_header_read_same:
  assumes "cn_owner c = Owner_server"
  shows "cn_self (fst (on_header_read W ec c q)) = cn_self c \<and> cn_owner (fst (on_header_read W ec c q)) = cn_owner c \<and>
    (\<forall>m \<in> set (m_queue (snd (on_header_read W ec c q))). m \<in> set (m_queue q) \<or> remote m = Some (cn_self c))"
  using assms by (auto simp: on_header_read_def add_to_incomming_same read_body_def Let_def split: option.splits
      dest: add_to_incomming_same(3) [rotated])

lemma on_body_read_same:
  assumes "cn_owner c = Owner_server"
  shows "cn_self (fst (on_body_read ec c q)) = cn_self c \<and> cn_owner (fst (on_body_read ec c q)) = cn_owner c \<and>
    (\<forall>m \<in> set (m_queue (snd (on_body_read ec c q))). m \<in> set (m_queue q) \<or> remote m = Some (cn_self c))"
  using assms by (auto simp: on_body_read_def add_to_incomming_same split: option.splits
      dest: add_to_incomming_same(3) [rotated])

lemma connect_to_client_same [simp]:
  "cn_self (connect_to_client i c) = cn_self c" "cn_owner (connect_to_client i c) = cn_owner c"
  by (auto simp: connect_to_client_def read_header_def)

section \<open>The contract of the overridden functions\<close>

text \<open>
  What the base class needs of a derived class to keep its state in order: the overridden
  functions do nothing to it but send messages.
\<close>

locale server_hooks =
  fixes V :: "('t, 'z) virtuals"
  assumes connect_sends: "on_client_connect V a sv = Inr (ok, sv') \<Longrightarrow> only_sends sv sv'"
    and disconnect_sends: "on_client_disconnect V p sv = Inr sv' \<Longrightarrow> only_sends sv sv'"
    and message_sends: "on_message V p m sv = Inr sv' \<Longrightarrow> only_sends sv sv'"
begin

lemma on_accept_ok:
  assumes "server_ok sv" and "sv_conns sv a = None" and "on_accept V t0 (Some (a, ep, so, i)) sv = Inr sv'"
  shows "server_ok sv'"
proof -
  let ?sv1 = "sv\<lparr>sv_conns := (sv_conns sv)(a \<mapsto> new_connection a Owner_server so t0)\<rparr>"
  have new: "Some a \<notin> set (m_connections sv)"
    using assms(1,2) by (auto simp: server_ok_def valid_client_def)
  have grow: "valid_client p sv \<Longrightarrow> valid_client p ?sv1" for p
    by (cases p) (auto simp: valid_client_def)
  then have ok1: "server_ok ?sv1"
    using assms(1) by (auto simp: server_ok_def new_connection_def)
  from assms(3) obtain ok sv2 where sv2: "on_client_connect V a ?sv1 = Inr (ok, sv2)"
    by (auto simp: on_accept_def Let_def rbind_eq_Inr_iff split: if_split_asm)
  have sends: "only_sends ?sv1 sv2" by (rule connect_sends [OF sv2])
  then have mc: "m_connections sv2 = m_connections sv" by (simp add: only_sends_def)
  have ok2: "server_ok sv2" by (rule only_sends_ok [OF sends ok1])
  show ?thesis
  proof (cases ok)
    case False
    with assms(3) sv2 ok2 show ?thesis by (simp add: on_accept_def Let_def split: if_split_asm)
  next
    case True
    with assms(3) sv2 obtain c where c: "sv_conns sv2 a = Some c"
      and sv': "sv' = sv2\<lparr>m_connections := m_connections sv2 @ [Some a], sv_conns := (sv_conns sv2)(a \<mapsto> connect_to_client i c)\<rparr>"
      by (auto simp: on_accept_def Let_def split: option.splits if_split_asm)
    have valid: "valid_client p sv2 \<Longrightarrow> valid_client p sv'" "valid_client (Some a) sv'" for p
      unfolding sv' by (cases p) (auto simp: valid_client_def)
    from ok2 c have "cn_self c = a" "cn_owner c = Owner_server" by (auto simp: server_ok_def)
    then have "\<forall>b d. sv_conns sv' b = Some d \<longrightarrow> cn_self d = b \<and> cn_owner d = Owner_server"
      using ok2 unfolding sv' by (auto simp: server_ok_def)
    moreover have "distinct (m_connections sv') \<and> (\<forall>p \<in> set (m_connections sv'). valid_client p sv')"
    proof -
      have conns: "m_connections sv' = m_connections sv @ [Some a]" by (simp add: sv' mc)
      have "\<forall>p \<in> set (m_connections sv). valid_client p sv2" using ok2 mc by (simp add: server_ok_def)
      moreover have "distinct (m_connections sv)" using assms(1) by (simp add: server_ok_def)
      ultimately show ?thesis using valid new unfolding conns by simp
    qed
    moreover have "\<forall>m \<in> set (m_queue (m_incomming sv')). valid_client (remote m) sv'"
    proof -
      have "m_incomming sv' = m_incomming sv2" by (simp add: sv')
      with ok2 valid show ?thesis by (simp add: server_ok_def)
    qed
    ultimately show ?thesis unfolding server_ok_def by blast
  qed
qed

lemma update_loop_ok:
  assumes "server_ok sv" and "update_loop V n sv = Inr sv'"
  shows "server_ok sv'"
  using assms
proof (induction n arbitrary: sv)
  case (Suc n)
  show ?case
  proof (cases "m_queue (m_incomming sv)")
    case Nil
    with Suc.prems show ?thesis by (simp add: queue_empty_def)
  next
    case (Cons m ms)
    let ?sv1 = "sv\<lparr>m_incomming := (m_incomming sv)\<lparr>m_queue := ms\<rparr>\<rparr>"
    from Cons Suc.prems(2) obtain sv2 where sv2: "on_message V (remote m) (msg m) ?sv1 = Inr sv2" "update_loop V n sv2 = Inr sv'"
      by (auto simp: queue_empty_def pop_front_def rbind_eq_Inr_iff)
    have "server_ok ?sv1" using Suc.prems(1) Cons by (auto simp: server_ok_def valid_client_def)
    with sv2 show ?thesis by (blast intro: Suc.IH only_sends_ok message_sends)
  qed
qed simp

lemma update_loop_queue:
  "update_loop V n sv = Inr sv' \<Longrightarrow>
    m_queue (m_incomming sv') = drop n (m_queue (m_incomming sv)) \<and> m_connections sv' = m_connections sv"
proof (induction n arbitrary: sv)
  case (Suc n)
  show ?case
  proof (cases "m_queue (m_incomming sv)")
    case Nil
    with Suc.prems show ?thesis by (simp add: queue_empty_def)
  next
    case (Cons m ms)
    with Suc.prems obtain sv2
      where sv2: "on_message V (remote m) (msg m) (sv\<lparr>m_incomming := (m_incomming sv)\<lparr>m_queue := ms\<rparr>\<rparr>) = Inr sv2"
        "update_loop V n sv2 = Inr sv'"
      by (auto simp: queue_empty_def pop_front_def rbind_eq_Inr_iff)
    from Suc.IH [OF sv2(2)] message_sends [OF sv2(1)] Cons show ?thesis by (simp add: only_sends_def)
  qed
qed simp

lemma server_step_ok:
  assumes "server_step V W t0 sv sv'" and "server_ok sv"
  shows "server_ok sv'"
  using assms
proof (cases rule: server_step.cases)
  case accept
  with assms(2) show ?thesis by (blast intro: on_accept_ok)
next
  case accept_error
  with assms(2) show ?thesis by (simp add: on_accept_def)
next
  case (header_read a c ec)
  with assms(2) have "cn_owner c = Owner_server" by (auto simp: server_ok_def)
  from on_header_read_same [OF this, of W ec "m_incomming sv"]
    put_conn_ok [OF assms(2) header_read(2), of "on_header_read W ec c (m_incomming sv)"]
  show ?thesis unfolding header_read(1) by blast
next
  case (body_read a c ec)
  with assms(2) have "cn_owner c = Owner_server" by (auto simp: server_ok_def)
  from on_body_read_same [OF this, of ec "m_incomming sv"]
    put_conn_ok [OF assms(2) body_read(2), of "on_body_read ec c (m_incomming sv)"]
  show ?thesis unfolding body_read(1) by blast
next
  case (header_written a c ok c')
  from put_conn_ok [OF assms(2) header_written(2), of "(c', m_incomming sv)"] on_header_written_same [OF header_written(4)]
  show ?thesis unfolding header_written(1) by simp
next
  case (body_written a c ok c')
  from put_conn_ok [OF assms(2) body_written(2), of "(c', m_incomming sv)"] on_body_written_same [OF body_written(4)]
  show ?thesis unfolding body_written(1) by simp
next
  case (task_run a c)
  from put_conn_ok [OF assms(2) task_run(2), of "(next_task c, m_incomming sv)"]
  show ?thesis unfolding task_run(1) by simp
next
  case (updated max_msg)
  with assms(2) show ?thesis by (auto simp: update_def intro: update_loop_ok)
qed

lemma server_reach_ok: "server_reach V W t0 sv0 sv \<Longrightarrow> empty_server sv0 \<Longrightarrow> server_ok sv"
proof (induction rule: server_reach.induct)
  case server_start
  then show ?case by (simp add: server_ok_def empty_server_def)
next
  case (server_next sv sv')
  then show ?case by (blast intro: server_step_ok)
qed

end

text \<open>If a disconnected client is only reported, a message to all reaches each of them once.\<close>

definition broadcast :: "'t message \<Rightarrow> nat option \<Rightarrow> nat option set \<Rightarrow> ('t, 'z) server_scheme \<Rightarrow> nat \<Rightarrow> 't connection option" where
  "broadcast m ignore P sv a =
     (if Some a \<in> P \<and> Some a \<noteq> ignore then map_option (send_message m) (sv_conns sv a) else sv_conns sv a)"

definition dropped :: "nat set \<Rightarrow> ('t, 'z) server_scheme \<Rightarrow> nat option list" where
  "dropped I sv = map (\<lambda>i. if i \<in> I \<and> \<not> client_connected (m_connections sv ! i) sv then None else m_connections sv ! i)
     [0..<length (m_connections sv)]"

lemma client_connected_send:
  "client_connected p (sv\<lparr>sv_conns := (sv_conns sv)(a := map_option (send_message m) (sv_conns sv a))\<rparr>) = client_connected p sv"
  by (cases p) (auto simp: client_connected_def send_message_sent split: option.splits)

lemma client_connected_list [simp]: "client_connected p (sv\<lparr>m_connections := xs\<rparr>) = client_connected p sv"
  by (simp add: client_connected_def)

lemma send_not_connected: "\<not> is_connected c \<Longrightarrow> send_message m c = c"
  by (simp add: send_message_def)

locale silent_hooks = server_hooks +
  assumes disconnect_client: "valid_client p sv \<Longrightarrow> on_client_disconnect V p sv = Inr sv"
begin

lemma message_loop_eval:
  assumes "distinct (map ((!) (m_connections sv)) is)" and "\<forall>i \<in> set is. i < length (m_connections sv) \<and> valid_client (m_connections sv ! i) sv"
  shows "message_loop V m ignore is invalid sv =
    Inr (invalid \<or> (\<exists>i \<in> set is. \<not> client_connected (m_connections sv ! i) sv),
      sv\<lparr>m_connections := dropped (set is) sv,
         sv_conns := broadcast m ignore ((!) (m_connections sv) ` set is) sv\<rparr>)"
  using assms
proof (induction "is" arbitrary: sv invalid)
  case Nil
  have "dropped {} sv = m_connections sv" by (simp add: dropped_def map_nth)
  moreover have "broadcast m ignore {} sv = sv_conns sv" by (rule ext) (simp add: broadcast_def)
  ultimately show ?case by simp
next
  case (Cons i "is")
  let ?xs = "m_connections sv" and ?p = "m_connections sv ! i"
  obtain a c where a: "?p = Some a" "sv_conns sv a = Some c"
    using Cons.prems(2) by (cases ?p) (auto simp: valid_client_def)
  have other: "?xs ! j \<noteq> ?p" if "j \<in> set is" for j
  proof -
    have "?xs ! j \<in> (!) ?xs ` set is" using that by (rule imageI)
    with Cons.prems(1) show ?thesis by auto
  qed
  have i: "i < length ?xs" "i \<notin> set is" using Cons.prems by auto
  have cong: "message_loop V m ignore is invalid' sv1 = Inr (invalid' \<or> (\<exists>i \<in> set is. \<not> client_connected (?xs ! i) sv),
      sv\<lparr>m_connections := dropped (set (i # is)) sv, sv_conns := broadcast m ignore ((!) ?xs ` set (i # is)) sv\<rparr>)"
    if sv1: "sv1 = sv\<lparr>m_connections := ys, sv_conns := f\<rparr>" and ys: "length ys = length ?xs" "\<And>j. j \<noteq> i \<Longrightarrow> ys ! j = ?xs ! j"
      and yi: "ys ! i = (if client_connected ?p sv then ?p else None)"
      and f: "\<And>b. b \<noteq> a \<Longrightarrow> f b = sv_conns sv b" "f a = broadcast m ignore {?p} sv a" for sv1 ys f invalid'
  proof -
    obtain d where d: "f a = Some d" "is_connected d = is_connected c"
      using f(2) a by (cases "Some a = ignore") (simp_all add: broadcast_def send_message_sent)
    have conn: "client_connected p sv1 = client_connected p sv" for p
    proof (cases p)
      case (Some b)
      then show ?thesis using f(1) [of b] d a(2) by (cases "b = a") (simp_all add: sv1 client_connected_def)
    qed (simp add: client_connected_def)
    have same: "m_connections sv1 ! j = ?xs ! j" if "j \<in> set is" for j
    proof -
      have "j \<noteq> i" using that i(2) by blast
      then show ?thesis by (simp add: sv1 ys(2))
    qed
    have valid: "valid_client p sv1 = valid_client p sv" for p
    proof (cases p)
      case (Some b)
      then show ?thesis using f(1) [of b] d a(2) by (cases "b = a") (simp_all add: sv1 valid_client_def)
    qed (simp add: valid_client_def)
    have "distinct (map ((!) (m_connections sv1)) is)" using Cons.prems(1) same by (simp cong: map_cong)
    moreover have "\<forall>i \<in> set is. i < length (m_connections sv1) \<and> valid_client (m_connections sv1 ! i) sv1"
      using Cons.prems(2) same ys(1) valid by (simp add: sv1)
    ultimately have "message_loop V m ignore is invalid' sv1 =
      Inr (invalid' \<or> (\<exists>i \<in> set is. \<not> client_connected (?xs ! i) sv),
        sv1\<lparr>m_connections := dropped (set is) sv1, sv_conns := broadcast m ignore ((!) ?xs ` set is) sv1\<rparr>)"
      using Cons.IH same conn by simp
    moreover have "dropped (set is) sv1 = dropped (set (i # is)) sv"
    proof (rule nth_equalityI)
      fix j assume "j < length (dropped (set is) sv1)"
      then have j: "j < length ?xs" by (simp add: dropped_def sv1 ys(1))
      have ysj: "m_connections sv1 = ys" by (simp add: sv1)
      show "dropped (set is) sv1 ! j = dropped (set (i # is)) sv ! j"
      proof (cases "j = i")
        case True
        then show ?thesis using j yi i(2) ys(1) conn by (simp add: dropped_def ysj)
      next
        case False
        then show ?thesis using j ys(1) conn by (simp add: dropped_def ysj ys(2))
      qed
    qed (simp add: dropped_def sv1 ys(1))
    moreover have "broadcast m ignore ((!) ?xs ` set is) sv1 = broadcast m ignore ((!) ?xs ` set (i # is)) sv"
    proof
      fix b
      show "broadcast m ignore ((!) ?xs ` set is) sv1 b = broadcast m ignore ((!) ?xs ` set (i # is)) sv b"
      proof (cases "b = a")
        case True
        have "Some a \<notin> (!) ?xs ` set is" using other a(1) by fastforce
        with True f(2) a(1) show ?thesis by (simp add: broadcast_def sv1)
      next
        case False
        with f(1) [of b] a(1) show ?thesis by (simp add: broadcast_def sv1)
      qed
    qed
    ultimately show ?thesis by (simp add: sv1)
  qed
  show ?case
  proof (cases "client_connected ?p sv")
    case False
    have "\<not> is_connected c" using False a by (simp add: client_connected_def)
    then have "broadcast m ignore {?p} sv a = sv_conns sv a"
      using a by (simp add: broadcast_def send_not_connected)
    moreover have "sv\<lparr>m_connections := ?xs[i := None]\<rparr> = sv\<lparr>m_connections := ?xs[i := None], sv_conns := sv_conns sv\<rparr>"
      by simp
    note cong [OF this, of True]
    ultimately show ?thesis using False a i by (simp add: disconnect_client valid_client_def)
  next
    case True
    show ?thesis
    proof (cases "?p = ignore")
      case True
      then have "broadcast m ignore {?p} sv a = sv_conns sv a" using a by (simp add: broadcast_def)
      moreover have "sv = sv\<lparr>m_connections := ?xs, sv_conns := sv_conns sv\<rparr>" by simp
      note cong [OF this, of invalid]
      ultimately show ?thesis using True \<open>client_connected ?p sv\<close> i by simp
    next
      case False
      then have "broadcast m ignore {?p} sv a = Some (send_message m c)" using a by (simp add: broadcast_def)
      moreover have "sv\<lparr>sv_conns := (sv_conns sv)(a \<mapsto> send_message m c)\<rparr> =
          sv\<lparr>m_connections := ?xs, sv_conns := (sv_conns sv)(a \<mapsto> send_message m c)\<rparr>" by simp
      note cong [OF this, of invalid]
      ultimately show ?thesis using False \<open>client_connected ?p sv\<close> a i by (simp add: client_send_def)
    qed
  qed
qed

lemma message_all_client_eval:
  assumes "server_ok sv"
  shows "message_all_client V m ignore sv = Inr (sv\<lparr>m_connections := filter (\<lambda>p. client_connected p sv) (m_connections sv),
    sv_conns := broadcast m ignore (set (m_connections sv)) sv\<rparr>)"
proof -
  let ?xs = "m_connections sv"
  let ?conn = "\<lambda>p. client_connected p sv"
  have range: "map ((!) ?xs) [0..<length ?xs] = ?xs" by (rule map_nth)
  have image: "(!) ?xs ` set [0..<length ?xs] = set ?xs" by (metis list.set_map range)
  have ok: "distinct ?xs" "\<forall>p \<in> set ?xs. valid_client p sv" using assms by (auto simp: server_ok_def)
  have dropped: "dropped (set [0..<length ?xs]) sv = map (\<lambda>p. if ?conn p then p else None) ?xs"
    by (rule nth_equalityI) (simp_all add: dropped_def)
  have loop: "message_loop V m ignore [0..<length ?xs] False sv =
      Inr (\<exists>p \<in> set ?xs. \<not> ?conn p, sv\<lparr>m_connections := map (\<lambda>p. if ?conn p then p else None) ?xs,
        sv_conns := broadcast m ignore (set ?xs) sv\<rparr>)"
  proof -
    have "distinct (map ((!) ?xs) [0..<length ?xs])" unfolding range by (rule ok(1))
    moreover have "\<forall>i \<in> set [0..<length ?xs]. i < length ?xs \<and> valid_client (?xs ! i) sv"
      using ok(2) by simp
    moreover have "(\<exists>i \<in> set [0..<length ?xs]. \<not> ?conn (?xs ! i)) \<longleftrightarrow> (\<exists>p \<in> set ?xs. \<not> ?conn p)"
      by (auto simp: in_set_conv_nth Bex_def)
    ultimately show ?thesis using message_loop_eval [of sv "[0..<length ?xs]" m ignore False]
      unfolding dropped image by simp
  qed
  have "\<not> ?conn None" by (simp add: client_connected_def)
  then have "filter (\<lambda>p. p \<noteq> None) (map (\<lambda>p. if ?conn p then p else None) xs) = filter ?conn xs" for xs
    by (induction xs) auto
  moreover have "map (\<lambda>p. if ?conn p then p else None) ?xs = filter ?conn ?xs" if "\<forall>p \<in> set ?xs. ?conn p"
    using that by (simp add: map_idI)
  ultimately show ?thesis using loop by (auto simp: message_all_client_def)
qed

text \<open>A message to one client that is gone changes nothing.\<close>

lemma message_client_eval:
  assumes "server_ok sv" and "valid_client p sv"
  shows "message_client V p m sv =
    (if client_connected p sv then Inr (sv\<lparr>sv_conns := broadcast m None {p} sv\<rparr>) else Inr sv)"
proof -
  obtain a c where a: "p = Some a" "sv_conns sv a = Some c" using assms(2) by (cases p) (auto simp: valid_client_def)
  have "\<forall>q \<in> set (m_connections sv). q \<noteq> None"
    using assms(1) valid_not_null unfolding server_ok_def by blast
  then have "filter (\<lambda>q. q \<noteq> None) (m_connections sv) = m_connections sv" by simp
  moreover have "(sv_conns sv)(a \<mapsto> send_message m c) = broadcast m None {p} sv"
    using a by (auto simp: broadcast_def)
  ultimately show ?thesis
    using a assms(2) by (simp add: message_client_def client_send_def disconnect_client)
qed

end

end
