(* ===== verification/Change_State.thy ===== *)
theory Change_State
  imports Commands
begin

text \<open>
  The state behind the server: class \<^verbatim>\<open>state\<close> of \<^verbatim>\<open>src/src/change_service/change_state.cpp\<close>.
  Its members are those of the command line's \<^verbatim>\<open>Manager\<close>, and each operation reads its
  arguments from the document of a request. All operations are \<^verbatim>\<open>noexcept\<close>; the arguments of
  the log calls are evaluated, so they are part of the model.

  The operations that show, mark, add and list wallpapers are in \<^verbatim>\<open>State_Walls\<close>.
\<close>

section \<open>Operations\<close>

text \<open>
  More of \<^verbatim>\<open>nlohmann::json\<close>: the accessor for truth values, signed numbers, \<^verbatim>\<open>empty\<close> and the
  binary form of documents.
\<close>

record 'j doc_ops =
  d_get_bool :: "'j \<Rightarrow> bool result"
  d_integer :: "u64 \<Rightarrow> 'j"
  d_is_empty :: "'j \<Rightarrow> bool"
  d_to_cbor :: "'j \<Rightarrow> u8 list"
  d_from_cbor :: "u8 list \<Rightarrow> 'j result"

definition arg_string :: "('j, 't) json_ops \<Rightarrow> 'j \<Rightarrow> string \<Rightarrow> string result" where
  "arg_string J server_cmd k = rbind (j_index_const J server_cmd k) (j_get_string J)"

definition arg_bool :: "('j, 't) json_ops \<Rightarrow> 'j doc_ops \<Rightarrow> 'j \<Rightarrow> string \<Rightarrow> bool result" where
  "arg_bool J D server_cmd k = rbind (j_index_const J server_cmd k) (d_get_bool D)"

text \<open>The members are those of the class \<^verbatim>\<open>Manager\<close>, and are constructed alike.\<close>

type_synonym 'j state = "'j manager"

definition new_state :: "('j, 't) json_ops \<Rightarrow> string \<Rightarrow> 't files \<Rightarrow> 'j state result" where
  "new_state J data_dir fs =
     rbind (open_lib J data_dir fs True) (\<lambda>l.
     rbind (pt_open J data_dir fs) (\<lambda>t.
       Inr \<lparr>mg_cache = l, mg_path_buf = t, mg_previous = []\<rparr>))"

lemma new_state_manager: "new_state = open_manager"
  by (intro ext) (simp add: new_state_def open_manager_def)

definition state_history_path :: "string \<Rightarrow> string" where
  "state_history_path data_dir = data_dir @ ''/data/history.json''"

definition st_store_state ::
    "('j, 't) json_ops \<Rightarrow> string \<Rightarrow> (string \<Rightarrow> bool) \<Rightarrow> 'j manager \<Rightarrow> 't files \<Rightarrow> 't files result" where
  "st_store_state J data_dir can_write m fs = noexcept_call (
     rbind (if mg_previous m \<noteq> []
            then rbind (j_put J (j_null J) ''histoy'' (j_array J (mg_previous m))) (\<lambda>obj.
                 Inr (if can_write (state_history_path data_dir)
                      then fs(state_history_path data_dir \<mapsto> j_dump J obj) else fs))
            else Inr fs) (\<lambda>fs1.
     rbind (pt_save J data_dir can_write (mg_path_buf m) fs1) (\<lambda>fs2.
       serialize_lib J data_dir can_write (mg_cache m) fs2)))"

definition st_previous :: "('j, 't) json_ops \<Rightarrow> 'j manager \<Rightarrow> 'j \<times> 'j manager" where
  "st_previous J m =
     (if mg_previous m \<noteq> []
      then (last (mg_previous m), m\<lparr>mg_previous := butlast (mg_previous m)\<rparr>)
      else (j_null J, m))"

definition st_change_active :: "('j, 't) json_ops \<Rightarrow> 'j \<Rightarrow> 'j manager \<Rightarrow> (bool \<times> 'j manager) result" where
  "st_change_active J server_cmd m = noexcept_call (
     rbind (arg_string J server_cmd ''new_active_name'') (\<lambda>name.
     let (r, l) = change_active name (mg_cache m) in Inr (succeeded r, m\<lparr>mg_cache := l\<rparr>)))"

definition st_rename_collection :: "('j, 't) json_ops \<Rightarrow> 'j \<Rightarrow> 'j manager \<Rightarrow> (bool \<times> 'j manager) result" where
  "st_rename_collection J server_cmd m = noexcept_call (
     rbind (arg_string J server_cmd ''col_name'') (\<lambda>from_name.
     rbind (arg_string J server_cmd ''col_name_new'') (\<lambda>to_name.
     let (r, l) = rename_store from_name to_name (mg_cache m) in Inr (succeeded r, m\<lparr>mg_cache := l\<rparr>))))"

text \<open>The directory iterators throw when the directory cannot be opened.\<close>

definition st_create_collection ::
    "('j, 't) json_ops \<Rightarrow> 'j doc_ops \<Rightarrow> fs_calls \<Rightarrow> 'j \<Rightarrow> 'j manager \<Rightarrow> (bool \<times> 'j manager) result" where
  "st_create_collection J D env server_cmd m = noexcept_call (
     rbind (arg_bool J D server_cmd ''col_empty'') (\<lambda>col_empty.
     rbind (if \<not> col_empty
            then rbind (arg_string J server_cmd ''col_path'') (\<lambda>col_path.
                 rbind (arg_bool J D server_cmd ''recursive'') (\<lambda>recursive.
                 rbind (fs_entries env recursive col_path) (\<lambda>entries.
                 let c = fold (inserter (path_hash col_path)) entries empty_cache;
                     t = pt_insert col_path (mg_path_buf m)
                 in rbind (arg_string J server_cmd ''new_col_name'') (\<lambda>_. Inr (c, t)))))
            else Inr (empty_cache, mg_path_buf m)) (\<lambda>(c, t).
     rbind (arg_string J server_cmd ''new_col_name'') (\<lambda>name.
     let (r, l) = lib_insert name c (mg_cache m)
     in Inr (succeeded r, m\<lparr>mg_cache := l, mg_path_buf := t\<rparr>)))))"

definition st_move_collection :: "('j, 't) json_ops \<Rightarrow> 'j \<Rightarrow> 'j manager \<Rightarrow> (bool \<times> 'j manager) result" where
  "st_move_collection J server_cmd m = noexcept_call (
     rbind (arg_string J server_cmd ''col_cur'') (\<lambda>col_frm.
     rbind (arg_string J server_cmd ''col_new'') (\<lambda>col_to.
     rbind (arg_string J server_cmd ''wall'') (\<lambda>wall.
     rbind (move_cache_item col_frm col_to wall (mg_cache m)) (\<lambda>(r, l).
       Inr (succeeded r, m\<lparr>mg_cache := l\<rparr>))))))"

definition st_merge_collection :: "('j, 't) json_ops \<Rightarrow> 'j \<Rightarrow> 'j manager \<Rightarrow> (bool \<times> 'j manager) result" where
  "st_merge_collection J server_cmd m = noexcept_call (
     rbind (arg_string J server_cmd ''col1'') (\<lambda>col1.
     rbind (arg_string J server_cmd ''col2'') (\<lambda>col2.
     let (r, l) = merge_cache col1 col2 (mg_cache m) in Inr (succeeded r, m\<lparr>mg_cache := l\<rparr>))))"

text \<open>
  \<^verbatim>\<open>remove_collection\<close> with \<^verbatim>\<open>wall_only\<close> looks the collection up and logs a removal; nothing is
  removed.
\<close>

definition st_remove_collection ::
    "('j, 't) json_ops \<Rightarrow> 'j doc_ops \<Rightarrow> 'j \<Rightarrow> 'j manager \<Rightarrow> (bool \<times> 'j manager) result" where
  "st_remove_collection J D server_cmd m = noexcept_call (
     rbind (arg_bool J D server_cmd ''wall_only'') (\<lambda>wall_only.
     rbind (arg_string J server_cmd ''col'') (\<lambda>col.
     if wall_only
     then case get_cache col (mg_cache m) of
            (Inr _, l) \<Rightarrow> rbind (arg_string J server_cmd ''wall'') (\<lambda>_. Inr (True, m\<lparr>mg_cache := l\<rparr>))
          | (Inl _, l) \<Rightarrow> Inr (False, m\<lparr>mg_cache := l\<rparr>)
     else let (r, l) = lib_remove col (mg_cache m) in Inr (succeeded r, m\<lparr>mg_cache := l\<rparr>))))"

section \<open>The requests of a client\<close>

text \<open>The documents the operations read, with the keys they look up.\<close>

datatype request =
    Activate string
  | Rename string string
  | Merge string string
  | Move_wall string string string
  | Remove_collection string
  | Remove_wall string string
  | Create_empty string
  | Create_from string string bool

primrec request_doc :: "('j, 't) json_ops \<Rightarrow> request \<Rightarrow> 'j" where
  "request_doc J (Activate n) = j_object J [(''new_active_name'', j_string J n)]"
| "request_doc J (Rename n k) = j_object J [(''col_name'', j_string J n), (''col_name_new'', j_string J k)]"
| "request_doc J (Merge n k) = j_object J [(''col1'', j_string J n), (''col2'', j_string J k)]"
| "request_doc J (Move_wall n k w) =
     j_object J [(''col_cur'', j_string J n), (''col_new'', j_string J k), (''wall'', j_string J w)]"
| "request_doc J (Remove_collection n) = j_object J [(''col'', j_string J n), (''wall_only'', j_bool J False)]"
| "request_doc J (Remove_wall n w) =
     j_object J [(''col'', j_string J n), (''wall_only'', j_bool J True), (''wall'', j_string J w)]"
| "request_doc J (Create_empty n) = j_object J [(''col_empty'', j_bool J True), (''new_col_name'', j_string J n)]"
| "request_doc J (Create_from n p r) =
     j_object J [(''col_empty'', j_bool J False), (''col_path'', j_string J p), (''recursive'', j_bool J r),
       (''new_col_name'', j_string J n)]"

primrec serve ::
    "('j, 't) json_ops \<Rightarrow> 'j doc_ops \<Rightarrow> fs_calls \<Rightarrow> request \<Rightarrow> 'j manager \<Rightarrow> (bool \<times> 'j manager) result" where
  "serve J D env (Activate n) = st_change_active J (request_doc J (Activate n))"
| "serve J D env (Rename n k) = st_rename_collection J (request_doc J (Rename n k))"
| "serve J D env (Merge n k) = st_merge_collection J (request_doc J (Merge n k))"
| "serve J D env (Move_wall n k w) = st_move_collection J (request_doc J (Move_wall n k w))"
| "serve J D env (Remove_collection n) = st_remove_collection J D (request_doc J (Remove_collection n))"
| "serve J D env (Remove_wall n w) = st_remove_collection J D (request_doc J (Remove_wall n w))"
| "serve J D env (Create_empty n) = st_create_collection J D env (request_doc J (Create_empty n))"
| "serve J D env (Create_from n p r) = st_create_collection J D env (request_doc J (Create_from n p r))"

text \<open>What the command line does for the same request.\<close>

primrec command :: "fs_calls \<Rightarrow> request \<Rightarrow> 'j manager \<Rightarrow> (bool \<times> 'j manager) result" where
  "command env (Activate n) m = Inr (mg_change_active n m)"
| "command env (Rename n k) m = Inr (mg_rename_collection n k m)"
| "command env (Merge n k) m = Inr (mg_merge_collection n k m)"
| "command env (Move_wall n k w) m = mg_move_wallpaper n k w m"
| "command env (Remove_collection n) m = Inr (mg_remove_collection n m)"
| "command env (Remove_wall n w) m = mg_remove_wallpaper n w m"
| "command env (Create_empty n) m = mg_create_collection env n [] False m"
| "command env (Create_from n p r) m = mg_create_collection env n p r m"

section \<open>The server and the command line agree\<close>

definition reads_bool :: "('j, 't) json_ops \<Rightarrow> 'j doc_ops \<Rightarrow> bool" where
  "reads_bool J D \<longleftrightarrow> (\<forall>b. d_get_bool D (j_bool J b) = Inr b)"

context json_library begin

lemma arg_string_object:
  "distinct (map fst kvs) \<Longrightarrow> map_of kvs k = Some (j_string J s) \<Longrightarrow> arg_string J (j_object J kvs) k = Inr s"
  by (simp add: arg_string_def index_const_object get_string_string)

lemma arg_bool_object:
  "reads_bool J D \<Longrightarrow> distinct (map fst kvs) \<Longrightarrow> map_of kvs k = Some (j_bool J b) \<Longrightarrow>
    arg_bool J D (j_object J kvs) k = Inr b"
  by (simp add: arg_bool_def index_const_object reads_bool_def)

lemmas arg_object = arg_string_object arg_bool_object

text \<open>
  A request whose directory exists, and whose wallpaper name has no null character, has on the
  server the effect it has on the command line; only the removal of a wallpaper differs. The
  server does not ask whether a directory exists: it lists it.
\<close>

lemma serve_eq_command:
  assumes "reads_bool J D" and "case q of Create_from n p r \<Rightarrow> p \<noteq> [] \<and> fs_exists env p = Inr True
      | Move_wall n k w \<Rightarrow> CHR 0x00 \<notin> set w | Remove_wall n w \<Rightarrow> False | _ \<Rightarrow> True"
  shows "serve J D env q m = command env q m"
proof (cases q)
  case (Create_from n p r)
  with assms show ?thesis
    by (cases "fs_entries env r p")
      (simp_all add: st_create_collection_def mg_create_collection_def arg_object Let_def)
next
  case (Move_wall n k w)
  with assms show ?thesis
    by (simp add: st_move_collection_def mg_move_wallpaper_def arg_object move_cache_item_cases Let_def)
qed (use assms in \<open>simp_all add: st_change_active_def mg_change_active_def st_rename_collection_def
      mg_rename_collection_def st_merge_collection_def mg_merge_collection_def st_remove_collection_def
      mg_remove_collection_def st_create_collection_def mg_create_collection_def mg_lift_def arg_object
      case_prod_unfold Let_def\<close>)

lemma serve_create_from:
  assumes "reads_bool J D"
  shows "serve J D env (Create_from n p r) m = noexcept_call (rbind (fs_entries env r p) (\<lambda>entries.
    let (x, l) = lib_insert n (fold (inserter (path_hash p)) entries empty_cache) (mg_cache m)
    in Inr (succeeded x, m\<lparr>mg_cache := l, mg_path_buf := pt_insert p (mg_path_buf m)\<rparr>)))"
  using assms by (simp add: st_create_collection_def arg_object Let_def rbind_assoc)

lemma serve_create_ends:
  assumes "reads_bool J D" and "throwing_fs env" and "manager_ok m"
  shows "(\<exists>b m'. serve J D env (Create_from n p r) m = Inr (b, m') \<and> manager_ok m') \<or>
    (\<exists>e. fs_entries env r p = Inl (Throws e) \<and> serve J D env (Create_from n p r) m = Inl (Terminates e))"
  unfolding serve_create_from [OF assms(1)]
  by (cases rule: throwing_entries [OF assms(2), of r p])
    (auto simp: case_prod_unfold Let_def intro: manager_ok_created [OF assms(3)])

lemma serve_remove_wall:
  assumes "reads_bool J D"
  shows "serve J D env (Remove_wall n w) m =
    Inr (n \<in> set (cache_list (mg_cache m)), m\<lparr>mg_cache := snd (get_cache n (mg_cache m))\<rparr>)"
  using assms by (simp add: st_remove_collection_def arg_object get_cache_def lib_exists_iff Let_def)

end

lemma command_fun:
  "command env (Activate n) = (\<lambda>m. Inr (mg_change_active n m))"
  "command env (Rename n k) = (\<lambda>m. Inr (mg_rename_collection n k m))"
  "command env (Merge n k) = (\<lambda>m. Inr (mg_merge_collection n k m))"
  "command env (Move_wall n k w) = mg_move_wallpaper n k w"
  "command env (Remove_collection n) = (\<lambda>m. Inr (mg_remove_collection n m))"
  "command env (Remove_wall n w) = mg_remove_wallpaper n w"
  "command env (Create_empty n) = mg_create_collection env n [] False"
  "command env (Create_from n p r) = mg_create_collection env n p r"
  by (rule ext, simp)+

text \<open>A command keeps the invariant, or it creates from a path and the file system throws.\<close>

lemma commands_ok:
  fixes m :: "'j manager"
  assumes "throwing_fs env" and "manager_ok m" and "\<And>n k w. q = Move_wall n k w \<Longrightarrow> CHR 0x00 \<notin> set w"
    and "\<And>n k. q = Merge n k \<Longrightarrow> CHR 0x00 \<notin> set n"
  shows "(\<exists>b m'. command env q m = Inr (b, m') \<and> manager_ok m') \<or>
    (\<exists>n p r e. q = Create_from n p r \<and> command env q m = Inl (Terminates e) \<and> fs_threw env e)"
proof (cases "\<exists>n p r. q = Create_from n p r")
  case True
  then obtain n p r where q: "q = Create_from n p r" by blast
  from create_ok [OF assms(1,2), of n p r] show ?thesis by (auto simp: q)
next
  case False
  have "good_command (command env q :: 'j manager \<Rightarrow> (bool \<times> 'j manager) result)"
    by (cases q; simp only: command_fun)
      (use False assms(3,4) in \<open>simp_all add: good_pure_commands good_create_empty good_move good_remove_wallpaper\<close>)
  with assms(2) show ?thesis by (auto simp: good_command_def)
qed

lemma raised_flag:
  "i < length (m_cache_vec l) \<Longrightarrow> m_list c = m_list (cache_of l i) \<Longrightarrow>
    map (\<lambda>s. (fst s, m_list (snd s))) (m_cache_vec (put_cache i c l)) = map (\<lambda>s. (fst s, m_list (snd s))) (m_cache_vec l)"
  by (rule nth_equalityI) (auto simp: put_cache_def cache_of_def nth_list_update)

lemma get_cache_flag:
  "map (\<lambda>s. (fst s, m_list (snd s))) (m_cache_vec (snd (get_cache n l))) = map (\<lambda>s. (fst s, m_list (snd s))) (m_cache_vec l) \<and>
    wf_lib (snd (get_cache n l)) = wf_lib l \<and> lib_locs (snd (get_cache n l)) \<subseteq> lib_locs l"
proof (cases "lib_map l n")
  case None
  then show ?thesis by (simp add: get_cache_def lib_exists_iff lib_map_None_iff)
next
  case (Some c)
  note found = get_cache_found [OF Some]
  then show ?thesis by (simp add: raised_flag lib_locs_put_keep)
qed

section \<open>Properties\<close>


definition sample_docs :: "json_tree doc_ops" where
  "sample_docs =
     \<lparr>d_get_bool = (\<lambda>j. case j of Tree_bool b \<Rightarrow> Inr b | _ \<Rightarrow> Inl (Throws Json_type_error)),
      d_integer = Tree_unsigned, d_is_empty = (\<lambda>j. j = Tree_null),
      d_to_cbor = (\<lambda>j. [0xF5]),
      d_from_cbor = (\<lambda>bs. if bs = [0xF5] then Inr (Tree_bool True) else Inl (Throws Json_parse_error))\<rparr>"

lemma sample_reads_bool: "reads_bool json_tree_ops sample_docs"
  by (simp add: reads_bool_def sample_docs_def json_tree_ops_def)


end
