(* ===== verification/Message_Type.thy ===== *)
theory Message_Type
  imports Net_Message Change_State
begin

text \<open>
  The vocabulary of the protocol: \<^verbatim>\<open>src/src/change_lib/message_type.hpp\<close>. A message carries the
  number of its type, because an enumeration over \<^verbatim>\<open>uint32_t\<close> can hold any such number.
\<close>

section \<open>Message types\<close>

datatype MessageType =
    Server_GetStatus | Server_GetPing | Client_Accepted | Client_AssignID | Client_RegisterWithServer
  | Client_UnregisterWithServer | Get_Next_Wallpaper | Get_Previous_Wallpaper | Mark_Favorate | Get_Current
  | Create_Collection | Change_Active_Collection | Rename_Collection | List_Collections | Add_To_Collection
  | Remove | Merge_Collection | Move | Status_Success | Status_Failure

definition message_types :: "MessageType list" where
  "message_types =
     [Server_GetStatus, Server_GetPing, Client_Accepted, Client_AssignID, Client_RegisterWithServer,
      Client_UnregisterWithServer, Get_Next_Wallpaper, Get_Previous_Wallpaper, Mark_Favorate, Get_Current,
      Create_Collection, Change_Active_Collection, Rename_Collection, List_Collections, Add_To_Collection,
      Remove, Merge_Collection, Move, Status_Success, Status_Failure]"

definition type_number :: "MessageType \<Rightarrow> u32" where
  "type_number t = of_nat (find_pos (\<lambda>u. u = t) message_types)"

definition type_of_number :: "u32 \<Rightarrow> MessageType option" where
  "type_of_number n = (if unat n < length message_types then Some (message_types ! unat n) else None)"

lemma type_of_number_type [simp]: "type_of_number (type_number t) = Some t"
  by (cases t) (simp_all add: type_of_number_def type_number_def message_types_def)

lemma type_number_eq [simp]: "type_number t = type_number u \<longleftrightarrow> t = u"
  by (metis type_of_number_type option.inject)

lemma type_of_number_SomeD: "type_of_number n = Some t \<Longrightarrow> n = type_number t"
proof -
  assume "type_of_number n = Some t"
  then have n: "unat n < length message_types" "message_types ! unat n = t"
    by (auto simp: type_of_number_def split: if_split_asm)
  have "distinct message_types" by (simp add: message_types_def)
  then have "find_pos (\<lambda>u. u = t) message_types = unat n"
    using n by (intro find_pos_eqI) (auto simp: nth_eq_iff_index_eq)
  then show ?thesis by (simp add: type_number_def)
qed

section \<open>Errors of the server\<close>

datatype server_error_code = Message_Validation_Error | Client_Connect_Error | Client_Validation_Error

record server_error =
  code :: server_error_code
  what :: string

definition error_table :: "('j, 't) json_ops \<Rightarrow> (server_error_code \<times> 'j) list" where
  "error_table J =
     [(Client_Connect_Error, j_string J ''client_connect_error''),
      (Client_Validation_Error, j_string J ''client_validation_error''),
      (Message_Validation_Error, j_string J ''message_validation_error'')]"

definition error_to_json :: "('j, 't) json_ops \<Rightarrow> server_error \<Rightarrow> 'j" where
  "error_to_json J rhs = j_object J
     [(''code'', enum_to_json (error_table J) (code rhs)), (''error'', j_string J (what rhs))]"

definition error_from_json :: "('j, 't) json_ops \<Rightarrow> 'j \<Rightarrow> server_error \<Rightarrow> server_error result" where
  "error_from_json J j rhs =
     (if \<not> j_is_null J j
      then rbind (j_at J j ''code'') (\<lambda>c. let r1 = rhs\<lparr>code := enum_from_json (error_table J) c\<rparr> in
           rbind (j_at J j ''error'') (\<lambda>w. rbind (j_get_string J w) (\<lambda>s. Inr (r1\<lparr>what := s\<rparr>))))
      else Inr rhs)"

context json_library begin

lemma error_roundtrip:
  "error_from_json J (error_to_json J e) e0 = Inr e"
  by (cases "code e") (simp_all add: error_from_json_def error_to_json_def json_simps enum_to_json_def enum_from_json_def
      error_table_def string_inject Let_def)

end

section \<open>Documents as messages\<close>

definition msg_to_json :: "'j doc_ops \<Rightarrow> u32 message \<Rightarrow> 'j result" where
  "msg_to_json D msg = d_from_cbor D (body msg)"

definition json_to_msg :: "'j doc_ops \<Rightarrow> u64 \<Rightarrow> MessageType \<Rightarrow> 'j \<Rightarrow> u32 message" where
  "json_to_msg D now type json = finalize now ((new_message (type_number type))\<lparr>body := d_to_cbor D json\<rparr>)"

end
