(* ===== verification/State_Walls.thy ===== *)
theory State_Walls
  imports Change_State
begin

text \<open>
  The operations of \<^verbatim>\<open>src/src/change_service/change_state.cpp\<close> that show wallpapers, mark them, add
  them to a collection and list a collection. They are written for a library that hands out
  references to its collections (\<^verbatim>\<open>get_cache(name).value().get()\<close>, \<^verbatim>\<open>get_current()->get()\<close>), which
  the present \<^verbatim>\<open>cache_lib\<close> does not: its functions return spans. What the two functions return is
  therefore a parameter, a position in the library if there is a collection to refer to, and the
  model is about what the server does with such references: where \<^verbatim>\<open>auto\<close> is declared without an
  ampersand, it works on a copy.
\<close>

section \<open>References to collections\<close>

record library_refs =
  ref_cache :: "string \<Rightarrow> cache_lib \<Rightarrow> nat option"
  ref_current :: "cache_lib \<Rightarrow> nat option"

text \<open>
  What a reference must be: the collection of that name, there if there is one, and for the
  current one some collection.
\<close>

locale collection_refs =
  fixes R :: library_refs
  assumes ref_cache_name: "ref_cache R n l = Some i \<Longrightarrow> i < length (m_cache_vec l) \<and> fst (m_cache_vec l ! i) = n"
    and ref_cache_there: "ref_cache R n l = None \<longleftrightarrow> n \<notin> set (cache_list l)"
    and ref_current_there: "ref_current R l = Some i \<Longrightarrow> i < length (m_cache_vec l)"
begin

lemma ref_cache_pos:
  assumes "ref_cache R n l = Some i" and "wf_lib l"
  shows "i = store_pos l n"
proof -
  have "i < length (m_cache_vec l)" "fst (m_cache_vec l ! i) = n" using ref_cache_name [OF assms(1)] by auto
  moreover have "distinct (map fst (m_cache_vec l))" using assms(2) by (simp add: wf_lib_def cache_list_def)
  ultimately have "find_pos (\<lambda>s. fst s = n) (m_cache_vec l) = i" using find_pos_distinct_key by blast
  then show ?thesis by (simp add: store_pos_def)
qed

lemma ref_cache_map: "ref_cache R n l = Some i \<Longrightarrow> wf_lib l \<Longrightarrow> lib_map l n = Some (cache_of l i)"
  using ref_cache_pos ref_cache_there by (metis lib_map_pos option.distinct(1))

end

text \<open>The references the present library could hand out: those behind its spans.\<close>

definition span_refs :: library_refs where
  "span_refs =
     \<lparr>ref_cache = (\<lambda>n l. if lib_exists l n then Some (store_pos l n) else None),
      ref_current = (\<lambda>l. if unat (m_current l) < length (m_cache_vec l) then Some (unat (m_current l)) else None)\<rparr>"

interpretation span: collection_refs span_refs
  by unfold_locales
    (auto simp: span_refs_def lib_exists_iff store_pos_less store_pos_nth split: if_split_asm)

section \<open>Operations\<close>

text \<open>A call that does not return has no value; for the caller it is a fault like any other.\<close>

definition returned :: "'a result option \<Rightarrow> 'a result" where
  "returned r = (case r of None \<Rightarrow> Inl Never_returns | Some x \<Rightarrow> x)"

text \<open>
  \<^verbatim>\<open>mark_favorate\<close> finds the item in a copy of the current collection and writes into the copy. A
  missing history, collection or item is dereferenced all the same.
\<close>

definition st_mark_favorate :: "('j, 't) json_ops \<Rightarrow> library_refs \<Rightarrow> 'j manager \<Rightarrow> 'j manager result" where
  "st_mark_favorate J R m = noexcept_call (
     if mg_previous m \<noteq> []
     then case ref_current R (mg_cache m) of
         None \<Rightarrow> Inl Undefined
       | Some i \<Rightarrow>
           let cur_cache = cache_of (mg_cache m) i
           in rbind (j_index J (last (mg_previous m)) ''wallpaper'') (\<lambda>w.
              rbind (j_get_string J w) (\<lambda>name.
              let (fnd_it, c1) = cache_find_value name cur_cache
              in if fnd_it < cache_size c1
                 then let copy = c1\<lparr>m_list := (m_list c1)[fnd_it := (m_list c1 ! fnd_it)\<lparr>cache_state := Favorate\<rparr>]\<rparr>
                      in Inr m
                 else Inl Undefined))
     else Inl Undefined)"

text \<open>
  The loop of \<^verbatim>\<open>get_next_wallpaper\<close> on the copy: an index past the end throws, as
  \<^verbatim>\<open>operator[]\<close> is \<^verbatim>\<open>vector::at\<close>; \<open>None\<close> is a loop that never ends. The result has the index,
  the item as it was, and the changed copy.
\<close>

partial_function (option) copy_loop ::
    "(nat \<Rightarrow> nat) \<Rightarrow> nat \<Rightarrow> string cache \<Rightarrow> (nat \<times> string cache_item \<times> string cache) result option" where
  "copy_loop draws k c =
     (let idx = draws k in
      case cache_at c idx of
        Inl e \<Rightarrow> Some (Inl e)
      | Inr x \<Rightarrow>
          if cache_state x = Unused
          then Some (rbind (cache_at_put c idx (x\<lparr>cache_state := Used\<rparr>)) (\<lambda>c'. Inr (idx, x, c')))
          else copy_loop draws (Suc k) c)"

text \<open>Without an active collection the function flows off its end.\<close>

definition st_get_next_wallpaper ::
    "('j, 't) json_ops \<Rightarrow> library_refs \<Rightarrow> (nat \<Rightarrow> nat) \<Rightarrow> 'j manager \<Rightarrow> ('j \<times> 'j manager) result option" where
  "st_get_next_wallpaper J R draws m =
     (case ref_cache R (active_cache_name (mg_cache m)) (mg_cache m) of
        None \<Rightarrow> Some (Inl Undefined)
      | Some i \<Rightarrow>
          let copy = cache_of (mg_cache m) i
          in if draw_bound (m_list copy) < 1 then Some (Inl Undefined)
             else case copy_loop draws 0 copy of
                 None \<Rightarrow> None
               | Some r \<Rightarrow> Some (noexcept_call (rbind r (\<lambda>(idx, ret, copy').
                   rbind (cache_at copy' idx) (\<lambda>chosen.
                   rbind (case pt_get (mg_path_buf m) (loc chosen) of
                            Some p \<Rightarrow> Inr p | None \<Rightarrow> Inl (Throws Bad_optional_access)) (\<lambda>p.
                   rbind (shown_document J ret p idx (active_cache_name (mg_cache m))) (\<lambda>send.
                     Inr (send, m\<lparr>mg_previous := mg_previous m @ [send]\<rparr>))))))))"

text \<open>\<^verbatim>\<open>add_to_collection\<close> does keep the reference.\<close>

definition st_add_to_collection ::
    "('j, 't) json_ops \<Rightarrow> library_refs \<Rightarrow> 'j \<Rightarrow> 'j manager \<Rightarrow> (bool \<times> 'j manager) result" where
  "st_add_to_collection J R server_cmd m = noexcept_call (
     rbind (arg_string J server_cmd ''col_name'') (\<lambda>col_name.
     rbind (arg_string J server_cmd ''wall'') (\<lambda>wall.
     let wall_path = path_parent wall; path_crc = path_hash wall_path
     in case ref_cache R col_name (mg_cache m) of
          Some i \<Rightarrow>
            let l = put_cache i (cache_insert (path_filename wall) path_crc (cache_of (mg_cache m) i)) (mg_cache m)
            in Inr (True, m\<lparr>mg_cache := l, mg_path_buf := pt_insert wall_path (mg_path_buf m)\<rparr>)
        | None \<Rightarrow> Inr (False, m))))"

text \<open>What \<^verbatim>\<open>list_collection\<close> returns: nothing, a reference to a collection, or names.\<close>

datatype listing = List_nothing | List_cache "string cache" | List_names "string list"

definition st_list_collection ::
    "('j, 't) json_ops \<Rightarrow> 'j doc_ops \<Rightarrow> library_refs \<Rightarrow> 'j \<Rightarrow> 'j manager \<Rightarrow> listing result" where
  "st_list_collection J D R server_cmd m = noexcept_call (
     rbind (arg_bool J D server_cmd ''col_only'') (\<lambda>col_only.
     if \<not> col_only
     then case ref_current R (mg_cache m) of
            Some i \<Rightarrow> Inr (List_cache (cache_of (mg_cache m) i))
          | None \<Rightarrow> Inl (Throws Bad_optional_access)
     else Inr (List_names (cache_list (mg_cache m)))))"

section \<open>The loop on the copy\<close>

text \<open>It makes the choices of the command line's loop, and fails where that one reads past the end.\<close>

definition copied :: "string cache \<Rightarrow> nat result \<Rightarrow> (nat \<times> string cache_item \<times> string cache) result" where
  "copied c r = (case r of
     Inl _ \<Rightarrow> Inl (Throws Std_out_of_range)
   | Inr idx \<Rightarrow> Inr (idx, m_list c ! idx, c\<lparr>m_list := (m_list c)[idx := (m_list c ! idx)\<lparr>cache_state := Used\<rparr>]\<rparr>))"

lemma copy_loop_unfold:
  "copy_loop draws k c =
     (if passed_over (m_list c) (draws k) then copy_loop draws (Suc k) c
      else Some (copied c (if draws k < length (m_list c) then Inr (draws k) else Inl Undefined)))"
  by (subst copy_loop.simps) (simp add: Let_def cache_at_def cache_at_put_def passed_over_def copied_def)

lemma copy_loop_skip:
  "(\<And>i. i < j \<Longrightarrow> passed_over (m_list c) (draws (k + i))) \<Longrightarrow> copy_loop draws k c = copy_loop draws (k + j) c"
proof (induction j)
  case 0
  then show ?case by simp
next
  case (Suc j)
  then have "copy_loop draws k c = copy_loop draws (k + j) c" by simp
  also have "\<dots> = copy_loop draws (Suc (k + j)) c"
    using Suc.prems [of j] by (subst copy_loop_unfold) simp
  finally show ?case by simp
qed

lemma copy_loop_ends:
  assumes "copy_loop draws k c = Some r"
  shows "\<exists>j. \<not> passed_over (m_list c) (draws (k + j))"
proof (rule copy_loop.raw_induct [where P = "\<lambda>draws k c r. \<exists>j. \<not> passed_over (m_list c) (draws (k + j))", OF _ assms])
  fix rec draws k c r
  assume IH: "\<And>draws k c r. rec draws k c = Some r \<Longrightarrow> \<exists>j. \<not> passed_over (m_list c) (draws (k + j))"
    and ret: "(let idx = draws k in
      case cache_at c idx of
        Inl e \<Rightarrow> Some (Inl e)
      | Inr x \<Rightarrow>
          if cache_state x = Unused
          then Some (rbind (cache_at_put c idx (x\<lparr>cache_state := Used\<rparr>)) (\<lambda>c'. Inr (idx, x, c')))
          else rec draws (Suc k) c) = Some r"
  show "\<exists>j. \<not> passed_over (m_list c) (draws (k + j))"
  proof (cases "passed_over (m_list c) (draws k)")
    case True
    with ret have "rec draws (Suc k) c = Some r" by (simp add: passed_over_def cache_at_def)
    from IH [OF this] obtain j where "\<not> passed_over (m_list c) (draws (Suc k + j))" by blast
    then show ?thesis by (intro exI [of _ "Suc j"]) simp
  next
    case False
    then show ?thesis by (intro exI [of _ 0]) simp
  qed
qed

lemma copy_loop_pick: "copy_loop draws 0 c = map_option (copied c) (pick_loop draws 0 (m_list c))"
proof (cases "\<forall>k. passed_over (m_list c) (draws k)")
  case True
  then show ?thesis using copy_loop_ends [of draws 0 c] pick_loop_diverges [of draws "m_list c"]
    by (cases "copy_loop draws 0 c") auto
next
  case False
  then have "\<exists>j. \<not> passed_over (m_list c) (draws j) \<and> (\<forall>i < j. \<not> \<not> passed_over (m_list c) (draws i))"
    by (intro exists_least_iff [THEN iffD1]) simp
  then obtain j where j: "\<not> passed_over (m_list c) (draws j)" "\<And>i. i < j \<Longrightarrow> passed_over (m_list c) (draws i)"
    by blast
  have "copy_loop draws 0 c = copy_loop draws j c" using copy_loop_skip [of j c draws 0] j(2) by simp
  also have "\<dots> = Some (copied c (if draws j < length (m_list c) then Inr (draws j) else Inl Undefined))"
    using j(1) by (subst copy_loop_unfold) simp
  finally show ?thesis using pick_loop_first [where draws = draws and items = "m_list c" and j = j] j by simp
qed

section \<open>What the server does to the collections\<close>

context json_library begin

lemma st_next_active:
  assumes "collection_refs R" and "manager_ok m"
    and "lib_map (mg_cache m) (m_active_name (mg_cache m)) = Some c"
    and "0 < cache_size c" and "cache_size c < 2 ^ 31"
  shows "st_get_next_wallpaper J R draws m =
    (case pick_loop draws 0 (m_list c) of
       None \<Rightarrow> None
     | Some (Inl e) \<Rightarrow> Some (Inl (Terminates Std_out_of_range))
     | Some (Inr idx) \<Rightarrow>
         let doc = wall_document J (cache_value (m_list c ! idx))
           (the (pt_get (mg_path_buf m) (loc (m_list c ! idx)))) idx (m_active_name (mg_cache m))
         in Some (Inr (doc, m\<lparr>mg_previous := mg_previous m @ [doc]\<rparr>)))"
proof -
  let ?l = "mg_cache m"
  have "m_active_name ?l \<in> set (cache_list ?l)" using get_cache_found(3) [OF assms(3)] .
  then obtain i where i: "ref_cache R (m_active_name ?l) ?l = Some i"
    using collection_refs.ref_cache_there [OF assms(1)] by (metis not_None_eq)
  have c: "cache_of ?l i = c"
    using collection_refs.ref_cache_map [OF assms(1) i] assms(2,3) by (simp add: manager_ok_def)
  show ?thesis
  proof (cases "pick_loop draws 0 (m_list c)")
    case None
    with i c assms(4,5) show ?thesis
      by (simp add: st_get_next_wallpaper_def active_cache_name_def Let_def draw_bound_small cache_size_def copy_loop_pick)
  next
    case (Some r)
    show ?thesis
    proof (cases r)
      case (Inl e)
      with Some i c assms(4,5) show ?thesis
        by (simp add: st_get_next_wallpaper_def active_cache_name_def Let_def draw_bound_small cache_size_def
            copy_loop_pick copied_def)
    next
      case (Inr idx)
      with Some have idx: "idx < length (m_list c)" by (auto elim: pick_loop_index)
      then have "loc (m_list c ! idx) \<in> lib_locs ?l" using lib_locs_map [OF assms(3)] by simp
      then obtain p where "pt_get (mg_path_buf m) (loc (m_list c ! idx)) = Some p"
        using assms(2) by (auto simp: manager_ok_def located_def)
      with idx Some Inr i c assms(4,5) show ?thesis
        by (simp add: st_get_next_wallpaper_def active_cache_name_def Let_def draw_bound_small cache_size_def
            copy_loop_pick copied_def cache_at_def shown_document_eval)
    qed
  qed
qed

end

lemma st_next_keeps:
  "st_get_next_wallpaper J R draws m = Some (Inr (doc, m')) \<Longrightarrow> m' = m\<lparr>mg_previous := mg_previous m @ [doc]\<rparr>"
  by (auto simp: st_get_next_wallpaper_def rbind_eq_Inr_iff Let_def split: option.splits if_splits)

lemma st_mark_keeps: "st_mark_favorate J R m = Inr m' \<Longrightarrow> m' = m"
  by (auto simp: st_mark_favorate_def rbind_eq_Inr_iff Let_def case_prod_beta split: option.splits if_splits)

lemma st_add_manager:
  assumes "collection_refs R" and "manager_ok m"
    and "arg_string J j ''col_name'' = Inr n" and "arg_string J j ''wall'' = Inr w"
  shows "st_add_to_collection J R j m = mg_add_to_collection n w m"
proof (cases "ref_cache R n (mg_cache m)")
  case None
  then have "n \<notin> set (cache_list (mg_cache m))" using collection_refs.ref_cache_there [OF assms(1)] by simp
  with None assms(3,4) show ?thesis
    by (simp add: st_add_to_collection_def add_to_collection_cases Let_def lib_map_absent)
next
  case (Some i)
  have "lib_map (mg_cache m) n = Some (cache_of (mg_cache m) i)" "i = store_pos (mg_cache m) n"
    using collection_refs.ref_cache_map [OF assms(1) Some] collection_refs.ref_cache_pos [OF assms(1) Some] assms(2)
    by (simp_all add: manager_ok_def)
  with Some assms(3,4) show ?thesis
    by (simp add: st_add_to_collection_def add_to_collection_cases Let_def)
qed

text \<open>The command line never shows the same item twice in a row.\<close>

lemma wall_document_index:
  assumes "json_library J" and "wall_document J n p i a = wall_document J n' p' i' a'" and "i < 2 ^ 32" and "i' < 2 ^ 32"
  shows "i = i'"
proof -
  have "rbind (j_index J (wall_document J n p i a) ''index'') (j_get_u32 J) = Inr (of_nat i)" for n p i a
    using assms(1) by (simp add: wall_document_def json_library.json_simps unsigned_of_nat word_of_nat_eq_iff)
  then have "(of_nat i :: u32) = of_nat i'" using assms(2) by (metis Inr_inject)
  then show ?thesis using assms(3,4) by (simp add: word_of_nat_eq_iff take_bit_nat_eq_self)
qed

lemma next_wall_differs:
  assumes "json_library J" and "manager_ok m"
    and "lib_map (mg_cache m) (m_active_name (mg_cache m)) = Some c" and "cache_size c < 2 ^ 31"
    and "idx < cache_size c" and "doc = wall_document J n p idx a"
    and "next_wall J draws (m\<lparr>mg_cache := shown_lib idx c (mg_cache m), mg_previous := h\<rparr>) = Some (Inr (doc', m'))"
  shows "doc' \<noteq> doc"
proof -
  let ?l = "mg_cache m" and ?m = "m\<lparr>mg_cache := shown_lib idx c (mg_cache m), mg_previous := h\<rparr>"
  let ?c = "c\<lparr>m_modified := True, m_list := (m_list c)[idx := (m_list c ! idx)\<lparr>cache_state := Used\<rparr>]\<rparr>"
  have active: "lib_map (mg_cache ?m) (m_active_name (mg_cache ?m)) = Some ?c"
    by (simp add: lib_map_shown [OF assms(3)])
  have "lib_locs (shown_lib idx c ?l) \<subseteq> lib_locs ?l"
    using assms(5) lib_locs_shown [OF assms(3)] by (simp add: cache_size_def)
  then have "located ?m" using assms(2) by (auto simp: manager_ok_def located_def)
  then have eval: "next_wall J draws ?m = (case pick_loop draws 0 (m_list ?c) of
       None \<Rightarrow> None | Some (Inl e) \<Rightarrow> Some (Inl e)
     | Some (Inr i) \<Rightarrow>
         let doc = wall_document J (cache_value (m_list ?c ! i))
           (the (pt_get (mg_path_buf ?m) (loc (m_list ?c ! i)))) i (m_active_name (mg_cache ?m))
         in Some (Inr (doc, ?m\<lparr>mg_cache := shown_lib i ?c (mg_cache ?m), mg_previous := mg_previous ?m @ [doc]\<rparr>)))"
    using assms(4,5) by (intro json_library.next_wall_active [OF assms(1) active]) (auto simp: cache_size_def)
  obtain i where pick: "pick_loop draws 0 (m_list ?c) = Some (Inr i)"
    using assms(7) unfolding eval by (simp split: option.splits sum.splits)
  then have i: "i < length (m_list c)" "cache_state (m_list ?c ! i) = Unused" by (auto elim: pick_loop_index)
  then have "i \<noteq> idx" using assms(5) by (auto simp: cache_size_def)
  have "\<exists>n p a. doc' = wall_document J n p i a"
    using assms(7) pick unfolding eval by (auto simp: Let_def)
  then show ?thesis using wall_document_index [OF assms(1)] assms(4-6) i(1) \<open>i \<noteq> idx\<close> by (fastforce simp: cache_size_def)
qed

section \<open>Properties\<close>

text \<open>
  C29: the server shows wallpapers without marking them. Whatever references the library hands
  out, a request for the next wallpaper is answered with the document the command line would
  show for the same draws, but only the history grows: the item stays unused, so the same draws
  show the same wallpaper again, where the command line goes on to another one. Marking a
  favourite, if it returns at all, changes nothing.
\<close>

theorem server_never_marks:
  assumes "json_library J" and "collection_refs R" and "manager_ok m"
    and "lib_map (mg_cache m) (m_active_name (mg_cache m)) = Some c" and "cache_size c < 2 ^ 31"
    and "draws j < cache_size c" and "cache_state (m_list c ! draws j) = Unused"
    and "\<And>i. i < j \<Longrightarrow> passed_over (m_list c) (draws i)"
  shows "\<exists>doc m1. next_wall J draws m = Some (Inr (doc, m1)) \<and>
    st_get_next_wallpaper J R draws m = Some (Inr (doc, m\<lparr>mg_previous := mg_previous m @ [doc]\<rparr>)) \<and>
    st_get_next_wallpaper J R draws (m\<lparr>mg_previous := mg_previous m @ [doc]\<rparr>) =
      Some (Inr (doc, m\<lparr>mg_previous := mg_previous m @ [doc, doc]\<rparr>)) \<and>
    (\<forall>doc' m'. next_wall J draws m1 = Some (Inr (doc', m')) \<longrightarrow> doc' \<noteq> doc) \<and>
    (\<forall>m'. st_mark_favorate J R m = Inr m' \<longrightarrow> m' = m)"
proof -
  let ?l = "mg_cache m" and ?x = "m_list c ! draws j"
  let ?doc = "wall_document J (cache_value ?x) (the (pt_get (mg_path_buf m) (loc ?x))) (draws j) (m_active_name ?l)"
  let ?m = "m\<lparr>mg_previous := mg_previous m @ [?doc]\<rparr>"
  have size: "0 < cache_size c" using assms(6) by simp
  have pick: "pick_loop draws 0 (m_list c) = Some (Inr (draws j))"
    using pick_loop_first [where j = j and draws = draws and items = "m_list c"] assms(6-8)
    by (simp add: cache_size_def passed_over_def)
  have "manager_ok ?m" using assms(3) by (simp add: manager_ok_def located_def)
  then have again: "st_get_next_wallpaper J R draws ?m = Some (Inr (?doc, m\<lparr>mg_previous := mg_previous m @ [?doc, ?doc]\<rparr>))"
    using json_library.st_next_active [OF assms(1,2), of ?m c draws] assms(4,5) size pick by (simp add: Let_def)
  have shown: "st_get_next_wallpaper J R draws m = Some (Inr (?doc, ?m))"
    using json_library.st_next_active [OF assms(1,2,3,4) size assms(5), of draws] pick by (simp add: Let_def)
  let ?m1 = "m\<lparr>mg_cache := shown_lib (draws j) c ?l, mg_previous := mg_previous m @ [?doc]\<rparr>"
  have next_: "next_wall J draws m = Some (Inr (?doc, ?m1))"
    using json_library.next_wall_active [OF assms(1,4) size assms(5), of draws] pick assms(3)
    by (simp add: Let_def manager_ok_def)
  have "doc' \<noteq> ?doc" if "next_wall J draws ?m1 = Some (Inr (doc', m'))" for doc' m'
    using next_wall_differs [OF assms(1,3,4,5,6) refl that] .
  with next_ shown again st_mark_keeps show ?thesis by blast
qed

theorem server_never_marks_witness:
  "\<exists>doc. st_get_next_wallpaper json_tree_ops span_refs (\<lambda>_. 1) sample_manager =
      Some (Inr (doc, sample_manager\<lparr>mg_previous := [doc]\<rparr>)) \<and>
    st_get_next_wallpaper json_tree_ops span_refs (\<lambda>_. 1) (sample_manager\<lparr>mg_previous := [doc]\<rparr>) =
      Some (Inr (doc, sample_manager\<lparr>mg_previous := [doc, doc]\<rparr>))"
  using server_never_marks [OF tree_library span.collection_refs_axioms manager_ok_sample sample_active(1), of "\<lambda>_. 1" 0]
  by (auto simp: sample_active(5) sample_cache_def cache_size_def)

text \<open>
  C30: every outcome of a request for the next wallpaper. Without an active collection, or with
  an empty one, it is undefined; if every draw meets an item that is not unused, the call does
  not return; if the draws reach the size of the collection first, which they may as they are not
  numbered from zero, the exception of the checked access ends the server; otherwise the item at
  the first draw of an unused one is shown, which is never the first item.
\<close>

theorem server_next_branches:
  assumes "json_library J" and "collection_refs R" and "manager_ok m"
    and "\<And>c. lib_map (mg_cache m) (m_active_name (mg_cache m)) = Some c \<Longrightarrow> cache_size c < 2 ^ 31 \<and>
      (\<forall>k. 1 \<le> draws k \<and> draws k \<le> max 1 (cache_size c))"
  shows "case lib_map (mg_cache m) (m_active_name (mg_cache m)) of
      None \<Rightarrow> st_get_next_wallpaper J R draws m = Some (Inl Undefined)
    | Some c \<Rightarrow>
        if cache_size c = 0 then st_get_next_wallpaper J R draws m = Some (Inl Undefined)
        else if \<forall>k. passed_over (m_list c) (draws k) then st_get_next_wallpaper J R draws m = None
        else if \<exists>j. draws j = cache_size c \<and> (\<forall>i < j. passed_over (m_list c) (draws i))
        then st_get_next_wallpaper J R draws m = Some (Inl (Terminates Std_out_of_range))
        else \<exists>j doc. 1 \<le> draws j \<and> draws j < cache_size c \<and> cache_state (m_list c ! draws j) = Unused \<and>
          st_get_next_wallpaper J R draws m = Some (Inr (doc, m\<lparr>mg_previous := mg_previous m @ [doc]\<rparr>))"
proof (cases "lib_map (mg_cache m) (m_active_name (mg_cache m))")
  case None
  then have "ref_cache R (m_active_name (mg_cache m)) (mg_cache m) = None"
    using collection_refs.ref_cache_there [OF assms(2)] by (simp add: lib_map_None_iff)
  with None show ?thesis by (simp add: st_get_next_wallpaper_def active_cache_name_def)
next
  case (Some c)
  note bounds = assms(4) [OF Some]
  show ?thesis
  proof (cases "cache_size c = 0")
    case True
    obtain i where i: "ref_cache R (m_active_name (mg_cache m)) (mg_cache m) = Some i"
      using collection_refs.ref_cache_there [OF assms(2)] get_cache_found(3) [OF Some] by (metis not_None_eq)
    have "cache_of (mg_cache m) i = c"
      using collection_refs.ref_cache_map [OF assms(2) i] assms(3) Some by (simp add: manager_ok_def)
    with True i Some show ?thesis
      by (simp add: st_get_next_wallpaper_def active_cache_name_def Let_def cache_size_def draw_bound_small)
  next
    case False
    note eval = json_library.st_next_active [OF assms(1-3) Some, of draws]
    show ?thesis
    proof (cases "\<forall>k. passed_over (m_list c) (draws k)")
      case True
      with Some False eval bounds show ?thesis by (simp add: pick_loop_diverges [THEN iffD2])
    next
      case nonempty: False
      then have "\<exists>j. \<not> passed_over (m_list c) (draws j) \<and> (\<forall>i < j. \<not> \<not> passed_over (m_list c) (draws i))"
        by (intro exists_least_iff [THEN iffD1]) simp
      then obtain j where j: "\<not> passed_over (m_list c) (draws j)" "\<And>i. i < j \<Longrightarrow> passed_over (m_list c) (draws i)"
        by blast
      note pick = pick_loop_first [where draws = draws and items = "m_list c" and j = j, OF j(2) j(1)]
      have range: "1 \<le> draws j" "draws j \<le> cache_size c" using bounds False by (auto simp: max_def split: if_splits)
      have first: "i = j" if "draws i = cache_size c" "\<forall>k < i. passed_over (m_list c) (draws k)" for i
        using that j by (metis linorder_neqE_nat passed_over_def cache_size_def nat_less_le)
      show ?thesis
      proof (cases "draws j = cache_size c")
        case True
        with j have "\<exists>j. draws j = cache_size c \<and> (\<forall>i < j. passed_over (m_list c) (draws i))" by blast
        with Some False nonempty eval bounds pick True show ?thesis by (simp add: cache_size_def)
      next
        case less: False
        with first have "\<not> (\<exists>j. draws j = cache_size c \<and> (\<forall>i < j. passed_over (m_list c) (draws i)))" by blast
        moreover have "draws j < cache_size c" "cache_state (m_list c ! draws j) = Unused"
          using less range j(1) by (auto simp: passed_over_def cache_size_def)
        ultimately show ?thesis
          using Some False nonempty eval bounds pick range(1) by (auto simp: cache_size_def Let_def)
      qed
    qed
  qed
qed

theorem server_next_branches_witness:
  "st_get_next_wallpaper json_tree_ops span_refs (\<lambda>_. 2) sample_manager = Some (Inl (Terminates Std_out_of_range))"
proof -
  have size: "cache_size sample_cache = 2" by (simp add: sample_cache_def cache_size_def)
  then have bounds: "cache_size c < 2 ^ 31 \<and> (\<forall>k. 1 \<le> (2::nat) \<and> 2 \<le> max 1 (cache_size c))"
    if "lib_map (mg_cache sample_manager) (m_active_name (mg_cache sample_manager)) = Some c" for c
    using that by (simp only: sample_active(1)) auto
  have "\<exists>j :: nat. (2::nat) = 2 \<and> (\<forall>i < j. passed_over (m_list sample_cache) 2)" by (intro exI [of _ 0]) simp
  moreover have "\<not> passed_over (m_list sample_cache) 2" using size by (simp add: passed_over_def cache_size_def)
  ultimately show ?thesis
    using server_next_branches [OF tree_library span.collection_refs_axioms manager_ok_sample bounds]
    by (simp only: sample_active(1) option.case size) simp
qed

end
