(* ===== verification/Change_Server.thy ===== *)
theory Change_Server
  imports Server_Interface Message_Type State_Walls
begin

text \<open>
  The server of the program: class \<^verbatim>\<open>change_server\<close> of
  \<^verbatim>\<open>src/src/change_service/change_server.hpp\<close>. It extends the state of the base class by its
  start time and the state of the wallpapers, and overrides the three virtual functions.
  Parameters are the clock, the bytes of a truth value and of a time point, the JSON library,
  the file system, the random draws in each state, and the references to collections that the
  operations on wallpapers are written for (see \<^verbatim>\<open>State_Walls\<close>).
\<close>

section \<open>State and environment\<close>

record 'j change_server = "u32 server" +
  m_start_time :: u64
  m_state :: "'j state"

record ('j, 't) server_env =
  se_json :: "('j, 't) json_ops"
  se_docs :: "'j doc_ops"
  se_fs :: fs_calls
  se_now :: u64
  se_bool_bytes :: "bool \<Rightarrow> u8 list"
  se_time_bytes :: "u64 \<Rightarrow> u8 list"
  se_refs :: library_refs
  se_draws :: "'j manager \<Rightarrow> nat \<Rightarrow> nat"

text \<open>The operations of \<^verbatim>\<open>m_state\<close> on wallpapers, in this environment.\<close>

definition se_next :: "('j, 't) server_env \<Rightarrow> 'j manager \<Rightarrow> ('j \<times> 'j manager) result" where
  "se_next E st = returned (st_get_next_wallpaper (se_json E) (se_refs E) (se_draws E st) st)"

definition se_mark :: "('j, 't) server_env \<Rightarrow> 'j manager \<Rightarrow> 'j manager result" where
  "se_mark E st = st_mark_favorate (se_json E) (se_refs E) st"

definition se_add :: "('j, 't) server_env \<Rightarrow> 'j \<Rightarrow> 'j manager \<Rightarrow> (bool \<times> 'j manager) result" where
  "se_add E server_cmd st = st_add_to_collection (se_json E) (se_refs E) server_cmd st"

definition se_list :: "('j, 't) server_env \<Rightarrow> 'j \<Rightarrow> 'j manager \<Rightarrow> listing result" where
  "se_list E server_cmd st = st_list_collection (se_json E) (se_docs E) (se_refs E) server_cmd st"

section \<open>Handlers\<close>

definition flag_message :: "('j, 't) server_env \<Rightarrow> MessageType \<Rightarrow> bool \<Rightarrow> u32 message" where
  "flag_message E type b = push_data (se_now E) (se_bool_bytes E b) (new_message (type_number type))"

definition m_success :: "('j, 't) server_env \<Rightarrow> u32 message" where
  "m_success E = flag_message E Status_Success True"

definition cs_client_connect ::
    "('j, 't) server_env \<Rightarrow> nat \<Rightarrow> ('j, 'z) change_server_scheme \<Rightarrow> (bool \<times> ('j, 'z) change_server_scheme) result" where
  "cs_client_connect E client sv =
     rbind (client_send (Some client) (flag_message E Client_Accepted True) sv) (\<lambda>sv1. Inr (True, sv1))"

text \<open>The log line reads the id of the client.\<close>

definition cs_client_disconnect ::
    "nat option \<Rightarrow> ('j, 'z) change_server_scheme \<Rightarrow> ('j, 'z) change_server_scheme result" where
  "cs_client_disconnect client sv = rbind (client_id client sv) (\<lambda>_. Inr sv)"

definition reply ::
    "nat option \<Rightarrow> u32 message \<Rightarrow> ('j, 'z) change_server_scheme \<Rightarrow> ('j, 'z) change_server_scheme result" where
  "reply client m sv = client_send client m sv"

definition reply_logged ::
    "nat option \<Rightarrow> u32 message \<Rightarrow> ('j, 'z) change_server_scheme \<Rightarrow> ('j, 'z) change_server_scheme result" where
  "reply_logged client m sv = rbind (client_send client m sv) (\<lambda>sv1. rbind (client_id client sv1) (\<lambda>_. Inr sv1))"

text \<open>The common form of the collection requests: the reply of success, or none.\<close>

definition reply_if ::
    "('j, 't) server_env \<Rightarrow> nat option \<Rightarrow> (bool \<times> 'j manager) result \<Rightarrow> ('j, 'z) change_server_scheme \<Rightarrow>
      ('j, 'z) change_server_scheme result" where
  "reply_if E client r sv = rbind r (\<lambda>(ok, st).
     let sv1 = sv\<lparr>m_state := st\<rparr> in if ok then client_send client (m_success E) sv1 else Inr sv1)"

definition listing_doc :: "('j, 't) json_ops \<Rightarrow> listing \<Rightarrow> 'j result" where
  "listing_doc J r = (case r of
     List_nothing \<Rightarrow> Inr (j_null J)
   | List_cache c \<Rightarrow> rbind (j_put J (j_null J) ''list'' (cache_to_json J c)) (\<lambda>obj. j_put J obj ''list-only'' (j_bool J False))
   | List_names ns \<Rightarrow> rbind (j_put J (j_null J) ''list'' (j_array J (map (j_string J) ns)))
       (\<lambda>obj. j_put J obj ''list-only'' (j_bool J True)))"

definition status_doc :: "('j, 't) server_env \<Rightarrow> ('j, 'z) change_server_scheme \<Rightarrow> 'j result" where
  "status_doc E sv =
     rbind (j_put (se_json E) (j_null (se_json E)) ''connections''
              (j_unsigned (se_json E) (of_nat (length (m_connections sv))))) (\<lambda>ret.
       j_put (se_json E) ret ''uptime'' (d_integer (se_docs E) (se_now E - m_start_time sv)))"

text \<open>The \<^verbatim>\<open>switch\<close>; a number that is no message type has no case.\<close>

definition m_process ::
    "('j, 't) server_env \<Rightarrow> u32 \<Rightarrow> nat option \<Rightarrow> u32 message \<Rightarrow> ('j, 'z) change_server_scheme \<Rightarrow>
      ('j, 'z) change_server_scheme result" where
  "m_process E type client m sv =
     rbind (msg_to_json (se_docs E) m) (\<lambda>server_cmd.
     let J = se_json E; D = se_docs E; now = se_now E; st = m_state sv
     in case type_of_number type of
       None \<Rightarrow> Inr sv
     | Some Get_Next_Wallpaper \<Rightarrow> rbind (se_next E st) (\<lambda>(send, st').
         reply_logged client (json_to_msg D now Get_Next_Wallpaper send) (sv\<lparr>m_state := st'\<rparr>))
     | Some Get_Previous_Wallpaper \<Rightarrow>
         let (prev, st') = st_previous J st; sv1 = sv\<lparr>m_state := st'\<rparr>
         in if \<not> d_is_empty D prev
            then reply_logged client (json_to_msg D now Get_Previous_Wallpaper prev) sv1
            else reply_logged client (flag_message E Status_Failure False) sv1
     | Some Get_Current \<Rightarrow> rbind (se_next E st) (\<lambda>(cur, st').
         reply_logged client (json_to_msg D now Get_Current cur) (sv\<lparr>m_state := st'\<rparr>))
     | Some Mark_Favorate \<Rightarrow> rbind (se_mark E st) (\<lambda>st'. reply client (m_success E) (sv\<lparr>m_state := st'\<rparr>))
     | Some Change_Active_Collection \<Rightarrow>
         rbind (client_id client sv) (\<lambda>_. reply_if E client (st_change_active J server_cmd st) sv)
     | Some Create_Collection \<Rightarrow> reply_if E client (st_create_collection J D (se_fs E) server_cmd st) sv
     | Some Add_To_Collection \<Rightarrow> reply_if E client (se_add E server_cmd st) sv
     | Some Rename_Collection \<Rightarrow> reply_if E client (st_rename_collection J server_cmd st) sv
     | Some Remove \<Rightarrow> reply_if E client (st_remove_collection J D server_cmd st) sv
     | Some List_Collections \<Rightarrow> rbind (client_id client sv) (\<lambda>_. rbind (se_list E server_cmd st) (\<lambda>state_res.
         rbind (listing_doc J state_res) (\<lambda>obj.
         if \<not> j_is_null J obj then reply client (json_to_msg D now List_Collections obj) sv else Inr sv)))
     | Some Merge_Collection \<Rightarrow>
         rbind (client_id client sv) (\<lambda>_. reply_if E client (st_merge_collection J server_cmd st) sv)
     | Some Move \<Rightarrow>
         rbind (client_id client sv) (\<lambda>_. reply_if E client (st_move_collection J server_cmd st) sv)
     | Some Server_GetStatus \<Rightarrow> rbind (client_id client sv) (\<lambda>_. rbind (status_doc E sv) (\<lambda>ret.
         reply client (json_to_msg D now Server_GetStatus ret) sv))
     | Some Server_GetPing \<Rightarrow> rbind (client_id client sv) (\<lambda>_.
         reply client (push_data now (se_time_bytes E (time m)) m) sv)
     | Some _ \<Rightarrow> Inr sv)"

definition cs_message ::
    "('j, 't) server_env \<Rightarrow> nat option \<Rightarrow> u32 message \<Rightarrow> ('j, 'z) change_server_scheme \<Rightarrow>
      ('j, 'z) change_server_scheme result" where
  "cs_message E client m sv =
     (if validate m then m_process E (msg_id (header m)) client m sv else Inr sv)"

definition change_server_virtuals ::
    "('j, 't) server_env \<Rightarrow> (u32, ('j, 'z) change_server_ext) virtuals" where
  "change_server_virtuals E =
     \<lparr>on_client_connect = cs_client_connect E, on_client_disconnect = cs_client_disconnect,
      on_message = cs_message E\<rparr>"

text \<open>The constructor: the base class has no connections, and the state is read from the files.\<close>

definition new_change_server :: "u64 \<Rightarrow> 'j state \<Rightarrow> 'j change_server" where
  "new_change_server now st =
     \<lparr>sv_conns = (\<lambda>_. None), m_connections = [], m_incomming = new_queue, m_start_time = now, m_state = st\<rparr>"

lemma new_change_server_simps [simp]:
  "sv_conns (new_change_server now st) = (\<lambda>_. None)" "m_connections (new_change_server now st) = []"
  "m_incomming (new_change_server now st) = new_queue" "m_start_time (new_change_server now st) = now"
  "m_state (new_change_server now st) = st"
  by (simp_all add: new_change_server_def)

lemma new_change_server_empty [simp]: "empty_server (new_change_server now st)"
  by (simp add: empty_server_def new_queue_def)

text \<open>\<^verbatim>\<open>store_state\<close>, after the main loop.\<close>

definition store_state ::
    "('j, 't) server_env \<Rightarrow> string \<Rightarrow> (string \<Rightarrow> bool) \<Rightarrow> ('j, 'z) change_server_scheme \<Rightarrow> 't files \<Rightarrow> 't files result" where
  "store_state E data_dir can_write sv fs = st_store_state (se_json E) data_dir can_write (m_state sv) fs"

text \<open>
  The main loop of \<^verbatim>\<open>src/src/change_service/service_main.cpp\<close> on Linux: before each round the
  thread of asio has changed the connections and the queue; the list ends when the signal has
  set the flag. Nothing is caught.
\<close>

primrec main_loop ::
    "('j, 't) server_env \<Rightarrow> ('j change_server \<Rightarrow> 'j change_server) list \<Rightarrow> 'j change_server \<Rightarrow> 'j change_server result" where
  "main_loop E [] sv = Inr sv"
| "main_loop E (net # rounds) sv = rbind (update (change_server_virtuals E) (-1) (net sv)) (main_loop E rounds)"

definition service_main_linux ::
    "('j, 't) server_env \<Rightarrow> string \<Rightarrow> (string \<Rightarrow> bool) \<Rightarrow> bool \<Rightarrow> ('j change_server \<Rightarrow> 'j change_server) list \<Rightarrow>
      'j change_server \<Rightarrow> 't files \<Rightarrow> 't files result" where
  "service_main_linux E data_dir can_write running rounds sv fs =
     (if running then rbind (main_loop E rounds sv) (\<lambda>sv'. store_state E data_dir can_write sv' fs) else Inr fs)"

section \<open>The contract of the base class\<close>

lemma state_fields [simp]:
  "client_id p (sv\<lparr>m_state := st\<rparr>) = client_id p sv" "valid_client p (sv\<lparr>m_state := st\<rparr>) = valid_client p sv"
  by (simp_all add: client_id_def valid_client_def)

lemma client_id_valid: "valid_client p sv \<Longrightarrow> \<exists>i. client_id p sv = Inr i"
  by (auto simp: client_id_def valid_client_def)

text \<open>
  A handler that answers: it leaves the base class alone but for messages to the client that
  asked, which are posted if the client is still connected.
\<close>

definition answers :: "nat option \<Rightarrow> u32 message list \<Rightarrow> ('j, 'z) change_server_scheme \<Rightarrow> ('j, 'z) change_server_scheme \<Rightarrow> bool" where
  "answers client rs sv sv' \<longleftrightarrow> m_connections sv' = m_connections sv \<and> m_incomming sv' = m_incomming sv \<and>
     m_start_time sv' = m_start_time sv \<and>
     (\<forall>a. sv_conns sv' a = map_option (sent (if Some a = client \<and> client_connected client sv then rs else [])) (sv_conns sv a))"

lemma map_sent_Nil [simp]: "map_option (sent []) x = x"
  by (cases x) simp_all

lemma answers_sends: "answers client rs sv sv' \<Longrightarrow> only_sends sv sv'"
  unfolding answers_def only_sends_def by blast

lemma answers_none [simp]: "answers client [] sv (sv\<lparr>m_state := st\<rparr>)" "answers client [] sv sv"
  by (simp_all add: answers_def)

lemma answers_send: "client_send client m (sv\<lparr>m_state := st\<rparr>) = Inr sv' \<Longrightarrow> answers client [m] sv sv'"
proof -
  assume "client_send client m (sv\<lparr>m_state := st\<rparr>) = Inr sv'"
  then obtain a c where a: "client = Some a" "sv_conns sv a = Some c"
    and sv': "sv' = sv\<lparr>m_state := st, sv_conns := (sv_conns sv)(a \<mapsto> send_message m c)\<rparr>"
    by (auto simp: client_send_eval)
  have "sv_conns sv' b = map_option (sent (if Some b = client \<and> client_connected client sv then [m] else [])) (sv_conns sv b)" for b
    using a sv' by (cases "b = a"; cases "is_connected c") (simp_all add: client_connected_def send_message_sent)
  with sv' show ?thesis by (simp add: answers_def)
qed

lemma answers_send_same: "client_send client m sv = Inr sv' \<Longrightarrow> answers client [m] sv sv'"
  using answers_send [of client m "m_state sv" sv sv'] by simp

definition allowed_replies :: "MessageType \<Rightarrow> MessageType list" where
  "allowed_replies t = (case t of
     Get_Next_Wallpaper \<Rightarrow> [Get_Next_Wallpaper]
   | Get_Previous_Wallpaper \<Rightarrow> [Get_Previous_Wallpaper, Status_Failure]
   | Get_Current \<Rightarrow> [Get_Current] | List_Collections \<Rightarrow> [List_Collections]
   | Server_GetStatus \<Rightarrow> [Server_GetStatus] | Server_GetPing \<Rightarrow> [Server_GetPing]
   | Client_Accepted \<Rightarrow> [] | Client_AssignID \<Rightarrow> [] | Client_RegisterWithServer \<Rightarrow> []
   | Client_UnregisterWithServer \<Rightarrow> [] | Status_Success \<Rightarrow> [] | Status_Failure \<Rightarrow> []
   | _ \<Rightarrow> [Status_Success])"

definition good_reply :: "u32 \<Rightarrow> u32 message \<Rightarrow> bool" where
  "good_reply type r \<longleftrightarrow> finalized r \<and>
     (case type_of_number type of
        None \<Rightarrow> False
      | Some t \<Rightarrow> msg_id (header r) \<in> type_number ` set (allowed_replies t))"

definition answers_well :: "u32 \<Rightarrow> nat option \<Rightarrow> ('j, 'z) change_server_scheme \<Rightarrow> ('j, 'z) change_server_scheme \<Rightarrow> bool" where
  "answers_well type client sv sv' \<longleftrightarrow>
     (\<exists>rs. length rs \<le> 1 \<and> answers client rs sv sv' \<and> list_all (good_reply type) rs)"

lemma answers_wellI [intro]:
  "answers client [] sv sv' \<Longrightarrow> answers_well type client sv sv'"
  "answers client [r] sv sv' \<Longrightarrow> good_reply type r \<Longrightarrow> answers_well type client sv sv'"
  unfolding answers_well_def by (rule exI [of _ "[]"], simp) (rule exI [of _ "[r]"], simp)

lemma message_fields [simp]:
  "finalized (json_to_msg D now t j)" "msg_id (header (json_to_msg D now t j)) = type_number t"
  "body (json_to_msg D now t j) = d_to_cbor D j"
  "finalized (flag_message E t b)" "msg_id (header (flag_message E t b)) = type_number t"
  "finalized (m_success E)" "msg_id (header (m_success E)) = type_number Status_Success"
  "validate (flag_message E t b)" "validate (m_success E)"
  by (simp_all add: json_to_msg_def flag_message_def m_success_def new_message_def)

lemma reply_logged_answers:
  "reply_logged client r (sv\<lparr>m_state := st\<rparr>) = Inr sv' \<Longrightarrow> answers client [r] sv sv'"
  by (auto simp: reply_logged_def rbind_eq_Inr_iff dest: answers_send)

lemma reply_answers:
  "reply client r (sv\<lparr>m_state := st\<rparr>) = Inr sv' \<Longrightarrow> answers client [r] sv sv'"
  "reply client r sv = Inr sv' \<Longrightarrow> answers client [r] sv sv'"
  by (auto simp: reply_def dest: answers_send answers_send_same)

lemma reply_if_answers:
  assumes "reply_if E client r sv = Inr sv'" and "allowed_replies t = [Status_Success]"
  shows "answers_well (type_number t) client sv sv'"
proof -
  from assms(1) obtain ok st where "(if ok then client_send client (m_success E) (sv\<lparr>m_state := st\<rparr>) else Inr (sv\<lparr>m_state := st\<rparr>)) = Inr sv'"
    by (auto simp: reply_if_def rbind_eq_Inr_iff Let_def)
  then consider "answers client [] sv sv'" | "answers client [m_success E] sv sv'"
    by (cases ok) (auto dest: answers_send)
  then show ?thesis using assms(2) by cases (auto simp: good_reply_def)
qed

text \<open>A reply of an allowed type.\<close>

lemma good_replyI: "finalized r \<Longrightarrow> msg_id (header r) = type_number u \<Longrightarrow> u \<in> set (allowed_replies t) \<Longrightarrow> good_reply (type_number t) r"
  by (simp add: good_reply_def)

lemma one_reply_answers:
  assumes "finalized r" and "msg_id (header r) = type_number u" and "u \<in> set (allowed_replies t)"
  shows "reply client r (sv\<lparr>m_state := st\<rparr>) = Inr sv' \<Longrightarrow> answers_well (type_number t) client sv sv'"
    and "reply client r sv = Inr sv' \<Longrightarrow> answers_well (type_number t) client sv sv'"
    and "reply_logged client r (sv\<lparr>m_state := st\<rparr>) = Inr sv' \<Longrightarrow> answers_well (type_number t) client sv sv'"
  using good_replyI [OF assms] by (blast dest: reply_answers reply_logged_answers)+

lemma listing_answers:
  "(if \<not> j_is_null J obj then reply client (json_to_msg D now List_Collections obj) sv else Inr sv) = Inr sv' \<Longrightarrow> answers_well (type_number List_Collections) client sv sv'"
  by (auto split: if_split_asm dest: one_reply_answers(2) [rotated 3, of _ _ _ _ List_Collections List_Collections]
    simp: allowed_replies_def)

lemma previous_answers:
  "(if \<not> d_is_empty D prev then reply_logged client (json_to_msg D now Get_Previous_Wallpaper prev) (sv\<lparr>m_state := st\<rparr>)
    else reply_logged client (flag_message E Status_Failure False) (sv\<lparr>m_state := st\<rparr>)) = Inr sv' \<Longrightarrow>
    answers_well (type_number Get_Previous_Wallpaper) client sv sv'"
  by (auto split: if_split_asm simp: allowed_replies_def
    dest: one_reply_answers(3) [rotated 3, of _ _ _ _ _ Get_Previous_Wallpaper Get_Previous_Wallpaper]
      one_reply_answers(3) [rotated 3, of _ _ _ _ _ Status_Failure Get_Previous_Wallpaper])

lemma m_process_answers:
  assumes "m_process E type client m sv = Inr sv'" and "msg_id (header m) = type"
  shows "answers_well type client sv sv'"
proof (cases "type_of_number type")
  case None
  with assms(1) have "sv' = sv" by (auto simp: m_process_def rbind_eq_Inr_iff Let_def)
  then show ?thesis by (simp add: answers_wellI)
next
  case (Some t)
  have num: "type = type_number t" using Some by (rule type_of_number_SomeD)
  have pong: "reply client (push_data (se_now E) (se_time_bytes E (time m)) m) sv = Inr sv' \<Longrightarrow> t = Server_GetPing \<Longrightarrow>
      answers_well (type_number Server_GetPing) client sv sv'"
    using assms(2) num by (intro one_reply_answers(2) [of _ Server_GetPing]) (simp_all add: allowed_replies_def)
  show ?thesis
    using assms(1) pong unfolding num
    by (cases t)
      (auto simp: m_process_def rbind_eq_Inr_iff Let_def case_prod_beta intro: listing_answers previous_answers
        elim!: reply_if_answers one_reply_answers [rotated 3] simp: allowed_replies_def)
qed

section \<open>The server keeps the contract\<close>

lemma cs_connect_sends: "cs_client_connect E a sv = Inr (ok, sv') \<Longrightarrow> only_sends sv sv'"
  by (auto simp: cs_client_connect_def rbind_eq_Inr_iff dest: client_send_sends)

lemma cs_message_sends:
  assumes "cs_message E p m sv = Inr sv'"
  shows "only_sends sv sv'"
proof (cases "validate m")
  case True
  with assms have "answers_well (msg_id (header m)) p sv sv'"
    by (simp add: cs_message_def m_process_answers)
  then show ?thesis by (auto simp: answers_well_def dest: answers_sends)
next
  case False
  with assms show ?thesis by (simp add: cs_message_def)
qed

lemma cs_disconnect_silent: "valid_client p sv \<Longrightarrow> cs_client_disconnect p sv = Inr sv"
  by (auto simp: cs_client_disconnect_def dest: client_id_valid)

interpretation cs: silent_hooks "change_server_virtuals E" for E :: "('j, 't) server_env"
proof unfold_locales
  fix p :: "nat option" and sv sv' :: "('j, 'z) change_server_scheme"
  show "on_client_disconnect (change_server_virtuals E) p sv = Inr sv' \<Longrightarrow> only_sends sv sv'"
    by (auto simp: change_server_virtuals_def cs_client_disconnect_def rbind_eq_Inr_iff)
qed (simp_all add: change_server_virtuals_def cs_connect_sends cs_message_sends cs_disconnect_silent)

section \<open>Evaluation\<close>

text \<open>A collection request: the document of a message and what the server makes of it.\<close>

primrec request_type :: "request \<Rightarrow> MessageType" where
  "request_type (Activate n) = Change_Active_Collection"
| "request_type (Rename n k) = Rename_Collection"
| "request_type (Merge n k) = Merge_Collection"
| "request_type (Move_wall n k w) = Move"
| "request_type (Remove_collection n) = Remove"
| "request_type (Remove_wall n w) = Remove"
| "request_type (Create_empty n) = Create_Collection"
| "request_type (Create_from n p r) = Create_Collection"

lemma m_process_request:
  assumes "msg_to_json (se_docs E) m = Inr (request_doc (se_json E) q)" and "valid_client p sv"
  shows "m_process E (type_number (request_type q)) p m sv =
    reply_if E p (serve (se_json E) (se_docs E) (se_fs E) q (m_state sv)) sv"
  using assms(1) client_id_valid [OF assms(2)] by (cases q) (auto simp: m_process_def Let_def)

lemma reply_if_Inr:
  assumes "valid_client p sv" and "r = Inr (ok, st)"
  shows "\<exists>sv'. reply_if E p r sv = Inr sv' \<and> m_state sv' = st \<and> answers p (if ok then [m_success E] else []) sv sv'"
proof (cases ok)
  case True
  obtain sv' where sv': "client_send p (m_success E) (sv\<lparr>m_state := st\<rparr>) = Inr sv'"
    using client_send_valid assms(1) state_fields(2) by blast
  then have "m_state sv' = st" by (auto simp: client_send_eval)
  with sv' True assms(2) show ?thesis by (auto simp: reply_if_def dest: answers_send)
next
  case False
  with assms(2) show ?thesis by (simp add: reply_if_def)
qed

section \<open>A concrete server\<close>

definition sample_env :: "(json_tree, json_tree) server_env" where
  "sample_env =
     \<lparr>se_json = json_tree_ops, se_docs = sample_docs, se_fs = sample_fs, se_now = 5,
      se_bool_bytes = (\<lambda>b. [if b then 1 else 0]), se_time_bytes = (\<lambda>t. [ucast t]),
      se_refs = span_refs, se_draws = (\<lambda>_ _. 1)\<rparr>"

definition sample_server :: "json_tree change_server" where
  "sample_server = new_change_server 3 sample_manager"

text \<open>One client, connected, with one message waiting.\<close>

definition sample_busy :: "u32 message \<Rightarrow> json_tree change_server" where
  "sample_busy m = sample_server\<lparr>sv_conns := [0 \<mapsto> connect_to_client 7 (new_connection 0 Owner_server True 0)],
     m_connections := [Some 0], m_incomming := \<lparr>m_queue = [\<lparr>remote = Some 0, msg = m\<rparr>]\<rparr>\<rparr>"

lemma empty_sample [simp]: "empty_server sample_server"
  by (simp add: sample_server_def)

lemma sample_busy_simps [simp]:
  "m_connections (sample_busy m) = [Some 0]" "m_state (sample_busy m) = sample_manager"
  "m_queue (m_incomming (sample_busy m)) = [\<lparr>remote = Some 0, msg = m\<rparr>]"
  "client_connected (Some 0) (sample_busy m)" "valid_client (Some 0) (sample_busy m)"
  "sv_conns (sample_busy m) 0 = Some (connect_to_client 7 (new_connection 0 Owner_server True 0))"
  by (simp_all add: sample_busy_def client_connected_def valid_client_def connect_to_client_def
      new_connection_def is_connected_def read_header_def sample_server_def)

lemma sample_busy_ok: "server_ok (sample_busy m)"
proof -
  have "cn_self c = a \<and> cn_owner c = Owner_server" if "sv_conns (sample_busy m) a = Some c" for a c
    using that by (auto simp: sample_busy_def new_connection_def split: if_split_asm)
  then show ?thesis by (simp add: server_ok_def)
qed

section \<open>Properties\<close>

text \<open>
  C32: whatever asio and the clients do, from an empty server on, the state of the server stays
  in order: the list of connections names each object once and never a null one, and whoever
  sent a message that waits in the queue can be answered without a fault, even after it left.
\<close>

theorem server_stays_ok:
  assumes "server_reach (change_server_virtuals E) W t0 sv0 sv" and "empty_server sv0"
  shows "server_ok sv \<and> (\<forall>x \<in> set (m_queue (m_incomming sv)). \<forall>r. \<exists>sv'. client_send (remote x) r sv = Inr sv')"
  using cs.server_reach_ok [OF assms] client_send_valid unfolding server_ok_def by blast

text \<open>
  A client is never told that it was accepted. The message is sent before the connection
  counts as connected, and sending on such a connection does nothing: accepting a client yields
  a connection with its id that has nothing to send.
\<close>

theorem server_accept_silent:
  "on_accept (change_server_virtuals E) t0 (Some (a, True, socket_open, i)) sv =
     Inr (sv\<lparr>sv_conns := (sv_conns sv)(a \<mapsto> connect_to_client i (new_connection a Owner_server socket_open t0)),
             m_connections := m_connections sv @ [Some a]\<rparr>) \<and>
   cn_tasks (connect_to_client i (new_connection a Owner_server socket_open t0)) = []"
proof -
  let ?c = "new_connection a Owner_server socket_open t0"
  have "client_send (Some a) m (sv\<lparr>sv_conns := (sv_conns sv)(a \<mapsto> ?c)\<rparr>) =
      Inr (sv\<lparr>sv_conns := (sv_conns sv)(a \<mapsto> ?c)\<rparr>)" for m
    by (simp add: client_send_def send_message_def is_connected_def new_connection_def)
  then show ?thesis
    by (simp add: on_accept_def change_server_virtuals_def cs_client_connect_def Let_def)
      (simp add: connect_to_client_def new_connection_def read_header_def)
qed

text \<open>
  C33: the server answers with at most one message, to the client that asked and to nobody else,
  of the type that belongs to the request or one of the two status types, with the size and the
  checksum of its body; a message with a wrong checksum has no effect. Nothing is sent to a
  client that is no longer connected, and no connection is added or removed.
\<close>

theorem server_answers:
  assumes "cs_message E client m sv = Inr sv'"
  shows "if validate m then answers_well (msg_id (header m)) client sv sv' else sv' = sv"
  using assms by (cases "validate m") (simp_all add: cs_message_def m_process_answers)

text \<open>
  A collection request is carried out on the state, and the client gets the message of
  success if the request succeeded, but no message at all if it failed.
\<close>

theorem server_request_reply:
  assumes "validate m" and "msg_id (header m) = type_number (request_type q)"
    and "d_from_cbor (se_docs E) (body m) = Inr (request_doc (se_json E) q)" and "valid_client p sv"
    and "serve (se_json E) (se_docs E) (se_fs E) q (m_state sv) = Inr (ok, st)"
  shows "\<exists>sv'. cs_message E p m sv = Inr sv' \<and> m_state sv' = st \<and>
    answers p (if ok then [m_success E] else []) sv sv'"
proof -
  have "msg_to_json (se_docs E) m = Inr (request_doc (se_json E) q)" using assms(3) by (simp add: msg_to_json_def)
  from m_process_request [OF this assms(4)] assms(1,2)
  have "cs_message E p m sv = reply_if E p (serve (se_json E) (se_docs E) (se_fs E) q (m_state sv)) sv"
    by (simp add: cs_message_def)
  then show ?thesis using reply_if_Inr [OF assms(4,5)] by metis
qed

text \<open>
  C35: any peer can end the server. A message with the right checksum whose body is not a CBOR
  document throws out of \<^verbatim>\<open>update\<close>, whatever its type; nothing catches the exception, so the main
  function ends with it before it has stored the state.
\<close>

theorem server_remote_crash:
  assumes "d_from_cbor (se_docs E) bs = Inl e" and "0 < max_msg"
    and "m_queue (m_incomming (net sv)) = \<lparr>remote = p, msg = finalize now ((new_message t)\<lparr>body := bs\<rparr>)\<rparr> # ms"
  shows "update (change_server_virtuals E) max_msg (net sv) = Inl e \<and>
    service_main_linux E data_dir can_write True (net # rounds) sv fs = Inl e"
proof -
  have crash: "update (change_server_virtuals E) n (net sv) = Inl e" if "0 < n" for n
  proof -
    have "0 < unat n" using that by (simp add: word_less_nat_alt)
    then obtain k where "unat n = Suc k" by (cases "unat n") simp_all
    then show ?thesis using assms(1,3)
      by (simp add: update_def queue_empty_def pop_front_def change_server_virtuals_def cs_message_def
          m_process_def msg_to_json_def)
  qed
  have "(0 :: u64) < -1" by (simp add: word_greater_zero_iff)
  with crash [OF assms(2)] crash [of "-1"] show ?thesis by (simp add: service_main_linux_def)
qed

text \<open>The server's handler neither reads nor changes the queue of the messages that wait.\<close>

lemma queue_apart:
  "(sv\<lparr>m_incomming := q\<rparr>)\<lparr>m_state := st\<rparr> = (sv\<lparr>m_state := st\<rparr>)\<lparr>m_incomming := q\<rparr>"
  "client_id p (sv\<lparr>m_incomming := q\<rparr>) = client_id p sv"
  "client_send p m (sv\<lparr>m_incomming := q\<rparr>) = rbind (client_send p m sv) (\<lambda>s. Inr (s\<lparr>m_incomming := q\<rparr>))"
  "status_doc E (sv\<lparr>m_incomming := q\<rparr>) = status_doc E sv"
  by (simp_all add: client_id_def client_send_def status_doc_def split: option.split)

lemma reply_queue:
  "reply p m (sv\<lparr>m_incomming := q\<rparr>) = rbind (reply p m sv) (\<lambda>s. Inr (s\<lparr>m_incomming := q\<rparr>))"
  "reply_logged p m (sv\<lparr>m_incomming := q\<rparr>) = rbind (reply_logged p m sv) (\<lambda>s. Inr (s\<lparr>m_incomming := q\<rparr>))"
  "reply_if E p r (sv\<lparr>m_incomming := q\<rparr>) = rbind (reply_if E p r sv) (\<lambda>s. Inr (s\<lparr>m_incomming := q\<rparr>))"
  by (simp_all add: reply_def reply_logged_def reply_if_def queue_apart rbind_assoc Let_def case_prod_unfold if_distrib [of "\<lambda>x. rbind x f" for f] cong: if_cong)

lemma cs_message_queue:
  "cs_message E p m (sv\<lparr>m_incomming := q\<rparr>) = rbind (cs_message E p m sv) (\<lambda>s. Inr (s\<lparr>m_incomming := q\<rparr>))"
proof -
  have "m_process E t p m (sv\<lparr>m_incomming := q\<rparr>) = rbind (m_process E t p m sv) (\<lambda>s. Inr (s\<lparr>m_incomming := q\<rparr>))" for t
    unfolding m_process_def Let_def
    by (cases "type_of_number t"; cases "the (type_of_number t)")
      (simp_all add: queue_apart reply_queue rbind_assoc case_prod_unfold if_distrib [of "\<lambda>x. rbind x f" for f] cong: if_cong)
  then show ?thesis by (simp add: cs_message_def)
qed

text \<open>Handling a list of messages, one after the other, up to the first failure.\<close>

primrec serve_all ::
    "('j, 't) server_env \<Rightarrow> u32 owned_message list \<Rightarrow> 'j change_server \<Rightarrow> 'j change_server result" where
  "serve_all E [] sv = Inr sv"
| "serve_all E (x # xs) sv = rbind (cs_message E (remote x) (msg x) sv) (serve_all E xs)"

lemma serve_all_queue:
  "serve_all E xs (sv\<lparr>m_incomming := q\<rparr>) = rbind (serve_all E xs sv) (\<lambda>s. Inr (s\<lparr>m_incomming := q\<rparr>))"
  by (induction xs arbitrary: sv) (simp_all add: cs_message_queue rbind_assoc)

lemma update_loop_serves:
  "update_loop (change_server_virtuals E) n sv =
    rbind (serve_all E (take n (m_queue (m_incomming sv))) sv) (\<lambda>s.
      Inr (s\<lparr>m_incomming := (m_incomming sv)\<lparr>m_queue := drop n (m_queue (m_incomming sv))\<rparr>\<rparr>))"
proof (induction n arbitrary: sv)
  case (Suc n)
  show ?case
  proof (cases "m_queue (m_incomming sv)")
    case (Cons x xs)
    let ?q = "(m_incomming sv)\<lparr>m_queue := xs\<rparr>"
    have "update_loop (change_server_virtuals E) (Suc n) sv =
        rbind (cs_message E (remote x) (msg x) (sv\<lparr>m_incomming := ?q\<rparr>)) (update_loop (change_server_virtuals E) n)"
      using Cons by (simp add: queue_empty_def pop_front_def change_server_virtuals_def)
    also have "\<dots> = rbind (cs_message E (remote x) (msg x) sv) (\<lambda>s. update_loop (change_server_virtuals E) n (s\<lparr>m_incomming := ?q\<rparr>))"
      by (simp add: cs_message_queue rbind_assoc)
    finally show ?thesis by (simp add: Suc.IH serve_all_queue Cons rbind_assoc)
  qed (simp add: queue_empty_def)
qed simp

text \<open>
  C34: one call of \<^verbatim>\<open>update\<close> handles the oldest messages, each once and in their order, and no more
  than it was told to, and leaves the others in the queue; it fails exactly if one of these
  fails, as that one does. With the default, the largest number, it handles all that wait.
\<close>

theorem server_update_bound:
  "update (change_server_virtuals E) max_msg sv =
    rbind (serve_all E (take (unat max_msg) (m_queue (m_incomming sv))) sv) (\<lambda>s.
      Inr (s\<lparr>m_incomming := (m_incomming sv)\<lparr>m_queue := drop (unat max_msg) (m_queue (m_incomming sv))\<rparr>\<rparr>)) \<and>
   (length (m_queue (m_incomming sv)) < 2 ^ 64 \<longrightarrow> update (change_server_virtuals E) (-1) sv =
    rbind (serve_all E (m_queue (m_incomming sv)) sv) (\<lambda>s. Inr (s\<lparr>m_incomming := (m_incomming sv)\<lparr>m_queue := []\<rparr>\<rparr>)))"
proof -
  have "unat (-1 :: u64) = 2 ^ 64 - 1" by (simp add: unsigned_minus_1_eq_mask mask_eq_exp_minus_1)
  then show ?thesis by (simp add: update_def update_loop_serves)
qed

text \<open>
  A message to all reaches every connected client once except the one to ignore, and removes
  from the list exactly the clients that are no longer connected. A message to a single client
  that is gone removes nobody: the list keeps it.
\<close>

theorem server_broadcast:
  assumes "server_ok sv" and "valid_client p sv"
  shows "(\<exists>sv'. message_all_client (change_server_virtuals E) m ignore sv = Inr sv' \<and>
      m_connections sv' = filter (\<lambda>p. client_connected p sv) (m_connections sv) \<and>
      (\<forall>a. sv_conns sv' a = map_option (\<lambda>c. sent (if Some a \<in> set (m_connections sv) \<and> Some a \<noteq> ignore \<and>
         is_connected c then [m] else []) c) (sv_conns sv a))) \<and>
    (\<exists>sv'. message_client (change_server_virtuals E) p m sv = Inr sv' \<and> m_connections sv' = m_connections sv)"
proof (rule conjI)
  let ?sv = "sv\<lparr>m_connections := filter (\<lambda>p. client_connected p sv) (m_connections sv),
    sv_conns := broadcast m ignore (set (m_connections sv)) sv\<rparr>"
  have "broadcast m ignore P sv a =
      map_option (\<lambda>c. sent (if Some a \<in> P \<and> Some a \<noteq> ignore \<and> is_connected c then [m] else []) c) (sv_conns sv a)" for P a
    by (cases "sv_conns sv a") (simp_all add: broadcast_def send_message_sent)
  then show "\<exists>sv'. message_all_client (change_server_virtuals E) m ignore sv = Inr sv' \<and>
      m_connections sv' = filter (\<lambda>p. client_connected p sv) (m_connections sv) \<and>
      (\<forall>a. sv_conns sv' a = map_option (\<lambda>c. sent (if Some a \<in> set (m_connections sv) \<and> Some a \<noteq> ignore \<and>
         is_connected c then [m] else []) c) (sv_conns sv a))"
    unfolding cs.message_all_client_eval [OF assms(1)] by (intro exI [of _ ?sv]) simp
  show "\<exists>sv'. message_client (change_server_virtuals E) p m sv = Inr sv' \<and> m_connections sv' = m_connections sv"
    unfolding cs.message_client_eval [OF assms] by simp
qed

section \<open>Witnesses\<close>

theorem server_stays_ok_witness:
  "\<exists>sv. server_reach (change_server_virtuals sample_env) (\<lparr>w_size = 12, w_enc = (\<lambda>_. []), w_dec = (\<lambda>_. header (new_message 0))\<rparr>)
      0 sample_server sv \<and> m_connections sv = [Some 0] \<and> server_ok sv"
proof -
  let ?W = "\<lparr>w_size = 12, w_enc = (\<lambda>_. []), w_dec = (\<lambda>_. header (new_message 0))\<rparr> :: u32 wire"
  let ?sv = "sample_server\<lparr>sv_conns := [0 \<mapsto> connect_to_client 7 (new_connection 0 Owner_server True 0)], m_connections := [Some 0]\<rparr>"
  have "on_accept (change_server_virtuals sample_env) 0 (Some (0, True, True, 7)) sample_server = Inr ?sv"
    using server_accept_silent [of sample_env 0 0 True 7 sample_server] by (simp add: sample_server_def)
  moreover have "sv_conns sample_server 0 = None" by (simp add: sample_server_def)
  ultimately have "server_step (change_server_virtuals sample_env) ?W 0 sample_server ?sv"
    by (rule server_step.accept [rotated])
  from server_next [OF server_start this]
  have reach: "server_reach (change_server_virtuals sample_env) ?W 0 sample_server ?sv" .
  from server_stays_ok [OF reach] have "server_ok ?sv" by simp
  with reach show ?thesis by (intro exI [of _ ?sv]) simp
qed

definition sample_ping :: "u32 message" where
  "sample_ping = flag_message sample_env Server_GetPing True"

text \<open>The body of a ping is not read.\<close>

definition ping_env :: "(json_tree, json_tree) server_env" where
  "ping_env = sample_env\<lparr>se_docs := sample_docs\<lparr>d_from_cbor := (\<lambda>bs. Inr (Tree_unsigned 1))\<rparr>\<rparr>"

theorem server_answers_witness:
  "\<exists>sv'. cs_message ping_env (Some 0) sample_ping (sample_busy sample_ping) = Inr sv' \<and>
    answers_well (type_number Server_GetPing) (Some 0) (sample_busy sample_ping) sv'"
proof -
  have "validate sample_ping" "msg_id (header sample_ping) = type_number Server_GetPing"
    by (simp_all add: sample_ping_def)
  moreover obtain i where "client_id (Some 0) (sample_busy sample_ping) = Inr i"
    using client_id_valid [of "Some 0" "sample_busy sample_ping"] by auto
  moreover obtain sv' where "client_send (Some 0) (push_data 5 [ucast (time sample_ping)] sample_ping) (sample_busy sample_ping) = Inr sv'"
    using client_send_valid [of "Some 0" "sample_busy sample_ping"] by auto
  ultimately have "cs_message ping_env (Some 0) sample_ping (sample_busy sample_ping) = Inr sv'"
    by (simp add: cs_message_def m_process_def msg_to_json_def ping_env_def sample_env_def reply_def Let_def)
  with server_answers [OF this] show ?thesis by (simp add: sample_ping_def)
qed

text \<open>An environment in which one body stands for one document.\<close>

definition document_env :: "json_tree \<Rightarrow> (json_tree, json_tree) server_env" where
  "document_env j = sample_env\<lparr>se_docs := sample_docs\<lparr>d_from_cbor := (\<lambda>bs. Inr j)\<rparr>\<rparr>"

theorem server_request_reply_witness:
  "\<exists>sv'. cs_message (document_env (request_doc json_tree_ops (Activate ''nope''))) (Some 0)
      (flag_message sample_env Change_Active_Collection True)
      (sample_busy (flag_message sample_env Change_Active_Collection True)) = Inr sv' \<and>
    answers (Some 0) [] (sample_busy (flag_message sample_env Change_Active_Collection True)) sv'"
proof -
  let ?m = "flag_message sample_env Change_Active_Collection True"
  let ?E = "document_env (request_doc json_tree_ops (Activate ''nope''))"
  have "lib_exists sample_collections ''nope'' = False"
    by (simp add: lib_exists_iff sample_collections_def cache_list_def)
  then have "serve (se_json ?E) (se_docs ?E) (se_fs ?E) (Activate ''nope'') (m_state (sample_busy ?m)) = Inr (False, sample_manager)"
    by (simp add: st_change_active_def tree.arg_object document_env_def sample_env_def change_active_def
        sample_manager_def succeeded_def)
  from server_request_reply [where E = ?E and m = ?m and q = "Activate ''nope''" and p = "Some 0"
      and sv = "sample_busy ?m" and ok = False and st = sample_manager, OF _ _ _ _ this]
  show ?thesis by (auto simp: document_env_def sample_env_def)
qed

theorem server_remote_crash_witness:
  "service_main_linux sample_env ''/d'' (\<lambda>_. True) True
     [\<lambda>_. sample_busy (finalize 0 ((new_message (type_number Server_GetPing))\<lparr>body := [1]\<rparr>))] sample_server Map.empty =
   Inl (Throws Json_parse_error)"
  by (rule server_remote_crash [where bs = "[1]" and ms = "[]" and max_msg = 1, THEN conjunct2])
    (simp_all add: sample_env_def sample_docs_def)

text \<open>Two pings wait: told to handle one, the server answers one; by default, both.\<close>

definition sample_pings :: "json_tree change_server" where
  "sample_pings = (sample_busy sample_ping)\<lparr>m_incomming := \<lparr>m_queue = [\<lparr>remote = Some 0, msg = sample_ping\<rparr>, \<lparr>remote = Some 0, msg = sample_ping\<rparr>]\<rparr>\<rparr>"

lemma sample_ping_served:
  assumes "sv_conns sv 0 = Some c"
  shows "cs_message ping_env (Some 0) sample_ping sv =
    Inr (sv\<lparr>sv_conns := (sv_conns sv)(0 \<mapsto> send_message (push_data 5 [ucast (time sample_ping)] sample_ping) c)\<rparr>)"
proof -
  have "validate sample_ping" "msg_id (header sample_ping) = type_number Server_GetPing"
    by (simp_all add: sample_ping_def)
  moreover have "client_id (Some 0) sv = Inr (cn_id c)" using assms by (simp add: client_id_def)
  ultimately show ?thesis using assms
    by (simp add: cs_message_def m_process_def msg_to_json_def ping_env_def sample_env_def reply_def client_send_def Let_def)
qed

theorem server_update_bound_witness:
  "\<exists>sv1 sv2 c. update (change_server_virtuals ping_env) 1 sample_pings = Inr sv1 \<and> length (m_queue (m_incomming sv1)) = 1 \<and>
    update (change_server_virtuals ping_env) (-1) sample_pings = Inr sv2 \<and> m_queue (m_incomming sv2) = [] \<and>
    sv_conns sample_pings 0 = Some c \<and>
    sv_conns sv2 0 = Some (send_message (push_data 5 [ucast (time sample_ping)] sample_ping)
      (send_message (push_data 5 [ucast (time sample_ping)] sample_ping) c))"
proof -
  have c: "sv_conns sample_pings 0 = Some (connect_to_client 7 (new_connection 0 Owner_server True 0))"
    by (simp add: sample_pings_def)
  have q: "m_queue (m_incomming sample_pings) = [\<lparr>remote = Some 0, msg = sample_ping\<rparr>, \<lparr>remote = Some 0, msg = sample_ping\<rparr>]"
    by (simp add: sample_pings_def)
  show ?thesis
    using server_update_bound [of ping_env 1 sample_pings] c
    by (simp add: q sample_ping_served)
qed

theorem server_broadcast_witness:
  "\<exists>sv'. message_all_client (change_server_virtuals sample_env) (m_success sample_env) None
      (sample_busy (m_success sample_env)) = Inr sv' \<and> m_connections sv' = [Some 0]"
proof -
  note server_broadcast [OF sample_busy_ok, of "Some 0" "m_success sample_env" sample_env "m_success sample_env" None]
  then obtain sv' where "message_all_client (change_server_virtuals sample_env) (m_success sample_env) None
      (sample_busy (m_success sample_env)) = Inr sv'" "m_connections sv' = [Some 0]" by auto
  then show ?thesis by simp
qed

end
