(* ===== verification/Change_Client.thy ===== *)
theory Change_Client
  imports Change_Server
begin

text \<open>
  The client of the program: the base class of
  \<^verbatim>\<open>src/src/change_lib/net/client_interface.hpp\<close> and \<^verbatim>\<open>change_client\<close> of
  \<^verbatim>\<open>src/src/change_app/change_client.hpp\<close>. What it prints and the wallpapers it sets are
  outputs. Parameters are the clock, the representation of time points and truth values, the
  JSON library, and the platform's background handler.
\<close>

section \<open>The base class\<close>

record 't client =
  ci_connection :: "'t connection option"
  ci_incomming :: "'t incomming"
  ci_stopped :: bool
  ci_joinable :: bool

definition new_client :: "'t client" where
  "new_client = \<lparr>ci_connection = None, ci_incomming = new_queue, ci_stopped = False, ci_joinable = False\<rparr>"

text \<open>
  \<^verbatim>\<open>connect\<close>: resolving the name or starting the thread may throw, which is caught. The
  connection is only begun; asio opens the socket and completes it later.
\<close>

definition ci_connect :: "bool \<Rightarrow> bool \<Rightarrow> 't \<Rightarrow> ('t, 'z) client_scheme \<Rightarrow> bool \<times> ('t, 'z) client_scheme" where
  "ci_connect resolves thread_starts t0 c =
     (if resolves
      then let c1 = c\<lparr>ci_connection := Some (new_connection 0 Owner_client True t0)\<rparr>
           in if thread_starts then (True, c1\<lparr>ci_joinable := True\<rparr>) else (False, c1)
      else (False, c))"

definition ci_is_connected :: "('t, 'z) client_scheme \<Rightarrow> bool" where
  "ci_is_connected c = (case ci_connection c of Some k \<Rightarrow> is_connected k | None \<Rightarrow> False)"

text \<open>The pointer is given up without freeing the connection, whose close task never runs.\<close>

definition ci_disconnect :: "('t, 'z) client_scheme \<Rightarrow> ('t, 'z) client_scheme" where
  "ci_disconnect c =
     (let c1 = (if ci_is_connected c then c\<lparr>ci_connection := map_option disconnect (ci_connection c)\<rparr> else c);
          c2 = (if \<not> ci_stopped c1 then c1\<lparr>ci_stopped := True\<rparr> else c1);
          c3 = (if ci_joinable c2 then c2\<lparr>ci_joinable := False\<rparr> else c2)
      in c3\<lparr>ci_connection := None\<rparr>)"

definition ci_send_message :: "'t message \<Rightarrow> ('t, 'z) client_scheme \<Rightarrow> ('t, 'z) client_scheme" where
  "ci_send_message m c =
     (if ci_is_connected c then c\<lparr>ci_connection := map_option (send_message m) (ci_connection c)\<rparr> else c)"

section \<open>The client of the program\<close>

record change_client = "u32 client" +
  cc_processing :: bool
  cc_active :: bool

datatype client_output =
    Printed_status u64 u64
  | Printed_elapsed u64
  | Printed_names "string list"
  | Printed_library "string cache"
  | Set_wallpaper string
  | Logged_error

text \<open>
  The background handler is null, or says whether it is active and whether setting a wallpaper
  at a position succeeds. A time point is a number of ticks, held in some bytes.
\<close>

record ('j, 't) client_env =
  ce_json :: "('j, 't) json_ops"
  ce_docs :: "'j doc_ops"
  ce_now :: u64
  ce_true_bytes :: "u8 list"
  ce_time_size :: nat
  ce_time_of :: "u8 list \<Rightarrow> u64"
  ce_get_u64 :: "'j \<Rightarrow> u64 result"
  ce_background :: "(bool \<times> (string \<Rightarrow> nat \<Rightarrow> bool)) option"

definition new_change_client :: "bool \<Rightarrow> bool \<Rightarrow> change_client" where
  "new_change_client resolves thread_starts =
     (let c0 = client.extend new_client \<lparr>cc_processing = True, cc_active = False\<rparr>;
          (ok, c1) = ci_connect resolves thread_starts 0 c0
      in c1\<lparr>cc_active := ok\<rparr>)"

definition request_message :: "('j, 't) client_env \<Rightarrow> MessageType \<Rightarrow> u32 message" where
  "request_message C t = push_data (ce_now C) (ce_true_bytes C) (new_message (type_number t))"

definition ping_server :: "('j, 't) client_env \<Rightarrow> change_client \<Rightarrow> change_client" where
  "ping_server C c = ci_send_message (request_message C Server_GetPing) c"

definition get_server_status :: "('j, 't) client_env \<Rightarrow> change_client \<Rightarrow> change_client" where
  "get_server_status C c = ci_send_message (request_message C Server_GetStatus) c"

text \<open>The code that the replies with the next and with the previous wallpaper share.\<close>

definition show_wallpaper :: "('j, 't) client_env \<Rightarrow> u32 message \<Rightarrow> client_output list result" where
  "show_wallpaper C m = rbind (msg_to_json (ce_docs C) m) (\<lambda>get. case ce_background C of
       None \<Rightarrow> Inl Undefined
     | Some (active, set_wallpaper) \<Rightarrow>
         if active
         then rbind (j_index (ce_json C) get ''path'') (\<lambda>p. rbind (j_get_string (ce_json C) p) (\<lambda>path.
              rbind (j_index (ce_json C) get ''wallpaper'') (\<lambda>w. rbind (j_get_string (ce_json C) w) (\<lambda>wall.
              let file = path @ ''/'' @ wall in
              if \<not> set_wallpaper file 2 then Inr [Set_wallpaper file, Logged_error] else Inr [Set_wallpaper file]))))
         else Inr [Logged_error])"

definition show_collections :: "('j, 't) client_env \<Rightarrow> 'j \<Rightarrow> client_output list result" where
  "show_collections C obj =
     (let J = ce_json C in
      rbind (j_index J obj ''list-only'') (\<lambda>b. rbind (d_get_bool (ce_docs C) b) (\<lambda>list_only.
      rbind (j_index J obj ''list'') (\<lambda>l.
        if list_only
        then rbind (j_get_array J l) (\<lambda>js. rbind (traverse (j_get_string J) js) (\<lambda>ns. Inr [Printed_names ns]))
        else rbind (cache_from_json J l empty_cache) (\<lambda>col. Inr [Printed_library col])))))"

text \<open>The \<^verbatim>\<open>switch\<close>: the outputs, and whether the message counts as processed.\<close>

definition process_reply :: "('j, 't) client_env \<Rightarrow> u32 message \<Rightarrow> (client_output list \<times> bool) result" where
  "process_reply C m = (case type_of_number (msg_id (header m)) of
     Some Server_GetStatus \<Rightarrow> rbind (msg_to_json (ce_docs C) m) (\<lambda>status_msg.
       rbind (rbind (j_index (ce_json C) status_msg ''connections'') (ce_get_u64 C)) (\<lambda>n.
       rbind (rbind (j_index (ce_json C) status_msg ''uptime'') (ce_get_u64 C)) (\<lambda>up.
         Inr ([Printed_status n up], True))))
   | Some Server_GetPing \<Rightarrow> rbind (pull_data (ce_time_size C) m) (\<lambda>(data, _).
       let time_then = (case data of Some bs \<Rightarrow> ce_time_of C bs | None \<Rightarrow> 0)
       in Inr ([Printed_elapsed (ce_now C - time_then)], True))
   | Some Status_Success \<Rightarrow> Inr ([], True)
   | Some Status_Failure \<Rightarrow> Inr ([Logged_error], True)
   | Some Get_Next_Wallpaper \<Rightarrow> rbind (show_wallpaper C m) (\<lambda>os. Inr (os, True))
   | Some Get_Previous_Wallpaper \<Rightarrow> rbind (show_wallpaper C m) (\<lambda>os. Inr (os, True))
   | Some Get_Current \<Rightarrow> rbind (msg_to_json (ce_docs C) m) (\<lambda>_. Inr ([], True))
   | Some List_Collections \<Rightarrow> rbind (msg_to_json (ce_docs C) m) (\<lambda>obj.
       rbind (show_collections C obj) (\<lambda>os. Inr (os, True)))
   | _ \<Rightarrow> Inr ([], False))"

definition process_server_commands ::
    "('j, 't) client_env \<Rightarrow> change_client \<Rightarrow> (client_output list \<times> change_client) result" where
  "process_server_commands C c =
     (if \<not> queue_empty (ci_incomming c)
      then rbind (pop_front (ci_incomming c)) (\<lambda>(om, q).
           rbind (if validate (msg om) then process_reply C (msg om) else Inr ([Logged_error], False)) (\<lambda>(os, processed).
             Inr (os, c\<lparr>ci_incomming := q, cc_processing := \<not> processed\<rparr>)))
      else Inr ([], c))"

text \<open>
  The loop of \<^verbatim>\<open>run\<close>, beside the thread of asio: before each test that thread may have
  appended messages to the queue or lost the connection. The end of the list is the end of what
  is looked at, not of the loop.
\<close>

datatype network_event = Arrives "u32 owned_message list" | Connection_lost

primrec network :: "network_event \<Rightarrow> change_client \<Rightarrow> change_client" where
  "network (Arrives ms) c = c\<lparr>ci_incomming := (ci_incomming c)\<lparr>m_queue := m_queue (ci_incomming c) @ ms\<rparr>\<rparr>"
| "network Connection_lost c = c\<lparr>ci_connection := map_option disconnect (ci_connection c)\<rparr>"

definition looping :: "change_client \<Rightarrow> bool" where
  "looping c \<longleftrightarrow> ci_is_connected c \<and> cc_processing c"

primrec client_run ::
    "('j, 't) client_env \<Rightarrow> network_event list \<Rightarrow> change_client \<Rightarrow> (client_output list \<times> change_client) result" where
  "client_run C [] c = Inr ([], c)"
| "client_run C (e # es) c =
     (if looping (network e c)
      then rbind (process_server_commands C (network e c)) (\<lambda>(os, c1).
           rbind (client_run C es c1) (\<lambda>(os', c2). Inr (os @ os', c2)))
      else Inr ([], network e c))"

section \<open>One message over a connection\<close>

lemma receive_one:
  assumes "wire_format W" and "sendable m" and "body m \<noteq> []" and "cn_reading c = Header_io"
  shows "\<exists>c' q'. receive W c q (frame W m) = (c', q', []) \<and>
    m_queue q' = m_queue q @ [arrival c (m\<lparr>time := time (cn_temp_in c)\<rparr>)]"
proof -
  from assms(2) have "list_all sendable [m]" by simp
  from wire_format.receive_frames [OF assms(1) this assms(4), of q] obtain c' q'
    where r: "receive W c q (frame W m) = (c', q', [])" "m_queue q' = m_queue q @ map (arrival c) (arrived (cn_temp_in c) [m])"
    by auto
  have "arrived (cn_temp_in c) [m] = map (\<lambda>m. m\<lparr>time := time (cn_temp_in c)\<rparr>) [m]"
    by (rule arrived_bodies) (use assms(3) in simp)
  with r show ?thesis by (simp del: arrived.simps)
qed

lemma validate_time [simp]: "validate (m\<lparr>time := t\<rparr>) = validate m"
  by (simp add: validate_iff)

lemma answers_push: "answers p [r] sv sv' \<Longrightarrow> client_connected p sv \<Longrightarrow>
    \<exists>a c. p = Some a \<and> sv_conns sv a = Some c \<and> sv_conns sv' a = Some (sent [r] c)"
  by (cases p) (auto simp: answers_def client_connected_def split: option.splits)

lemma reply_Inr:
  assumes "valid_client p sv"
  shows "\<exists>sv'. reply p r sv = Inr sv' \<and> answers p [r] sv sv'"
  using client_send_valid [OF assms] reply_answers(2) unfolding reply_def by blast

section \<open>Evaluation\<close>

lemma queue_Nil: "m_queue (ci_incomming c) = [] \<Longrightarrow> process_server_commands C c = Inr ([], c)"
  by (simp add: process_server_commands_def queue_empty_def)

lemma network_quiet [simp]: "network (Arrives []) c = c"
  by simp

lemma client_run_stops: "\<not> cc_processing c \<Longrightarrow> \<exists>c'. client_run C es c = Inr ([], c') \<and> \<not> looping c'"
  by (cases es; cases "hd es") (auto simp: looping_def)

lemma client_run_quiet:
  assumes "looping c" and "m_queue (ci_incomming c) = []"
  shows "client_run C (replicate n (Arrives []) @ es) c = client_run C es c"
proof -
  have "client_run C (Arrives [] # fs) c = client_run C fs c" for fs
    unfolding client_run.simps network_quiet queue_Nil [OF assms(2)] using assms(1)
    by (cases "client_run C fs c") auto
  then show ?thesis by (induction n) (simp_all del: client_run.simps)
qed

lemma pull_pushed:
  assumes "length d = n"
  shows "\<exists>m'. pull_data n (push_data now d m\<lparr>time := t\<rparr>) = Inr (Some d, m')"
  using assms by (simp add: pull_data_def Let_def)

context json_library begin

lemma status_document:
  assumes "se_json E = J"
  shows "status_doc E sv = Inr (j_object J [(''connections'', j_unsigned J (of_nat (length (m_connections sv)))),
    (''uptime'', d_integer (se_docs E) (se_now E - m_start_time sv))])"
  using assms by (simp add: status_doc_def put_null put_object)

end

section \<open>Properties\<close>

text \<open>
  Right after its construction a client cannot be used, although it calls itself active as
  soon as the name resolved and the thread was started: the connection is only begun, so a
  request is dropped, and \<^verbatim>\<open>run\<close> returns at once whatever arrives meanwhile.
\<close>

theorem client_starts_disconnected:
  "let c = new_change_client resolves thread_starts in
     (cc_active c \<longleftrightarrow> resolves \<and> thread_starts) \<and> ping_server C c = c \<and> get_server_status C c = c \<and>
     client_run C (e # es) c = Inr ([], network e c)"
proof -
  let ?c = "new_change_client resolves thread_starts"
  have eval: "\<not> ci_is_connected ?c" "cc_active ?c \<longleftrightarrow> resolves \<and> thread_starts"
    by (auto simp: new_change_client_def ci_connect_def ci_is_connected_def is_connected_def new_connection_def
        new_client_def client.extend_def Let_def split: option.splits)
  have "\<not> ci_is_connected (network e ?c)"
    using eval(1) by (cases e) (auto simp: ci_is_connected_def disconnect_def split: option.splits)
  with eval show ?thesis by (simp add: Let_def ping_server_def get_server_status_def ci_send_message_def looping_def)
qed

text \<open>
  A connected client that waits for a reply goes round its loop for as long as none comes,
  and its state stays the same; the first reply that counts ends the loop, after any number of
  rounds, and its outputs are the outputs of the run.
\<close>

theorem client_run_waits:
  assumes "looping c" and "m_queue (ci_incomming c) = []"
    and "validate (msg om)" and "process_reply C (msg om) = Inr (os, True)"
  shows "client_run C (replicate n (Arrives [])) c = Inr ([], c) \<and>
    (\<exists>c'. client_run C (replicate n (Arrives []) @ Arrives [om] # es) c = Inr (os, c') \<and> \<not> looping c')"
proof -
  let ?c1 = "network (Arrives [om]) c"
  let ?c2 = "?c1\<lparr>ci_incomming := (ci_incomming ?c1)\<lparr>m_queue := []\<rparr>, cc_processing := False\<rparr>"
  have "looping ?c1" using assms(1) by (simp add: looping_def ci_is_connected_def)
  moreover have "process_server_commands C ?c1 = Inr (os, ?c2)"
    using assms(2-4) by (simp add: process_server_commands_def queue_empty_def pop_front_def)
  moreover obtain c' where "client_run C es ?c2 = Inr ([], c')" "\<not> looping c'"
    using client_run_stops [of ?c2 C es] by auto
  ultimately have "client_run C (Arrives [om] # es) c = Inr (os, c')" "\<not> looping c'" by simp_all
  then show ?thesis
    using client_run_quiet [OF assms(1,2), of C n "[]"] client_run_quiet [OF assms(1,2), of C n "Arrives [om] # es"]
    by simp
qed

text \<open>
  A ping does not measure the way to the server and back. The time a message was made is
  not transmitted, so the server echoes the time of its own buffer, which is the epoch, and the
  client prints how long ago the epoch was.
\<close>

theorem ping_shows_clock:
  assumes "wire_format W" and "ce_true_bytes C = [1]" and "d_from_cbor (se_docs E) [1] = Inr j"
    and "length (se_time_bytes E 0) = ce_time_size C" and "ce_time_of C (se_time_bytes E 0) = 0" and "ce_time_size C < 100"
    and "sv_conns sv a = Some k" and "cn_self k = a" and "cn_owner k = Owner_server" and "cn_reading k = Header_io"
    and "time (cn_temp_in k) = 0" and "cn_owner l = Owner_client" and "cn_reading l = Header_io"
  shows "\<exists>k' q' m. receive W k (m_incomming sv) (frame W (request_message C Server_GetPing)) = (k', q', []) \<and>
    m_queue q' = m_queue (m_incomming sv) @ [\<lparr>remote = Some a, msg = m\<rparr>] \<and>
    (\<exists>sv' r. cs_message E (Some a) m sv = Inr sv' \<and> answers (Some a) [r] sv sv' \<and>
      (\<exists>l' p' x. receive W l inq (frame W r) = (l', p', []) \<and> m_queue p' = m_queue inq @ [\<lparr>remote = None, msg = x\<rparr>] \<and>
        process_reply C x = Inr ([Printed_elapsed (ce_now C)], True)))"
proof -
  let ?q = "request_message C Server_GetPing"
  let ?m = "?q\<lparr>time := 0\<rparr>"
  let ?r = "push_data (se_now E) (se_time_bytes E 0) ?m"
  have body: "body ?q = [1]" "sendable ?q"
    using assms(2) by (simp_all add: request_message_def new_message_def sendable_def)
  then have r: "sendable ?r" "body ?r \<noteq> []" using assms(4,6) by (simp_all add: sendable_def)
  have there: "\<exists>k' q'. receive W k (m_incomming sv) (frame W ?q) = (k', q', []) \<and>
      m_queue q' = m_queue (m_incomming sv) @ [\<lparr>remote = Some a, msg = ?m\<rparr>]"
    using receive_one [OF assms(1) body(2) _ assms(10), of "m_incomming sv"] body(1) assms(8,9,11)
    by (simp add: arrival_def)
  have arrives: "\<exists>l' p'. receive W l inq (frame W ?r) = (l', p', []) \<and>
      m_queue p' = m_queue inq @ [\<lparr>remote = None, msg = ?r\<lparr>time := time (cn_temp_in l)\<rparr>\<rparr>]"
    using receive_one [OF assms(1) r assms(13), of inq] assms(12) by (simp add: arrival_def)
  have valid: "valid_client (Some a) sv" using assms(7) by (simp add: valid_client_def)
  obtain sv' where sv': "reply (Some a) ?r sv = Inr sv'" "answers (Some a) [?r] sv sv'"
    using reply_Inr [OF valid] by blast
  have id: "msg_id (header ?m) = type_number Server_GetPing"
    by (simp add: request_message_def new_message_def)
  obtain i where "client_id (Some a) sv = Inr i" using client_id_valid [OF valid] by blast
  moreover have "msg_to_json (se_docs E) ?m = Inr j" using body(1) assms(3) by (simp add: msg_to_json_def)
  moreover have "validate ?m" by (simp add: request_message_def)
  ultimately have served: "cs_message E (Some a) ?m sv = Inr sv'"
    using sv'(1) id by (simp add: cs_message_def m_process_def Let_def)
  obtain m' where "pull_data (ce_time_size C) (?r\<lparr>time := time (cn_temp_in l)\<rparr>) = Inr (Some (se_time_bytes E 0), m')"
    using pull_pushed [OF assms(4)] by blast
  then have "process_reply C (?r\<lparr>time := time (cn_temp_in l)\<rparr>) = Inr ([Printed_elapsed (ce_now C)], True)"
    using id assms(5) by (simp add: process_reply_def Let_def)
  with there arrives served sv'(2) show ?thesis by blast
qed

text \<open>
  C36: the status arrives as it was: for a request whose body is a document, the server sends one
  reply to the client that asked, and the client prints the number of connections in the list of
  the server, those included that are no longer connected, and the ticks since its start.
\<close>

theorem status_arrives:
  assumes "json_library (se_json E)" and "ce_json C = se_json E" and "ce_docs C = se_docs E"
    and "\<And>n. ce_get_u64 C (j_unsigned (se_json E) n) = Inr n" and "\<And>n. ce_get_u64 C (d_integer (se_docs E) n) = Inr n"
    and "\<And>doc. status_doc E sv = Inr doc \<Longrightarrow> d_from_cbor (se_docs E) (d_to_cbor (se_docs E) doc) = Inr doc"
    and "validate m" and "msg_id (header m) = type_number Server_GetStatus" and "d_from_cbor (se_docs E) (body m) = Inr j"
    and "valid_client p sv"
  shows "\<exists>sv' r. cs_message E p m sv = Inr sv' \<and> answers p [r] sv sv' \<and>
    process_reply C (r\<lparr>time := t\<rparr>) =
      Inr ([Printed_status (of_nat (length (m_connections sv))) (se_now E - m_start_time sv)], True)"
proof -
  note doc = json_library.status_document [OF assms(1) refl, of sv]
  let ?doc = "j_object (se_json E) [(''connections'', j_unsigned (se_json E) (of_nat (length (m_connections sv)))),
    (''uptime'', d_integer (se_docs E) (se_now E - m_start_time sv))]"
  let ?r = "json_to_msg (se_docs E) (se_now E) Server_GetStatus ?doc"
  obtain sv' where sv': "reply p ?r sv = Inr sv'" "answers p [?r] sv sv'"
    using reply_Inr [OF assms(10)] by blast
  obtain i where "client_id p sv = Inr i" using client_id_valid [OF assms(10)] by blast
  then have "cs_message E p m sv = Inr sv'"
    using sv'(1) assms(7-9) doc by (simp add: cs_message_def m_process_def msg_to_json_def Let_def)
  moreover have "process_reply C (?r\<lparr>time := t\<rparr>) =
      Inr ([Printed_status (of_nat (length (m_connections sv))) (se_now E - m_start_time sv)], True)"
    using assms(2-5) assms(6) [OF doc] json_library.index_object [OF assms(1)]
    by (simp add: process_reply_def msg_to_json_def)
  ultimately show ?thesis using sv'(2) by blast
qed

section \<open>Witnesses\<close>

definition sample_client_env :: "(json_tree, json_tree) client_env" where
  "sample_client_env =
     \<lparr>ce_json = json_tree_ops, ce_docs = sample_docs, ce_now = 1000, ce_true_bytes = [1], ce_time_size = 1,
      ce_time_of = (\<lambda>bs. ucast (hd bs)), ce_get_u64 = (\<lambda>j. case j of Tree_unsigned n \<Rightarrow> Inr n | _ \<Rightarrow> Inl (Throws Json_type_error)),
      ce_background = Some (True, \<lambda>_ _. True)\<rparr>"

definition sample_client :: change_client where
  "sample_client = client.extend (new_client\<lparr>ci_connection := Some (on_connect True (new_connection 0 Owner_client True 0))\<rparr>)
     \<lparr>cc_processing = True, cc_active = True\<rparr>"

theorem client_run_waits_witness:
  "client_run sample_client_env (replicate 5 (Arrives [])) sample_client = Inr ([], sample_client) \<and>
   (\<exists>c'. client_run sample_client_env (replicate 5 (Arrives []) @
       [Arrives [\<lparr>remote = None, msg = m_success sample_env\<rparr>]]) sample_client = Inr ([], c') \<and> \<not> looping c')"
proof -
  have "looping sample_client" "m_queue (ci_incomming sample_client) = []"
    by (simp_all add: sample_client_def client.extend_def new_client_def looping_def ci_is_connected_def
        on_connect_def new_connection_def is_connected_def read_header_def new_queue_def)
  moreover have "process_reply C (m_success sample_env) = Inr ([], True)" for C :: "(json_tree, json_tree) client_env"
    by (simp add: process_reply_def)
  ultimately show ?thesis
    by (intro client_run_waits) simp_all
qed

theorem ping_shows_clock_witness:
  "\<exists>sv' r l' p' x. answers (Some 0) [r] (sample_busy sample_ping) sv' \<and>
    receive native_wire (on_connect True (new_connection 0 Owner_client True 0)) new_queue (frame native_wire r) = (l', p', []) \<and>
    m_queue p' = [\<lparr>remote = None, msg = x\<rparr>] \<and> process_reply sample_client_env x = Inr ([Printed_elapsed 1000], True)"
proof -
  let ?k = "connect_to_client 7 (new_connection 0 Owner_server True 0) :: u32 connection"
  let ?l = "on_connect True (new_connection 0 Owner_client True 0) :: u32 connection"
  have h: "d_from_cbor (se_docs ping_env) [1] = Inr (Tree_unsigned 1)"
    "length (se_time_bytes ping_env 0) = ce_time_size sample_client_env"
    "ce_time_of sample_client_env (se_time_bytes ping_env 0) = 0" "ce_time_size sample_client_env < 100"
    "ce_true_bytes sample_client_env = [1]" "ce_now sample_client_env = 1000"
    by (simp_all add: ping_env_def sample_env_def sample_client_env_def)
  have k: "cn_self ?k = 0" "cn_owner ?k = Owner_server" "cn_reading ?k = Header_io" "time (cn_temp_in ?k) = 0"
    "cn_owner ?l = Owner_client" "cn_reading ?l = Header_io"
    by (simp_all add: connect_to_client_def on_connect_def new_connection_def read_header_def new_message_def)
  have "m_queue (new_queue :: u32 incomming) = []" by (simp add: new_queue_def)
  with ping_shows_clock [OF native.wire_format_axioms h(5) h(1-4) sample_busy_simps(6) [of sample_ping] k, of new_queue] h(6)
  show ?thesis by (simp del: sample_busy_simps) blast
qed

theorem status_arrives_witness:
  "\<exists>sv' r. answers (Some 0) [r] (sample_busy (flag_message sample_env Server_GetStatus True)) sv' \<and>
    process_reply (sample_client_env\<lparr>ce_docs := se_docs (document_env
        (Tree_object [(''connections'', Tree_unsigned 1), (''uptime'', Tree_unsigned 2)]))\<rparr>) (r\<lparr>time := 0\<rparr>) =
      Inr ([Printed_status 1 2], True)"
proof -
  let ?m = "flag_message sample_env Server_GetStatus True"
  let ?doc = "Tree_object [(''connections'', Tree_unsigned 1), (''uptime'', Tree_unsigned 2)]"
  let ?E = "document_env ?doc"
  let ?C = "sample_client_env\<lparr>ce_docs := se_docs ?E\<rparr>"
  have env: "se_json ?E = json_tree_ops" "se_now ?E = 5" "m_start_time (sample_busy ?m) = 3"
    "d_integer (se_docs ?E) = Tree_unsigned" "j_object json_tree_ops = Tree_object" "j_unsigned json_tree_ops = Tree_unsigned"
    by (simp_all add: document_env_def sample_env_def sample_docs_def sample_busy_def sample_server_def json_tree_ops_def)
  have lib: "json_library (se_json ?E)" unfolding env(1) by (rule tree.json_library_axioms)
  have doc: "status_doc ?E (sample_busy ?m) = Inr ?doc"
    using json_library.status_document [OF lib refl, of "sample_busy ?m"] env by simp
  have h: "ce_json ?C = se_json ?E" "ce_docs ?C = se_docs ?E" "d_from_cbor (se_docs ?E) bs = Inr ?doc"
    "ce_get_u64 ?C (Tree_unsigned n) = Inr n" "msg_id (header ?m) = type_number Server_GetStatus" for bs n
    by (simp_all add: sample_client_env_def document_env_def sample_env_def json_tree_ops_def)
  have "\<exists>sv' r. cs_message ?E (Some 0) ?m (sample_busy ?m) = Inr sv' \<and> answers (Some 0) [r] (sample_busy ?m) sv' \<and>
    process_reply ?C (r\<lparr>time := 0\<rparr>) =
      Inr ([Printed_status (of_nat (length (m_connections (sample_busy ?m)))) (se_now ?E - m_start_time (sample_busy ?m))], True)"
    by (rule status_arrives [OF lib h(1,2) _ _ _ _ h(5) h(3)]) (use doc h env in simp_all)
  then show ?thesis using env by auto
qed

end
