(* ===== verification/Service.thy ===== *)
theory Service
  imports Change_Server
begin

text \<open>
  The Windows service: \<^verbatim>\<open>src/src/change_lib/platform/win32/service.cpp\<close> (the base class of a
  service, and the helper that queries one) and
  \<^verbatim>\<open>src/src/change_service/change_service.hpp\<close>. Three threads meet: the one that runs
  \<^verbatim>\<open>service_main\<close>, the dispatcher that calls the control handler, and the one that updates the
  server. Each is a program counter, with a step for every call that another thread can see or
  that blocks. The service control manager is its record of the statuses it was told.
\<close>

section \<open>Status\<close>

text \<open>The values of the Windows headers.\<close>

abbreviation SERVICE_STOPPED :: u32 where "SERVICE_STOPPED \<equiv> 1"
abbreviation SERVICE_START_PENDING :: u32 where "SERVICE_START_PENDING \<equiv> 2"
abbreviation SERVICE_STOP_PENDING :: u32 where "SERVICE_STOP_PENDING \<equiv> 3"
abbreviation SERVICE_RUNNING :: u32 where "SERVICE_RUNNING \<equiv> 4"
abbreviation SERVICE_CONTINUE_PENDING :: u32 where "SERVICE_CONTINUE_PENDING \<equiv> 5"
abbreviation SERVICE_PAUSE_PENDING :: u32 where "SERVICE_PAUSE_PENDING \<equiv> 6"
abbreviation SERVICE_PAUSED :: u32 where "SERVICE_PAUSED \<equiv> 7"

abbreviation CONTROL_STOP :: u32 where "CONTROL_STOP \<equiv> 1"
abbreviation CONTROL_PAUSE :: u32 where "CONTROL_PAUSE \<equiv> 2"
abbreviation CONTROL_CONTINUE :: u32 where "CONTROL_CONTINUE \<equiv> 3"
abbreviation CONTROL_SHUTDOWN :: u32 where "CONTROL_SHUTDOWN \<equiv> 5"

abbreviation ACCEPT_STOP :: u32 where "ACCEPT_STOP \<equiv> 1"
abbreviation ACCEPT_PAUSE_CONTINUE :: u32 where "ACCEPT_PAUSE_CONTINUE \<equiv> 2"
abbreviation ACCEPT_SHUTDOWN :: u32 where "ACCEPT_SHUTDOWN \<equiv> 4"

record service_status =
  dwServiceType :: u32
  dwCurrentState :: u32
  dwControlsAccepted :: u32
  dwWin32ExitCode :: u32
  dwServiceSpecificExitCode :: u32
  dwCheckPoint :: u32
  dwWaitHint :: u32

text \<open>
  Where the thread that updates the server stands: there is none, it is about to look at the flag,
  it is in \<^verbatim>\<open>update\<close> and may still handle so many messages, or it has ended.
\<close>

datatype loop_pc = Loop_none | Loop_test | Loop_update u64 | Loop_ended

text \<open>Where the thread of \<^verbatim>\<open>service_main\<close> stands.\<close>

datatype main_pc = Main_entry | Main_init | Main_start | Main_assign | Main_wait_exec | Main_wait_event | Main_returned

text \<open>Where the control handler stands; a number is the control it handles or a status to report.\<close>

datatype handler_pc =
    Handler_idle
  | Handler_stop u32
  | Handler_join u32
  | Handler_store u32
  | Handler_set_event
  | Handler_read_status
  | Handler_report u32
  | Handler_start
  | Handler_assign
  | Handler_wait_exec

text \<open>
  The members of \<^verbatim>\<open>service_base\<close> (a null event, or one that is signalled or not; the counter
  that is static in \<^verbatim>\<open>report_svc_status\<close>) and of \<^verbatim>\<open>change_service\<close> (whether \<^verbatim>\<open>m_exec\<close> stands for a
  thread), the thread that updates the server, the files, and what was reported so far.
\<close>

record ('j, 't) service =
  SvcStopEvent :: "bool option"
  SvcStatus :: service_status
  check_point :: u32
  cv_server :: "'j change_server"
  cv_net :: server_thread
  cv_exec :: bool
  cv_loop :: loop_pc
  cv_stop :: bool
  cv_main :: main_pc
  cv_handler :: handler_pc
  cv_files :: "'t files"
  cv_reports :: "service_status list"

section \<open>Operations\<close>

definition report_svc_status :: "u32 \<Rightarrow> u32 \<Rightarrow> u32 \<Rightarrow> ('j, 't) service \<Rightarrow> ('j, 't) service" where
  "report_svc_status CurrentState Win32ExitCode WaitHint s =
     (let st1 = (SvcStatus s)\<lparr>dwCurrentState := CurrentState, dwWin32ExitCode := Win32ExitCode, dwWaitHint := WaitHint\<rparr>;
          st2 = st1\<lparr>dwControlsAccepted := (if CurrentState = SERVICE_START_PENDING then 0 else ACCEPT_STOP)\<rparr>;
          (st3, n) = (if CurrentState = SERVICE_RUNNING \<or> CurrentState = SERVICE_STOPPED
                      then (st2\<lparr>dwCheckPoint := 0\<rparr>, check_point s)
                      else (st2\<lparr>dwCheckPoint := check_point s\<rparr>, check_point s + 1))
      in s\<lparr>SvcStatus := st3, check_point := n, cv_reports := cv_reports s @ [st3]\<rparr>)"

text \<open>\<^verbatim>\<open>service_main\<close> until it waits: a null handle of the registration ends it at once.\<close>

definition service_main :: "bool \<Rightarrow> ('j, 't) service \<Rightarrow> ('j, 't) service" where
  "service_main registered s =
     (if \<not> registered then s\<lparr>cv_main := Main_returned\<rparr>
      else let s1 = s\<lparr>SvcStatus := (SvcStatus s)\<lparr>dwServiceType := 0x10, dwServiceSpecificExitCode := 0,
                 dwControlsAccepted := ACCEPT_PAUSE_CONTINUE OR ACCEPT_STOP OR ACCEPT_SHUTDOWN\<rparr>\<rparr>
           in (report_svc_status SERVICE_START_PENDING 0 3000 s1)\<lparr>cv_main := Main_init\<rparr>)"

text \<open>\<^verbatim>\<open>init_service\<close> until it calls \<^verbatim>\<open>start\<close>; \<open>Inl\<close> is the error of \<^verbatim>\<open>CreateEvent\<close>.\<close>

definition init_service :: "u32 + unit \<Rightarrow> ('j, 't) service \<Rightarrow> ('j, 't) service" where
  "init_service created s = (case created of
     Inl e \<Rightarrow> (report_svc_status SERVICE_STOPPED e 0 (s\<lparr>SvcStopEvent := None\<rparr>))\<lparr>cv_main := Main_returned\<rparr>
   | Inr _ \<Rightarrow> (report_svc_status SERVICE_RUNNING 0 0 (s\<lparr>SvcStopEvent := Some False\<rparr>))\<lparr>cv_main := Main_start\<rparr>)"

text \<open>
  \<^verbatim>\<open>start\<close>: the server is started, and a thread is created, which runs from then on, before the
  object that stands for it is assigned. Assigning to one that still stands for a thread ends the
  process, here as in the server's own \<^verbatim>\<open>start\<close>; so does a thread that cannot be created here.
\<close>

definition service_start :: "bool \<Rightarrow> ('j, 't) service \<Rightarrow> (bool \<times> ('j, 't) service) option" where
  "service_start thread_created s = (case server_start thread_created (cv_net s) of
     None \<Rightarrow> None
   | Some (started, net) \<Rightarrow>
       Some (started, s\<lparr>cv_net := net, cv_loop := (if started then Loop_test else cv_loop s)\<rparr>))"

definition assign_exec :: "('j, 't) service \<Rightarrow> ('j, 't) service option" where
  "assign_exec s = (if cv_exec s then None else Some (s\<lparr>cv_exec := True\<rparr>))"

text \<open>The control handler until it calls \<^verbatim>\<open>start\<close> or \<^verbatim>\<open>stop\<close>.\<close>

definition service_control_handler :: "u32 \<Rightarrow> ('j, 't) service \<Rightarrow> ('j, 't) service" where
  "service_control_handler control s =
     (if control = CONTROL_SHUTDOWN \<or> control = CONTROL_STOP
      then (report_svc_status SERVICE_STOP_PENDING 0 0 s)\<lparr>cv_handler := Handler_stop control\<rparr>
      else if control = CONTROL_CONTINUE
      then (report_svc_status SERVICE_CONTINUE_PENDING 0 0 s)\<lparr>cv_handler := Handler_start\<rparr>
      else if control = CONTROL_PAUSE
      then (report_svc_status SERVICE_PAUSE_PENDING 0 0 s)\<lparr>cv_handler := Handler_stop control\<rparr>
      else s)"

text \<open>What the handler does after \<^verbatim>\<open>stop\<close> has stored the state.\<close>

definition after_store :: "u32 \<Rightarrow> ('j, 't) service \<Rightarrow> ('j, 't) service" where
  "after_store control s =
     s\<lparr>cv_handler := (if control = CONTROL_PAUSE then Handler_report SERVICE_PAUSED else Handler_set_event)\<rparr>"

section \<open>Steps\<close>

text \<open>
  A control is delivered when no other is being handled and the policy \<open>P\<close> allows it for the
  statuses reported so far; the event of \<open>asio\<close> stands for whatever its thread does to
  the connections and the queue of the server. The loop looks at the flag in one step and handles
  each message in one, so that the flag may be set in the middle of a round. A wait for \<^verbatim>\<open>m_exec\<close>
  ends when it stands for no thread (the handle is invalid) or the thread has ended, and so does
  \<^verbatim>\<open>stop\<close>'s join, which is left out in the first case.
\<close>

type_synonym policy = "service_status list \<Rightarrow> u32 \<Rightarrow> bool"

inductive service_step ::
    "('j, 't) server_env \<Rightarrow> string \<Rightarrow> (string \<Rightarrow> bool) \<Rightarrow> policy \<Rightarrow>
      ('j, 't) service \<times> u32 list \<Rightarrow> ('j, 't) service \<times> u32 list \<Rightarrow> bool"
  for E dir can_write P where
  main_entry: "cv_main s = Main_entry \<Longrightarrow> service_step E dir can_write P (s, cs) (service_main registered s, cs)"
| main_init: "cv_main s = Main_init \<Longrightarrow> service_step E dir can_write P (s, cs) (init_service created s, cs)"
| main_start: "cv_main s = Main_start \<Longrightarrow> service_start created s = Some (started, s') \<Longrightarrow>
    service_step E dir can_write P (s, cs) (s'\<lparr>cv_main := (if started then Main_assign else Main_wait_exec)\<rparr>, cs)"
| main_assign: "cv_main s = Main_assign \<Longrightarrow> assign_exec s = Some s' \<Longrightarrow>
    service_step E dir can_write P (s, cs) (s'\<lparr>cv_main := Main_wait_exec\<rparr>, cs)"
| main_wait_exec: "cv_main s = Main_wait_exec \<Longrightarrow> \<not> cv_exec s \<or> cv_loop s = Loop_ended \<Longrightarrow>
    service_step E dir can_write P (s, cs) (s\<lparr>cv_main := Main_wait_event\<rparr>, cs)"
| main_wait_event: "cv_main s = Main_wait_event \<Longrightarrow> SvcStopEvent s = Some True \<Longrightarrow>
    service_step E dir can_write P (s, cs) ((report_svc_status SERVICE_STOPPED 0 0 s)\<lparr>cv_main := Main_returned\<rparr>, cs)"
| loop_test: "cv_loop s = Loop_test \<Longrightarrow>
    service_step E dir can_write P (s, cs) (s\<lparr>cv_loop := (if cv_stop s then Loop_ended else Loop_update (-1))\<rparr>, cs)"
| loop_message: "cv_loop s = Loop_update n \<Longrightarrow> n \<noteq> 0 \<Longrightarrow> \<not> queue_empty (m_incomming (cv_server s)) \<Longrightarrow>
    update (change_server_virtuals E) 1 (cv_server s) = Inr sv' \<Longrightarrow>
    service_step E dir can_write P (s, cs) (s\<lparr>cv_server := sv', cv_loop := Loop_update (n - 1)\<rparr>, cs)"
| loop_round: "cv_loop s = Loop_update n \<Longrightarrow> n = 0 \<or> queue_empty (m_incomming (cv_server s)) \<Longrightarrow>
    service_step E dir can_write P (s, cs) (s\<lparr>cv_loop := Loop_test\<rparr>, cs)"
| asio: "m_state sv' = m_state (cv_server s) \<Longrightarrow>
    service_step E dir can_write P (s, cs) (s\<lparr>cv_server := sv'\<rparr>, cs)"
| control: "cv_handler s = Handler_idle \<Longrightarrow> P (cv_reports s) c \<Longrightarrow>
    service_step E dir can_write P (s, cs) (service_control_handler c s, cs @ [c])"
| handler_stop: "cv_handler s = Handler_stop c \<Longrightarrow>
    service_step E dir can_write P (s, cs) (s\<lparr>cv_stop := True, cv_handler := Handler_join c\<rparr>, cs)"
| handler_join: "cv_handler s = Handler_join c \<Longrightarrow> \<not> cv_exec s \<or> cv_loop s = Loop_ended \<Longrightarrow>
    service_step E dir can_write P (s, cs) (s\<lparr>cv_exec := False, cv_handler := Handler_store c\<rparr>, cs)"
| handler_store: "cv_handler s = Handler_store c \<Longrightarrow> store_state E dir can_write (cv_server s) (cv_files s) = Inr fs \<Longrightarrow>
    service_step E dir can_write P (s, cs) (after_store c (s\<lparr>cv_files := fs\<rparr>), cs)"
| handler_set_event: "cv_handler s = Handler_set_event \<Longrightarrow>
    service_step E dir can_write P (s, cs)
      (s\<lparr>SvcStopEvent := map_option (\<lambda>_. True) (SvcStopEvent s), cv_handler := Handler_read_status\<rparr>, cs)"
| handler_read_status: "cv_handler s = Handler_read_status \<Longrightarrow>
    service_step E dir can_write P (s, cs) (s\<lparr>cv_handler := Handler_report (dwCurrentState (SvcStatus s))\<rparr>, cs)"
| handler_report: "cv_handler s = Handler_report v \<Longrightarrow>
    service_step E dir can_write P (s, cs) ((report_svc_status v 0 0 s)\<lparr>cv_handler := Handler_idle\<rparr>, cs)"
| handler_start: "cv_handler s = Handler_start \<Longrightarrow> service_start created s = Some (started, s') \<Longrightarrow>
    service_step E dir can_write P (s, cs) (s'\<lparr>cv_handler := (if started then Handler_assign else Handler_wait_exec)\<rparr>, cs)"
| handler_assign: "cv_handler s = Handler_assign \<Longrightarrow> assign_exec s = Some s' \<Longrightarrow>
    service_step E dir can_write P (s, cs) (s'\<lparr>cv_handler := Handler_wait_exec\<rparr>, cs)"
| handler_wait_exec: "cv_handler s = Handler_wait_exec \<Longrightarrow> \<not> cv_exec s \<or> cv_loop s = Loop_ended \<Longrightarrow>
    service_step E dir can_write P (s, cs) (s\<lparr>cv_handler := Handler_report SERVICE_RUNNING\<rparr>, cs)"

inductive_cases service_stepE: "service_step E dir can_write P x y"

definition new_service :: "'j change_server \<Rightarrow> 't files \<Rightarrow> ('j, 't) service" where
  "new_service sv fs =
     \<lparr>SvcStopEvent = None,
      SvcStatus = \<lparr>dwServiceType = 0, dwCurrentState = 0, dwControlsAccepted = 0, dwWin32ExitCode = 0,
        dwServiceSpecificExitCode = 0, dwCheckPoint = 0, dwWaitHint = 0\<rparr>,
      check_point = 1, cv_server = sv,
      cv_net = \<lparr>st_stopped = False, st_joinable = False\<rparr>, cv_exec = False, cv_loop = Loop_none, cv_stop = False, cv_main = Main_entry,
      cv_handler = Handler_idle, cv_files = fs, cv_reports = []\<rparr>"

inductive service_reach ::
    "('j, 't) server_env \<Rightarrow> string \<Rightarrow> (string \<Rightarrow> bool) \<Rightarrow> policy \<Rightarrow> 'j change_server \<Rightarrow> 't files \<Rightarrow>
      ('j, 't) service \<Rightarrow> u32 list \<Rightarrow> bool"
  for E dir can_write P sv0 fs0 where
  service_begin: "service_reach E dir can_write P sv0 fs0 (new_service sv0 fs0) []"
| service_next: "service_reach E dir can_write P sv0 fs0 s cs \<Longrightarrow> service_step E dir can_write P (s, cs) (s', cs') \<Longrightarrow>
    service_reach E dir can_write P sv0 fs0 s' cs'"

text \<open>
  The service control manager delivers only the controls that the last status accepts, and
  none before the first status. Left out are interrogation and the controls users define, which
  are always delivered and which the handler ignores.
\<close>

definition accepts :: "u32 \<Rightarrow> u32 \<Rightarrow> bool" where
  "accepts accepted c \<longleftrightarrow>
     c = CONTROL_STOP \<and> accepted AND ACCEPT_STOP \<noteq> 0 \<or>
     (c = CONTROL_PAUSE \<or> c = CONTROL_CONTINUE) \<and> accepted AND ACCEPT_PAUSE_CONTINUE \<noteq> 0 \<or>
     c = CONTROL_SHUTDOWN \<and> accepted AND ACCEPT_SHUTDOWN \<noteq> 0"

definition scm_policy :: policy where
  "scm_policy reports c \<longleftrightarrow> reports \<noteq> [] \<and> accepts (dwControlsAccepted (last reports)) c"

section \<open>What is reported\<close>

definition pending_state :: "u32 \<Rightarrow> bool" where
  "pending_state v \<longleftrightarrow> v \<noteq> SERVICE_RUNNING \<and> v \<noteq> SERVICE_STOPPED"

definition pending_reports :: "service_status list \<Rightarrow> service_status list" where
  "pending_reports rs = filter (\<lambda>st. pending_state (dwCurrentState st)) rs"

definition report_ok :: "service_status \<Rightarrow> bool" where
  "report_ok st \<longleftrightarrow>
     dwControlsAccepted st = (if dwCurrentState st = SERVICE_START_PENDING then 0 else ACCEPT_STOP) \<and>
     (\<not> pending_state (dwCurrentState st) \<longrightarrow> dwCheckPoint st = 0)"

definition reports_ok :: "service_status list \<Rightarrow> u32 \<Rightarrow> bool" where
  "reports_ok rs n \<longleftrightarrow> list_all report_ok rs \<and>
     map dwCheckPoint (pending_reports rs) = map of_nat [1..<Suc (length (pending_reports rs))] \<and>
     n = of_nat (Suc (length (pending_reports rs)))"

text \<open>Everything but the status, the counter and the reports is left alone by a report.\<close>

lemma report_fields [simp]:
  "SvcStopEvent (report_svc_status v e w s) = SvcStopEvent s" "cv_server (report_svc_status v e w s) = cv_server s"
  "cv_exec (report_svc_status v e w s) = cv_exec s" "cv_loop (report_svc_status v e w s) = cv_loop s" "cv_stop (report_svc_status v e w s) = cv_stop s"
  "cv_main (report_svc_status v e w s) = cv_main s" "cv_handler (report_svc_status v e w s) = cv_handler s"
  "cv_files (report_svc_status v e w s) = cv_files s" "cv_net (report_svc_status v e w s) = cv_net s" "dwCurrentState (SvcStatus (report_svc_status v e w s)) = v"
  "cv_reports (report_svc_status v e w s) = cv_reports s @ [SvcStatus (report_svc_status v e w s)]"
  by (simp_all add: report_svc_status_def Let_def)

lemma report_reports_ok:
  "reports_ok (cv_reports s) (check_point s) \<Longrightarrow>
    reports_ok (cv_reports s @ [SvcStatus (report_svc_status v e w s)]) (check_point (report_svc_status v e w s))"
  by (cases "pending_state v")
    (auto simp: reports_ok_def pending_reports_def report_svc_status_def report_ok_def pending_state_def Let_def)

lemmas service_ops = service_main_def init_service_def service_start_def assign_exec_def service_control_handler_def after_store_def

lemma service_ops_reports:
  assumes "reports_ok (cv_reports s) (check_point s)"
  shows "reports_ok (cv_reports (service_main r s)) (check_point (service_main r s))"
    "reports_ok (cv_reports (init_service c s)) (check_point (init_service c s))"
    "reports_ok (cv_reports (service_control_handler k s)) (check_point (service_control_handler k s))"
proof -
  have with_status: "reports_ok (cv_reports (s\<lparr>SvcStatus := st\<rparr>)) (check_point (s\<lparr>SvcStatus := st\<rparr>))" for st
    using assms by simp
  have with_event: "reports_ok (cv_reports (s\<lparr>SvcStopEvent := ev\<rparr>)) (check_point (s\<lparr>SvcStopEvent := ev\<rparr>))" for ev
    using assms by simp
  show "reports_ok (cv_reports (service_main r s)) (check_point (service_main r s))"
    using report_reports_ok [OF with_status] assms by (simp add: service_main_def Let_def)
  show "reports_ok (cv_reports (init_service c s)) (check_point (init_service c s))"
    using report_reports_ok [OF with_event] by (simp add: init_service_def split: sum.split)
  show "reports_ok (cv_reports (service_control_handler k s)) (check_point (service_control_handler k s))"
    using report_reports_ok [OF assms] assms by (simp add: service_control_handler_def)
qed

lemma service_start_reports:
  "service_start b s = Some (started, s') \<Longrightarrow> cv_reports s' = cv_reports s \<and> check_point s' = check_point s"
  "assign_exec s = Some s' \<Longrightarrow> cv_reports s' = cv_reports s \<and> check_point s' = check_point s"
  by (auto simp: service_start_def assign_exec_def split: option.splits if_split_asm)

lemma step_reports_ok:
  assumes "service_step E dir can_write P (s, cs) (s', cs')" and "reports_ok (cv_reports s) (check_point s)"
  shows "reports_ok (cv_reports s') (check_point s')"
  using assms(1)
  by (cases rule: service_step.cases)
    (use assms(2) in \<open>auto simp: report_reports_ok service_ops_reports after_store_def dest: service_start_reports\<close>)

lemma reach_reports_ok:
  "service_reach E dir can_write P sv0 fs0 s cs \<Longrightarrow> reports_ok (cv_reports s) (check_point s)"
proof (induction rule: service_reach.induct)
  case service_begin
  show ?case by (simp add: new_service_def reports_ok_def pending_reports_def)
next
  case service_next
  then show ?case by (blast intro: step_reports_ok)
qed

text \<open>
  Continuing a paused service would not work: the thread of asio still runs, so starting the
  server again ends the process unless no thread can be created, and then nothing is served.
\<close>

lemma service_start_again:
  "st_joinable (cv_net s) \<Longrightarrow> service_start thread_created s = (if thread_created then None else Some (False, s))"
  by (simp add: service_start_def server_start_def)

section \<open>What is delivered\<close>

definition only_stop :: "('j, 't) service \<times> u32 list \<Rightarrow> bool" where
  "only_stop x = (case x of (s, cs) \<Rightarrow> set cs \<subseteq> {CONTROL_STOP} \<and>
     (case cv_handler s of
        Handler_stop c \<Rightarrow> c = CONTROL_STOP
      | Handler_join c \<Rightarrow> c = CONTROL_STOP
      | Handler_store c \<Rightarrow> c = CONTROL_STOP
      | Handler_start \<Rightarrow> False
      | Handler_assign \<Rightarrow> False
      | Handler_wait_exec \<Rightarrow> False
      | _ \<Rightarrow> True))"

lemma scm_policy_stop: "scm_policy rs c \<Longrightarrow> reports_ok rs n \<Longrightarrow> c = CONTROL_STOP"
proof -
  assume c: "scm_policy rs c" and rs: "reports_ok rs n"
  then have "report_ok (last rs)" by (auto simp: scm_policy_def reports_ok_def list_all_iff)
  then have "dwControlsAccepted (last rs) = 0 \<or> dwControlsAccepted (last rs) = ACCEPT_STOP"
    by (auto simp: report_ok_def split: if_split_asm)
  with c show ?thesis by (auto simp: scm_policy_def accepts_def)
qed

lemma service_start_same: "service_start b s = Some (started, s') \<Longrightarrow> cv_handler s' = cv_handler s \<and> SvcStopEvent s' = SvcStopEvent s \<and>
    cv_server s' = cv_server s \<and> cv_files s' = cv_files s \<and> cv_stop s' = cv_stop s \<and> cv_main s' = cv_main s \<and>
    cv_exec s' = cv_exec s \<and> cv_loop s' = (if started then Loop_test else cv_loop s)"
  by (auto simp: service_start_def split: option.splits)

lemma assign_exec_same: "assign_exec s = Some s' \<Longrightarrow> s' = s\<lparr>cv_exec := True\<rparr>"
  by (simp add: assign_exec_def split: if_split_asm)

lemma service_ops_same [simp]:
  "cv_handler (service_main b s) = cv_handler s" "cv_handler (init_service c s) = cv_handler s"
  "cv_stop (service_main b s) = cv_stop s" "cv_stop (init_service c s) = cv_stop s"
  "cv_stop (service_control_handler k s) = cv_stop s" "cv_main (service_control_handler k s) = cv_main s"
  "cv_server (service_main b s) = cv_server s" "cv_server (init_service c s) = cv_server s"
  "cv_server (service_control_handler k s) = cv_server s" "cv_files (service_control_handler k s) = cv_files s"
  "cv_files (service_main b s) = cv_files s" "cv_files (init_service c s) = cv_files s"
  "SvcStopEvent (service_main b s) = SvcStopEvent s" "SvcStopEvent (service_control_handler k s) = SvcStopEvent s"
  "cv_exec (service_main b s) = cv_exec s" "cv_exec (init_service c s) = cv_exec s" "cv_exec (service_control_handler k s) = cv_exec s"
  "cv_loop (service_main b s) = cv_loop s" "cv_loop (init_service c s) = cv_loop s" "cv_loop (service_control_handler k s) = cv_loop s"
  by (simp_all add: service_ops Let_def split: sum.split)

lemma step_only_stop:
  assumes "service_step E dir can_write scm_policy (s, cs) (s', cs')" and "reports_ok (cv_reports s) n"
    and "only_stop (s, cs)"
  shows "only_stop (s', cs')"
  using assms(1)
proof (cases rule: service_step.cases)
  case (control c)
  then have "c = CONTROL_STOP" using assms(2) scm_policy_stop by blast
  with control assms(3) show ?thesis by (simp add: only_stop_def service_control_handler_def)
qed (use assms(3) in \<open>auto simp: only_stop_def after_store_def dest: service_start_same assign_exec_same\<close>)

lemma reach_only_stop: "service_reach E dir can_write scm_policy sv0 fs0 s cs \<Longrightarrow> only_stop (s, cs)"
proof (induction rule: service_reach.induct)
  case service_begin
  show ?case by (simp add: only_stop_def new_service_def)
next
  case (service_next s cs s' cs')
  then show ?case using step_only_stop reach_reports_ok by blast
qed

section \<open>What is stored\<close>

text \<open>The files \<open>fs0\<close> with the state of the server stored on them, once or more often.\<close>

definition state_stored ::
    "('j, 't) server_env \<Rightarrow> string \<Rightarrow> (string \<Rightarrow> bool) \<Rightarrow> 't files \<Rightarrow> ('j, 't) service \<Rightarrow> bool" where
  "state_stored E dir can_write fs0 s \<longleftrightarrow>
     (\<lambda>fs fs'. store_state E dir can_write (cv_server s) fs = Inr fs')\<^sup>+\<^sup>+ fs0 (cv_files s)"

lemma state_stored_same:
  "m_state (cv_server s') = m_state (cv_server s) \<Longrightarrow> cv_files s' = cv_files s \<Longrightarrow>
    state_stored E dir can_write fs0 s' = state_stored E dir can_write fs0 s"
  by (simp add: state_stored_def store_state_def)

lemma state_stored_step:
  assumes "cv_files s = fs0 \<or> state_stored E dir can_write fs0 s"
    and "store_state E dir can_write (cv_server s) (cv_files s) = Inr (cv_files s')" and "cv_server s' = cv_server s"
  shows "state_stored E dir can_write fs0 s'"
  using assms by (auto simp: state_stored_def intro: tranclp.intros)

text \<open>
  Once the flag is set and no round is under way, the state of the server does not change any
  more: a thread of the loop can only look at the flag and end.
\<close>

definition loop_quiet :: "('j, 't) service \<Rightarrow> bool" where
  "loop_quiet s \<longleftrightarrow> cv_stop s \<and> (\<forall>n. cv_loop s \<noteq> Loop_update n)"

lemma step_quiet:
  assumes "service_step E dir can_write P (s, cs) (s', cs')" and "loop_quiet s"
  shows "loop_quiet s' \<and> m_state (cv_server s') = m_state (cv_server s)"
  using assms(1)
proof (cases rule: service_step.cases)
  case (main_start created started t)
  with service_start_same [of created s started t] show ?thesis using assms(2) by (auto simp: loop_quiet_def)
next
  case (handler_start created started t)
  with service_start_same [of created s started t] show ?thesis using assms(2) by (auto simp: loop_quiet_def)
qed (use assms(2) in \<open>auto simp: loop_quiet_def after_store_def dest: assign_exec_same\<close>)

lemma steps_quiet:
  assumes "(service_step E dir can_write P)\<^sup>*\<^sup>* (s, cs) (s', cs')" and "loop_quiet s"
  shows "loop_quiet s' \<and> m_state (cv_server s') = m_state (cv_server s)"
  using assms
proof (induction rule: rtranclp_induct2)
  case (step s1 cs1 s2 cs2)
  then show ?case using step_quiet by metis
qed simp

text \<open>
  A thread of the loop that runs is the one of \<^verbatim>\<open>m_exec\<close>, or it is about to be assigned to it; and
  before the flag is set no stop has got as far as the join, and the files are the first ones.
\<close>

definition loop_running :: "('j, 't) service \<Rightarrow> bool" where
  "loop_running s \<longleftrightarrow> cv_loop s \<noteq> Loop_none \<and> cv_loop s \<noteq> Loop_ended"

definition exec_inv :: "'t files \<Rightarrow> ('j, 't) service \<Rightarrow> bool" where
  "exec_inv fs0 s \<longleftrightarrow>
     (loop_running s \<longrightarrow> cv_exec s \<or> cv_main s = Main_assign \<or> cv_handler s = Handler_assign) \<and>
     (\<not> cv_stop s \<longrightarrow> cv_files s = fs0 \<and> SvcStopEvent s \<noteq> Some True \<and> cv_handler s \<noteq> Handler_set_event \<and>
       (\<forall>c. cv_handler s \<noteq> Handler_join c \<and> cv_handler s \<noteq> Handler_store c))"

lemma step_exec_inv:
  assumes "service_step E dir can_write P (s, cs) (s', cs')" and "exec_inv fs0 s"
  shows "exec_inv fs0 s'"
  using assms(1)
proof (cases rule: service_step.cases)
  case (main_init c)
  then show ?thesis using assms(2)
    by (auto simp: exec_inv_def loop_running_def init_service_def split: sum.splits)
next
  case (main_entry r)
  then show ?thesis using assms(2)
    by (auto simp: exec_inv_def loop_running_def service_main_def Let_def)
next
  case (control c)
  then show ?thesis using assms(2)
    by (auto simp: exec_inv_def loop_running_def service_control_handler_def)
next
  case (main_start created started t)
  with service_start_same [of created s started t] show ?thesis using assms(2)
    by (auto simp: exec_inv_def loop_running_def)
next
  case (handler_start created started t)
  with service_start_same [of created s started t] show ?thesis using assms(2)
    by (auto simp: exec_inv_def loop_running_def)
qed (use assms(2) in \<open>auto simp: exec_inv_def loop_running_def after_store_def dest: assign_exec_same\<close>)

lemma reach_exec_inv: "service_reach E dir can_write P sv0 fs0 s cs \<Longrightarrow> exec_inv fs0 s"
proof (induction rule: service_reach.induct)
  case service_begin
  show ?case by (simp add: exec_inv_def loop_running_def new_service_def)
next
  case service_next
  then show ?case by (blast intro: step_exec_inv)
qed

text \<open>
  After \<^verbatim>\<open>m_exec\<close> was assigned, a stop stores only when the loop is quiet, so what it stores is what
  the server has.
\<close>

definition stop_inv :: "('j, 't) server_env \<Rightarrow> string \<Rightarrow> (string \<Rightarrow> bool) \<Rightarrow> 't files \<Rightarrow> ('j, 't) service \<Rightarrow> bool" where
  "stop_inv E dir can_write fs0 s \<longleftrightarrow> cv_main s \<in> {Main_wait_exec, Main_wait_event, Main_returned} \<and>
     (cv_files s = fs0 \<or> loop_quiet s \<and> state_stored E dir can_write fs0 s) \<and>
     (\<forall>c. cv_handler s = Handler_store c \<longrightarrow> loop_quiet s) \<and>
     (cv_handler s = Handler_set_event \<or> SvcStopEvent s = Some True \<longrightarrow> loop_quiet s \<and> state_stored E dir can_write fs0 s) \<and>
     (cv_main s = Main_returned \<longrightarrow> SvcStopEvent s = Some True)"

lemma stop_inv_keeps:
  assumes "stop_inv E dir can_write fs0 s" and "loop_quiet s \<Longrightarrow> loop_quiet s' \<and> m_state (cv_server s') = m_state (cv_server s)"
    and "cv_files s' = cv_files s" and "SvcStopEvent s' = SvcStopEvent s"
    and "cv_handler s' = cv_handler s \<or> (\<forall>c. cv_handler s' \<noteq> Handler_store c \<and> cv_handler s' \<noteq> Handler_set_event)"
    and "cv_main s' = cv_main s \<or> cv_main s' = Main_wait_event \<or> cv_main s' = Main_returned \<and> SvcStopEvent s = Some True"
  shows "stop_inv E dir can_write fs0 s'"
proof -
  have old: "cv_main s \<in> {Main_wait_exec, Main_wait_event, Main_returned}"
    "cv_handler s = Handler_store c \<Longrightarrow> loop_quiet s"
    "cv_handler s = Handler_set_event \<or> SvcStopEvent s = Some True \<Longrightarrow> loop_quiet s \<and> state_stored E dir can_write fs0 s"
    "cv_main s = Main_returned \<Longrightarrow> SvcStopEvent s = Some True"
    "cv_files s = fs0 \<or> loop_quiet s \<and> state_stored E dir can_write fs0 s" for c
    using assms(1) by (simp_all add: stop_inv_def)
  have kept: "loop_quiet s'" if "loop_quiet s" using that assms(2) by simp
  have stored: "state_stored E dir can_write fs0 s'" if "loop_quiet s" "state_stored E dir can_write fs0 s"
    using that assms(2) state_stored_same [of s' s E dir can_write fs0] assms(3) by simp
  have "cv_main s' \<in> {Main_wait_exec, Main_wait_event, Main_returned}" using old(1) assms(6) by auto
  moreover have "loop_quiet s'" if "cv_handler s' = Handler_store c" for c
    using that assms(5) old(2) [of c] kept by metis
  moreover have "loop_quiet s' \<and> state_stored E dir can_write fs0 s'"
    if "cv_handler s' = Handler_set_event \<or> SvcStopEvent s' = Some True"
  proof -
    have "cv_handler s = Handler_set_event \<or> SvcStopEvent s = Some True" using that assms(4,5) by auto
    then show ?thesis using old(3) kept stored by simp
  qed
  moreover have "SvcStopEvent s' = Some True" if "cv_main s' = Main_returned"
    using that assms(4,6) old(4) by auto
  moreover have "cv_files s' = fs0 \<or> loop_quiet s' \<and> state_stored E dir can_write fs0 s'"
    using old(5) kept stored assms(3) by auto
  ultimately show ?thesis by (simp add: stop_inv_def)
qed

lemma step_stop_inv:
  assumes "service_step E dir can_write P (s, cs) (s', cs')" and "stop_inv E dir can_write fs0 s" and "exec_inv fs0 s"
  shows "stop_inv E dir can_write fs0 s'"
proof -
  note quiet = step_quiet [OF assms(1)]
  note keeps = stop_inv_keeps [OF assms(2) quiet]
  show ?thesis using assms(1)
  proof (cases rule: service_step.cases)
    case (handler_join c)
    then have "cv_stop s" "\<not> loop_running s \<or> cv_loop s = Loop_ended"
      using assms(2,3) by (auto simp: exec_inv_def stop_inv_def)
    then have "loop_quiet s" by (auto simp: loop_quiet_def loop_running_def)
    with handler_join assms(2) state_stored_same [of s' s E dir can_write fs0] show ?thesis
      by (auto simp: stop_inv_def loop_quiet_def)
  next
    case (handler_store c fs)
    then have "loop_quiet s" using assms(2) by (auto simp: stop_inv_def)
    moreover have "state_stored E dir can_write fs0 s'"
      by (rule state_stored_step [where s = s]) (use handler_store assms(2) in \<open>auto simp: stop_inv_def after_store_def\<close>)
    ultimately show ?thesis using handler_store assms(2) by (auto simp: stop_inv_def loop_quiet_def after_store_def)
  next
    case handler_set_event
    with assms(2) state_stored_same [of s' s E dir can_write fs0] show ?thesis
      by (auto simp: stop_inv_def loop_quiet_def)
  next
    case (control c)
    then show ?thesis by (intro keeps) (auto simp: service_control_handler_def)
  next
    case (handler_start created started t)
    with service_start_same [of created s started t] show ?thesis by (intro keeps) auto
  next
    case (handler_assign t)
    with assign_exec_same [of s t] show ?thesis by (intro keeps) auto
  qed (use assms(2) keeps in \<open>auto simp: stop_inv_def\<close>)
qed

lemma steps_stop_inv:
  assumes "(service_step E dir can_write P)\<^sup>*\<^sup>* (s, cs) (s', cs')" and "stop_inv E dir can_write fs0 s" and "exec_inv fs0 s"
  shows "stop_inv E dir can_write fs0 s'"
proof -
  have "stop_inv E dir can_write fs0 s' \<and> exec_inv fs0 s'"
    using assms
  proof (induction rule: rtranclp_induct2)
    case (step s1 cs1 s2 cs2)
    then show ?case using step_stop_inv step_exec_inv by metis
  qed simp
  then show ?thesis by simp
qed

section \<open>A run\<close>

text \<open>
  A service that is started and stopped. The handler reads the current status for its last
  report before, and reports after, the main thread has reported the stop.
\<close>

abbreviation sample_reach :: "(json_tree, json_tree) service \<Rightarrow> u32 list \<Rightarrow> bool" where
  "sample_reach \<equiv> service_reach sample_env ''/d'' (\<lambda>_. True) scm_policy (sample_server\<lparr>m_state := new_manager\<rparr>) Map.empty"

lemma sample_stores: "m_state sv = new_manager \<Longrightarrow> store_state sample_env ''/d'' (\<lambda>_. True) sv fs = Inr fs"
  by (simp add: store_state_def st_store_state_def new_manager_def pt_save_def serialize_lib_def lib_modified_def
      new_lib_def empty_table_def is_empty_lib_def)

abbreviation sample_step where
  "sample_step \<equiv> service_step sample_env ''/d'' (\<lambda>_. True) scm_policy"

lemma reach_steps:
  assumes "(service_step E dir can_write P)\<^sup>*\<^sup>* (s, cs) (s', cs')" and "service_reach E dir can_write P sv0 fs0 s cs"
  shows "service_reach E dir can_write P sv0 fs0 s' cs'"
  using assms
proof (induction rule: rtranclp_induct2)
  case (step s1 cs1 s2 cs2)
  then show ?case by (blast intro: service_next)
qed

text \<open>The service until its thread runs, which is not yet assigned to \<^verbatim>\<open>m_exec\<close>.\<close>

definition sample_started :: "('j, 't) service \<Rightarrow> ('j, 't) service" where
  "sample_started s = (init_service (Inr ()) (service_main True s))
     \<lparr>cv_net := \<lparr>st_stopped = False, st_joinable = True\<rparr>, cv_loop := Loop_test, cv_main := Main_assign\<rparr>"

lemma reach_started:
  fixes sv0 :: "'j change_server" and fs0 :: "'t files"
  defines "s \<equiv> sample_started (new_service sv0 fs0)"
  shows "service_reach E dir can_write scm_policy sv0 fs0 s []" and "cv_main s = Main_assign"
    and "cv_handler s = Handler_idle" and "\<not> cv_exec s" and "cv_loop s = Loop_test" and "\<not> cv_stop s" and "cv_server s = sv0"
    and "cv_files s = fs0" and "SvcStopEvent s = Some False" and "scm_policy (cv_reports s) CONTROL_STOP"
proof -
  let ?s0 = "new_service sv0 fs0 :: ('j, 't) service"
  let ?s1 = "service_main True ?s0"
  let ?s2 = "init_service (Inr ()) ?s1"
  let ?s3 = "?s2\<lparr>cv_net := \<lparr>st_stopped = False, st_joinable = True\<rparr>, cv_loop := Loop_test\<rparr>"
  have main: "cv_main ?s0 = Main_entry" "cv_main ?s1 = Main_init" "cv_main ?s2 = Main_start"
    "service_start True ?s2 = Some (True, ?s3)"
    by (simp_all add: new_service_def service_main_def init_service_def service_start_def server_start_def Let_def)
  have "service_reach E dir can_write scm_policy sv0 fs0 ?s0 []" by (rule service_begin)
  then have "service_reach E dir can_write scm_policy sv0 fs0 ?s1 []"
    by (rule service_next) (rule service_step.main_entry [OF main(1)])
  then have "service_reach E dir can_write scm_policy sv0 fs0 ?s2 []"
    by (rule service_next) (rule service_step.main_init [OF main(2)])
  then show "service_reach E dir can_write scm_policy sv0 fs0 s []"
    unfolding s_def sample_started_def by (rule service_next) (use service_step.main_start [OF main(3,4)] in simp)
  show "scm_policy (cv_reports s) CONTROL_STOP"
    by (simp add: s_def sample_started_def scm_policy_def accepts_def init_service_def report_svc_status_def Let_def)
qed (simp_all add: s_def sample_started_def new_service_def init_service_def service_main_def Let_def)

lemma sample_running:
  "\<exists>s. sample_reach s [] \<and> cv_main s = Main_wait_exec \<and> cv_handler s = Handler_idle \<and> cv_exec s \<and> cv_loop s = Loop_test \<and>
    m_state (cv_server s) = new_manager \<and> SvcStopEvent s = Some False \<and> scm_policy (cv_reports s) CONTROL_STOP \<and> \<not> cv_stop s"
proof -
  let ?s = "sample_started (new_service (sample_server\<lparr>m_state := new_manager\<rparr>) Map.empty) :: (json_tree, json_tree) service"
  note start = reach_started [where ?sv0.0 = "sample_server\<lparr>m_state := new_manager\<rparr>" and ?fs0.0 = "Map.empty :: json_tree files"]
  have "assign_exec ?s = Some (?s\<lparr>cv_exec := True\<rparr>)" using start(4) by (simp add: assign_exec_def)
  then have "sample_reach (?s\<lparr>cv_exec := True, cv_main := Main_wait_exec\<rparr>) []"
    using service_next [OF start(1) service_step.main_assign [OF start(2)]] by simp
  then show ?thesis using start by (intro exI [of _ "?s\<lparr>cv_exec := True, cv_main := Main_wait_exec\<rparr>"]) simp
qed

lemma sample_stops:
  "\<exists>s0 s. sample_reach s0 [] \<and> cv_main s0 = Main_wait_exec \<and> \<not> cv_stop s0 \<and>
    sample_step\<^sup>*\<^sup>* (s0, []) (s, [CONTROL_STOP]) \<and> cv_main s = Main_wait_event \<and>
    cv_handler s = Handler_report SERVICE_STOP_PENDING \<and> SvcStopEvent s = Some True \<and> cv_loop s = Loop_ended"
proof -
  obtain s where s: "sample_reach s []" "cv_main s = Main_wait_exec" "cv_handler s = Handler_idle" "cv_exec s"
    "cv_loop s = Loop_test" "m_state (cv_server s) = new_manager" "SvcStopEvent s = Some False"
    "scm_policy (cv_reports s) CONTROL_STOP" "\<not> cv_stop s"
    using sample_running by blast
  let ?s1 = "service_control_handler CONTROL_STOP s"
  let ?s2 = "?s1\<lparr>cv_stop := True, cv_handler := Handler_join CONTROL_STOP\<rparr>"
  let ?s3 = "?s2\<lparr>cv_loop := Loop_ended\<rparr>"
  let ?s4 = "?s3\<lparr>cv_exec := False, cv_handler := Handler_store CONTROL_STOP\<rparr>"
  let ?s5 = "after_store CONTROL_STOP (?s4\<lparr>cv_files := cv_files ?s4\<rparr>)"
  let ?s6 = "?s5\<lparr>SvcStopEvent := map_option (\<lambda>_. True) (SvcStopEvent ?s5), cv_handler := Handler_read_status\<rparr>"
  let ?s7 = "?s6\<lparr>cv_handler := Handler_report (dwCurrentState (SvcStatus ?s6))\<rparr>"
  let ?s8 = "?s7\<lparr>cv_main := Main_wait_event\<rparr>"
  have h1: "cv_handler ?s1 = Handler_stop CONTROL_STOP" "cv_loop ?s2 = Loop_test" "cv_stop ?s2"
    using s by (simp_all add: service_control_handler_def)
  have store: "store_state sample_env ''/d'' (\<lambda>_. True) (cv_server ?s4) (cv_files ?s4) = Inr (cv_files ?s4)"
    by (rule sample_stores) (simp add: s(6))
  have h5: "cv_handler ?s5 = Handler_set_event" by (simp add: after_store_def)
  have h7: "cv_main ?s7 = Main_wait_exec" "\<not> cv_exec ?s7 \<or> cv_loop ?s7 = Loop_ended"
    using s by (simp_all add: after_store_def)
  have steps: "sample_step (s, []) (?s1, [CONTROL_STOP])" "sample_step (?s1, [CONTROL_STOP]) (?s2, [CONTROL_STOP])"
    "sample_step (?s3, [CONTROL_STOP]) (?s4, [CONTROL_STOP])" "sample_step (?s4, [CONTROL_STOP]) (?s5, [CONTROL_STOP])"
    "sample_step (?s5, [CONTROL_STOP]) (?s6, [CONTROL_STOP])" "sample_step (?s6, [CONTROL_STOP]) (?s7, [CONTROL_STOP])"
    "sample_step (?s7, [CONTROL_STOP]) (?s8, [CONTROL_STOP])"
    subgoal using service_step.control [where P = scm_policy, OF s(3,8), of _ _ _ "[]"] by simp
    subgoal by (rule service_step.handler_stop [OF h1(1)])
    subgoal by (rule service_step.handler_join; simp)
    subgoal by (rule service_step.handler_store [OF _ store]; simp)
    subgoal by (rule service_step.handler_set_event [OF h5])
    subgoal by (rule service_step.handler_read_status; simp)
    subgoal by (rule service_step.main_wait_exec [OF h7])
    done
  have loop: "sample_step (?s2, [CONTROL_STOP]) (?s3, [CONTROL_STOP])"
    using service_step.loop_test [OF h1(2), of sample_env "''/d''" "\<lambda>_. True" scm_policy] h1(3) by simp
  have "sample_step\<^sup>*\<^sup>* (s, []) (?s8, [CONTROL_STOP])"
    using steps loop by (meson rtranclp.rtrancl_refl converse_rtranclp_into_rtranclp)
  moreover have "cv_main ?s8 = Main_wait_event \<and> cv_handler ?s8 = Handler_report SERVICE_STOP_PENDING \<and>
      SvcStopEvent ?s8 = Some True \<and> cv_loop ?s8 = Loop_ended"
    using s by (simp add: after_store_def service_control_handler_def)
  ultimately show ?thesis using s(1,2,9) by blast
qed

lemma sample_stopping:
  "\<exists>s. sample_reach s [CONTROL_STOP] \<and> cv_main s = Main_wait_event \<and> cv_handler s = Handler_report SERVICE_STOP_PENDING \<and>
    SvcStopEvent s = Some True \<and> cv_loop s = Loop_ended"
  using sample_stops reach_steps [where cs = "[]" and cs' = "[CONTROL_STOP]"] by blast

section \<open>A stop that comes too early\<close>

text \<open>
  Between the creation of the thread and the assignment of \<^verbatim>\<open>m_exec\<close> the join of \<^verbatim>\<open>stop\<close> is left
  out: a message can be handled after the state was stored, and the service ends with it.
\<close>

lemma stop_before_assignment:
  assumes "m_state sv = m_state sv0" and "length (m_queue (m_incomming sv)) = 1"
    and "update (change_server_virtuals E) 1 sv = Inr sv1" and "queue_empty (m_incomming sv1)"
    and "store_state E dir can_write sv fs0 = Inr fs1"
  shows "\<exists>s. service_reach E dir can_write scm_policy sv0 fs0 s [CONTROL_STOP] \<and> cv_main s = Main_returned \<and>
    cv_handler s = Handler_idle \<and> cv_loop s = Loop_ended \<and> cv_server s = sv1 \<and> cv_files s = fs1"
proof -
  let ?s = "sample_started (new_service sv0 fs0) :: ('a, 'b) service"
  note start = reach_started [where ?sv0.0 = sv0 and ?fs0.0 = fs0]
  let ?s1 = "?s\<lparr>cv_server := sv\<rparr>"
  let ?s2 = "?s1\<lparr>cv_loop := Loop_update (-1)\<rparr>"
  let ?s3 = "service_control_handler CONTROL_STOP ?s2"
  let ?s4 = "?s3\<lparr>cv_stop := True, cv_handler := Handler_join CONTROL_STOP\<rparr>"
  let ?s5 = "?s4\<lparr>cv_exec := False, cv_handler := Handler_store CONTROL_STOP\<rparr>"
  let ?s6 = "after_store CONTROL_STOP (?s5\<lparr>cv_files := fs1\<rparr>)"
  let ?s7 = "?s6\<lparr>cv_server := sv1, cv_loop := Loop_update (-1 - 1)\<rparr>"
  let ?s8 = "?s7\<lparr>cv_loop := Loop_test\<rparr>"
  let ?s9 = "?s8\<lparr>cv_loop := (if cv_stop ?s8 then Loop_ended else Loop_update (-1))\<rparr>"
  let ?s10 = "?s9\<lparr>SvcStopEvent := map_option (\<lambda>_. True) (SvcStopEvent ?s9), cv_handler := Handler_read_status\<rparr>"
  let ?s11 = "?s10\<lparr>cv_handler := Handler_report (dwCurrentState (SvcStatus ?s10))\<rparr>"
  let ?s12 = "(report_svc_status (dwCurrentState (SvcStatus ?s10)) 0 0 ?s11)\<lparr>cv_handler := Handler_idle\<rparr>"
  let ?s13 = "?s12\<lparr>cv_exec := True, cv_main := Main_wait_exec\<rparr>"
  let ?s14 = "?s13\<lparr>cv_main := Main_wait_event\<rparr>"
  let ?s15 = "(report_svc_status SERVICE_STOPPED 0 0 ?s14)\<lparr>cv_main := Main_returned\<rparr>"
  let ?reach = "service_reach E dir can_write scm_policy sv0 fs0"
  note simps = start after_store_def service_control_handler_def
  have "?reach ?s1 []"
    by (rule service_next [OF start(1)], rule service_step.asio) (simp add: start assms(1))
  then have "?reach ?s2 []"
    by (rule service_next) (use service_step.loop_test [where s = ?s1] start in simp)
  then have "?reach ?s3 ([] @ [CONTROL_STOP])"
    by (rule service_next) (rule service_step.control; simp add: start)
  then have "?reach ?s3 [CONTROL_STOP]" by simp
  then have "?reach ?s4 [CONTROL_STOP]"
    by (rule service_next) (rule service_step.handler_stop; simp add: simps)
  then have "?reach ?s5 [CONTROL_STOP]"
    by (rule service_next) (rule service_step.handler_join; simp add: simps)
  then have "?reach ?s6 [CONTROL_STOP]"
    by (rule service_next) (rule service_step.handler_store; use assms(5) in \<open>simp add: simps\<close>)
  then have "?reach ?s7 [CONTROL_STOP]"
    by (rule service_next) (rule service_step.loop_message; use assms(2,3) in \<open>auto simp: simps queue_empty_def\<close>)
  then have "?reach ?s8 [CONTROL_STOP]"
    by (rule service_next) (rule service_step.loop_round; use assms(4) in simp)
  then have "?reach ?s9 [CONTROL_STOP]"
    by (rule service_next) (rule service_step.loop_test; simp)
  then have "?reach ?s10 [CONTROL_STOP]"
    by (rule service_next) (rule service_step.handler_set_event; simp add: simps)
  then have "?reach ?s11 [CONTROL_STOP]"
    by (rule service_next) (rule service_step.handler_read_status; simp)
  then have "?reach ?s12 [CONTROL_STOP]"
    by (rule service_next) (rule service_step.handler_report; simp)
  then have "?reach ?s13 [CONTROL_STOP]"
  proof (rule service_next)
    have "assign_exec ?s12 = Some (?s12\<lparr>cv_exec := True\<rparr>)" by (simp add: assign_exec_def simps)
    moreover have "cv_main ?s12 = Main_assign" by (simp add: simps)
    ultimately show "service_step E dir can_write scm_policy (?s12, [CONTROL_STOP]) (?s13, [CONTROL_STOP])"
      using service_step.main_assign [of ?s12 "?s12\<lparr>cv_exec := True\<rparr>"] by simp
  qed
  then have "?reach ?s14 [CONTROL_STOP]"
    by (rule service_next) (rule service_step.main_wait_exec; simp add: simps)
  then have "?reach ?s15 [CONTROL_STOP]"
    by (rule service_next) (rule service_step.main_wait_event; simp add: simps)
  then show ?thesis by (intro exI [of _ ?s15]) (simp add: simps)
qed

section \<open>Asking for a service\<close>

text \<open>
  The enumeration of \<^verbatim>\<open>service_helper\<close> and the conversion of the current state to it, which is
  a cast of the number. The buffer for the status is as large as a pointer, and it is read after
  it was freed, so a query that succeeds is undefined; the cast is what it would return.
\<close>

datatype service_state = CONTINUE_PENDING | PAUSE_PENDING | PAUSED | RUNNING | START_PENDING | STOP_PENDING | STOPPED

definition service_state_cast :: "u32 \<Rightarrow> service_state option" where
  "service_state_cast n =
     (if n < 7 then Some ([CONTINUE_PENDING, PAUSE_PENDING, PAUSED, RUNNING, START_PENDING, STOP_PENDING, STOPPED] ! unat n)
      else None)"

definition query_service_state :: "service_status option \<Rightarrow> service_state option result" where
  "query_service_state answer = (case answer of
     None \<Rightarrow> Inr (service_state_cast 0)
   | Some status_info \<Rightarrow> Inl Undefined)"

text \<open>The state a number of the Windows headers stands for.\<close>

definition state_of_code :: "u32 \<Rightarrow> service_state option" where
  "state_of_code n =
     (if n = SERVICE_STOPPED then Some STOPPED else if n = SERVICE_START_PENDING then Some START_PENDING
      else if n = SERVICE_STOP_PENDING then Some STOP_PENDING else if n = SERVICE_RUNNING then Some RUNNING
      else if n = SERVICE_CONTINUE_PENDING then Some CONTINUE_PENDING else if n = SERVICE_PAUSE_PENDING then Some PAUSE_PENDING
      else if n = SERVICE_PAUSED then Some PAUSED else None)"

text \<open>
  \<^verbatim>\<open>is_installed\<close>. A call to enumerate the services succeeds with their names, or fails with an
  error and the names that fitted; the caller takes success for the error. The loop ends after
  one round, because its condition has a constant for an alternative.
\<close>

abbreviation ERROR_ACCESS_DENIED :: u32 where "ERROR_ACCESS_DENIED \<equiv> 5"
abbreviation ERROR_MORE_DATA :: u32 where "ERROR_MORE_DATA \<equiv> 234"

definition enum_services :: "(u32 \<times> string list) + string list \<Rightarrow> string list \<Rightarrow> string list \<times> u32" where
  "enum_services r vec = (case r of
     Inl (e, names) \<Rightarrow> (vec @ names, if e = ERROR_MORE_DATA then ERROR_MORE_DATA else 0)
   | Inr names \<Rightarrow> (vec, 0))"

primrec enum_loop :: "((u32 \<times> string list) + string list) list \<Rightarrow> string list \<Rightarrow> string list" where
  "enum_loop [] vec = vec"
| "enum_loop (r # replies) vec =
     (let (vec', ret) = enum_services r vec
      in if ret = 0 \<or> ERROR_ACCESS_DENIED \<noteq> 0 then vec' else enum_loop replies vec')"

definition is_installed :: "((u32 \<times> string list) + string list) list \<Rightarrow> string \<Rightarrow> bool" where
  "is_installed replies m_name \<longleftrightarrow> m_name \<in> set (enum_loop replies [])"

text \<open>
  The other operations of the helper print and call. A failure is named by the call that
  failed; a buffer is counted from its allocation until it is freed.
\<close>

record service_config =
  sc_type :: u32
  sc_start :: u32
  sc_error :: u32
  sc_path :: string
  sc_account :: string
  sc_group :: "string option"
  sc_tag :: u32
  sc_dependencies :: "string option"

datatype helper_output =
    Failed string
  | Create_service string string string
  | Service_installed
  | Service_deleted string
  | Configuration_line string u32 u32 u32 string string
  | Description_line string
  | Group_line string
  | Tag_line u32
  | Dependencies_line string

abbreviation ERROR_INSUFFICIENT_BUFFER :: u32 where "ERROR_INSUFFICIENT_BUFFER \<equiv> 122"

definition install_service :: "string \<Rightarrow> string option \<Rightarrow> bool \<Rightarrow> string \<Rightarrow> helper_output list" where
  "install_service m_name module_path created description = (case module_path of
     None \<Rightarrow> [Failed ''GetModuleFileName'']
   | Some path \<Rightarrow> Create_service m_name description ([CHR 0x22] @ path @ [CHR 0x22]) #
       (if \<not> created then [Failed ''CreateService''] else [Service_installed]))"

definition open_service :: "bool \<Rightarrow> helper_output list" where
  "open_service opened = (if \<not> opened then [Failed ''OpenService''] else [])"

definition delete_service :: "string \<Rightarrow> bool \<Rightarrow> bool \<Rightarrow> helper_output list" where
  "delete_service m_name opened deleted =
     open_service opened @ (if \<not> deleted then [Failed ''DeleteService''] else [Service_deleted m_name])"

definition configuration_lines :: "string \<Rightarrow> service_config \<Rightarrow> string option \<Rightarrow> helper_output list" where
  "configuration_lines m_name lpsc lpsd =
     [Configuration_line m_name (sc_type lpsc) (sc_start lpsc) (sc_error lpsc) (sc_path lpsc) (sc_account lpsc)] @
     (case lpsd of Some d \<Rightarrow> [Description_line d] | None \<Rightarrow> []) @
     (case sc_group lpsc of Some g \<Rightarrow> [Group_line g] | None \<Rightarrow> []) @
     (if sc_tag lpsc \<noteq> 0 then [Tag_line (sc_tag lpsc)] else []) @
     (case sc_dependencies lpsc of Some d \<Rightarrow> [Dependencies_line d] | None \<Rightarrow> [])"

text \<open>
  A first call with no buffer says how much is needed: \<open>Inl\<close> is its error, \<open>Inr\<close> a success
  that leaves the pointer null. The second component of the result is the number of buffers
  that stay allocated.
\<close>

definition query_service_info ::
    "string \<Rightarrow> bool \<Rightarrow> u32 + unit \<Rightarrow> service_config option \<Rightarrow> u32 + unit \<Rightarrow> string option option \<Rightarrow>
      (helper_output list \<times> nat) result" where
  "query_service_info m_name opened size1 config size2 description =
     rbind (if (case size1 of Inl e \<Rightarrow> e \<noteq> ERROR_INSUFFICIENT_BUFFER | Inr _ \<Rightarrow> False) then Inr ([Failed ''QueryServiceConfig''], 0)
      else let n1 = (case size1 of Inl _ \<Rightarrow> 1 | Inr _ \<Rightarrow> 0)
      in case config of None \<Rightarrow> Inr ([Failed ''QueryServiceConfig''], n1)
      | Some lpsc \<Rightarrow>
         if (case size2 of Inl e \<Rightarrow> e \<noteq> ERROR_INSUFFICIENT_BUFFER | Inr _ \<Rightarrow> False) then Inr ([Failed ''QueryServiceConfig2''], n1)
         else let n2 = n1 + (case size2 of Inl _ \<Rightarrow> 1 | Inr _ \<Rightarrow> 0)
         in case description of None \<Rightarrow> Inr ([Failed ''QueryServiceConfig2''], n2)
         | Some lpsd \<Rightarrow> if n2 < 2 then Inl Undefined else Inr (configuration_lines m_name lpsc lpsd, n2 - 2))
     (\<lambda>(os, n). Inr (open_service opened @ os, n))"

text \<open>
  A query that succeeds frees both buffers; one whose last call fails keeps what it allocated.
\<close>

lemma query_service_info_cases:
  "query_service_info n True (Inl ERROR_INSUFFICIENT_BUFFER) (Some c) (Inl ERROR_INSUFFICIENT_BUFFER) d =
     Inr (case d of Some lpsd \<Rightarrow> (configuration_lines n c lpsd, 0) | None \<Rightarrow> ([Failed ''QueryServiceConfig2''], 2))"
  "query_service_info n True (Inl ERROR_INSUFFICIENT_BUFFER) None s d = Inr ([Failed ''QueryServiceConfig''], 1)"
  by (simp_all add: query_service_info_def open_service_def Let_def split: option.split)

lemma service_state_cast_wrong:
  "n \<in> {SERVICE_STOPPED, SERVICE_START_PENDING, SERVICE_STOP_PENDING, SERVICE_RUNNING, SERVICE_CONTINUE_PENDING,
      SERVICE_PAUSE_PENDING, SERVICE_PAUSED} \<Longrightarrow> service_state_cast n \<noteq> state_of_code n"
  by (auto simp: service_state_cast_def state_of_code_def)

section \<open>Properties\<close>

text \<open>
  C40: the service can only be stopped. Whatever happens before, every status it reports accepts
  the control to stop and nothing else, and none while it starts; so a manager that delivers
  only what the last status accepts never delivers a pause, a continuation or the shutdown of
  the system, although \<^verbatim>\<open>service_main\<close> sets the bits for them and the handler handles them.
  The pending statuses carry the check points one, two and so on, the others none.
\<close>

theorem service_only_stops:
  assumes "service_reach E dir can_write scm_policy sv0 fs0 s cs"
  shows "set cs \<subseteq> {CONTROL_STOP} \<and> reports_ok (cv_reports s) (check_point s)"
  using reach_only_stop [OF assms] reach_reports_ok [OF assms] by (simp add: only_stop_def)

text \<open>
  C39: stopping a service that has started loses nothing. Once the main function has assigned the
  thread it created to \<^verbatim>\<open>m_exec\<close> and waits for it, with no stop under way, the following holds
  whatever controls are delivered and however the threads take turns, message by message: when the
  main function has returned, the files are those of the beginning with the state that the
  server has then stored on them, and from there on no message is handled and no round of the
  update loop begins, so that state is the last one. What needs the first condition is the join,
  which is left out when \<^verbatim>\<open>m_exec\<close> stands for no thread.
\<close>

theorem service_stops_stored:
  assumes "service_reach E dir can_write P sv0 fs0 s0 cs0" and "cv_main s0 = Main_wait_exec" and "\<not> cv_stop s0"
    and "(service_step E dir can_write P)\<^sup>*\<^sup>* (s0, cs0) (s, cs)" and "cv_main s = Main_returned"
    and "(service_step E dir can_write P)\<^sup>*\<^sup>* (s, cs) (s', cs')"
  shows "state_stored E dir can_write fs0 s \<and> cv_stop s' \<and> (\<forall>n. cv_loop s' \<noteq> Loop_update n) \<and>
    m_state (cv_server s') = m_state (cv_server s)"
proof -
  have inv: "exec_inv fs0 s0" using assms(1) by (rule reach_exec_inv)
  then have "stop_inv E dir can_write fs0 s0" using assms(2,3) by (auto simp: exec_inv_def stop_inv_def)
  then have "stop_inv E dir can_write fs0 s" using steps_stop_inv [OF assms(4)] inv by blast
  then have s: "state_stored E dir can_write fs0 s" "loop_quiet s" using assms(5) by (auto simp: stop_inv_def)
  from s steps_quiet [OF assms(6) s(2)] show ?thesis by (simp add: loop_quiet_def)
qed

text \<open>
  The last status reported can be wrong. There is a run in which the service reports that
  it has stopped, and after that, as the very last thing, that it is about to stop, although its
  main function has returned and nothing runs any more: the handler reads the current status
  before, and reports it after, the main thread has reported the stop.
\<close>

theorem service_stale_status:
  "\<exists>s. service_reach sample_env ''/d'' (\<lambda>_. True) scm_policy (sample_server\<lparr>m_state := new_manager\<rparr>) Map.empty s [CONTROL_STOP] \<and>
    cv_main s = Main_returned \<and> cv_handler s = Handler_idle \<and> cv_loop s = Loop_ended \<and>
    (\<exists>rs. map dwCurrentState (cv_reports s) = rs @ [SERVICE_STOPPED, SERVICE_STOP_PENDING])"
proof -
  obtain s where s: "sample_reach s [CONTROL_STOP]" "cv_main s = Main_wait_event"
    "cv_handler s = Handler_report SERVICE_STOP_PENDING" "SvcStopEvent s = Some True" "cv_loop s = Loop_ended"
    using sample_stopping by blast
  let ?s1 = "(report_svc_status SERVICE_STOPPED 0 0 s)\<lparr>cv_main := Main_returned\<rparr>"
  let ?s2 = "(report_svc_status SERVICE_STOP_PENDING 0 0 ?s1)\<lparr>cv_handler := Handler_idle\<rparr>"
  have "sample_reach ?s1 [CONTROL_STOP]"
    by (rule service_next [OF s(1)]) (rule service_step.main_wait_event [OF s(2,4)])
  then have "sample_reach ?s2 [CONTROL_STOP]"
    by (rule service_next) (rule service_step.handler_report; use s(3) in simp)
  then show ?thesis using s(5) by (intro exI [of _ ?s2]) simp
qed

text \<open>
  Asking whether the service is installed gives the wrong answer whenever the system can
  give the right one. If the services are enumerated, none is looked at and the answer is no;
  only the names that come with an error are, and only those of the first call.
\<close>

theorem installed_not_found:
  "\<not> is_installed (Inr names # rest) name \<and>
   (is_installed (Inl (e, names) # rest) name \<longleftrightarrow> name \<in> set names)"
  by (simp add: is_installed_def enum_services_def)

theorem service_only_stops_witness:
  "\<exists>s. sample_reach s [CONTROL_STOP] \<and> reports_ok (cv_reports s) (check_point s)"
  using sample_stopping service_only_stops by blast

theorem service_stops_stored_witness:
  "\<exists>s0 s. sample_reach s0 [] \<and> cv_main s0 = Main_wait_exec \<and> sample_step\<^sup>*\<^sup>* (s0, []) (s, [CONTROL_STOP]) \<and>
    cv_main s = Main_returned \<and> state_stored sample_env ''/d'' (\<lambda>_. True) Map.empty s"
proof -
  obtain s0 s where s: "sample_reach s0 []" "cv_main s0 = Main_wait_exec" "\<not> cv_stop s0"
    "sample_step\<^sup>*\<^sup>* (s0, []) (s, [CONTROL_STOP])" "cv_main s = Main_wait_event" "SvcStopEvent s = Some True"
    using sample_stops by blast
  let ?s1 = "(report_svc_status SERVICE_STOPPED 0 0 s)\<lparr>cv_main := Main_returned\<rparr>"
  have r: "sample_step\<^sup>*\<^sup>* (s0, []) (?s1, [CONTROL_STOP])"
    using s(4) service_step.main_wait_event [OF s(5,6)] by (rule rtranclp.rtrancl_into_rtrancl)
  moreover have "state_stored sample_env ''/d'' (\<lambda>_. True) Map.empty ?s1"
    using service_stops_stored [OF s(1-3) r _ rtranclp.rtrancl_refl] by simp
  ultimately show ?thesis using s(1,2) by (intro exI [of _ s0] exI [of _ ?s1]) simp
qed

end
