(* ===== verification/Server_State.thy ===== *)
theory Server_State
  imports Change_Server
begin

text \<open>
  What the server's requests do to the state of the wallpapers, from one operation of
  \<^verbatim>\<open>change_state.cpp\<close> through \<^verbatim>\<open>m_process\<close>, \<^verbatim>\<open>update\<close> and the main loop to the files, which the
  command line opens: the invariant \<open>manager_ok\<close> holds all along, as long as no name in a request
  has a null character (a merge cuts the name there, which can make it one that is taken).
\<close>

section \<open>Requests\<close>

definition plain_doc :: "('j, 't) json_ops \<Rightarrow> 'j \<Rightarrow> bool" where
  "plain_doc J j \<longleftrightarrow> (\<forall>k s. arg_string J j k = Inr s \<longrightarrow> CHR 0x00 \<notin> set s)"

definition plain_message :: "('j, 't) server_env \<Rightarrow> u32 message \<Rightarrow> bool" where
  "plain_message E m \<longleftrightarrow> (\<forall>j. msg_to_json (se_docs E) m = Inr j \<longrightarrow> plain_doc (se_json E) j)"

definition plain_queue :: "('j, 't) server_env \<Rightarrow> ('j, 'z) change_server_scheme \<Rightarrow> bool" where
  "plain_queue E sv \<longleftrightarrow> (\<forall>x \<in> set (m_queue (m_incomming sv)). plain_message E (msg x))"

section \<open>Every operation of the state keeps the invariant\<close>

lemma good_keeps: "good_command f \<Longrightarrow> manager_ok m \<Longrightarrow> f m = Inr (b, m') \<Longrightarrow> manager_ok m'"
  unfolding good_command_def by (metis Inr_inject prod.inject)

lemma st_forms:
  "st_change_active J j m = noexcept_call (rbind (arg_string J j ''new_active_name'') (\<lambda>n. Inr (mg_change_active n m)))"
  "st_rename_collection J j m = noexcept_call (rbind (arg_string J j ''col_name'') (\<lambda>k.
     rbind (arg_string J j ''col_name_new'') (\<lambda>n. Inr (mg_rename_collection k n m))))"
  "st_merge_collection J j m = noexcept_call (rbind (arg_string J j ''col1'') (\<lambda>k.
     rbind (arg_string J j ''col2'') (\<lambda>n. Inr (mg_merge_collection k n m))))"
  "st_move_collection J j m = noexcept_call (rbind (arg_string J j ''col_cur'') (\<lambda>k.
     rbind (arg_string J j ''col_new'') (\<lambda>n. rbind (arg_string J j ''wall'') (\<lambda>v. mg_move_wallpaper k n v m))))"
  by (simp_all add: st_change_active_def mg_change_active_def st_rename_collection_def mg_rename_collection_def
      st_merge_collection_def mg_merge_collection_def st_move_collection_def mg_move_wallpaper_def mg_lift_def
      case_prod_unfold Let_def)

lemma flagged_ok: "manager_ok m \<Longrightarrow> manager_ok (m\<lparr>mg_cache := snd (get_cache n (mg_cache m))\<rparr>)"
  using get_cache_flag [of n "mg_cache m"] by (intro manager_ok_lib) (simp_all add: manager_ok_def)

lemma st_change_active_keeps: "st_change_active J j m = Inr (b, m') \<Longrightarrow> manager_ok m \<Longrightarrow> manager_ok m'"
  by (auto simp: st_forms rbind_eq_Inr_iff intro: good_keeps [OF good_pure_commands(1)])

lemma st_rename_keeps: "st_rename_collection J j m = Inr (b, m') \<Longrightarrow> manager_ok m \<Longrightarrow> manager_ok m'"
  by (auto simp: st_forms rbind_eq_Inr_iff intro: good_keeps [OF good_pure_commands(3)])

lemma st_merge_keeps:
  assumes "st_merge_collection J j m = Inr (b, m')" and "manager_ok m" and "plain_doc J j"
  shows "manager_ok m'"
proof -
  from assms(1) obtain k n where k: "arg_string J j ''col1'' = Inr k" "mg_merge_collection k n m = (b, m')"
    by (auto simp: st_forms rbind_eq_Inr_iff)
  then have "CHR 0x00 \<notin> set k" using assms(3) by (auto simp: plain_doc_def)
  from good_keeps [OF good_pure_commands(4) [OF this] assms(2)] k(2) show ?thesis by simp
qed

lemma st_move_keeps:
  assumes "st_move_collection J j m = Inr (b, m')" and "manager_ok m" and "plain_doc J j"
  shows "manager_ok m'"
proof -
  from assms(1) obtain k n v where v: "arg_string J j ''wall'' = Inr v" "mg_move_wallpaper k n v m = Inr (b, m')"
    by (auto simp: st_forms rbind_eq_Inr_iff)
  then have "CHR 0x00 \<notin> set v" using assms(3) by (auto simp: plain_doc_def)
  from good_keeps [OF good_move [OF this] assms(2) v(2)] show ?thesis .
qed

lemma st_remove_keeps:
  assumes "st_remove_collection J D j m = Inr (b, m')" and "manager_ok m"
  shows "manager_ok m'"
proof -
  have flagged: "get_cache n (mg_cache m) = (r, l) \<Longrightarrow> manager_ok (m\<lparr>mg_cache := l\<rparr>)" for n r l
    using flagged_ok [OF assms(2), of n] by simp
  have removed: "lib_remove n (mg_cache m) = (r, l) \<Longrightarrow> manager_ok (m\<lparr>mg_cache := l\<rparr>)" for n r l
    using good_keeps [OF good_pure_commands(2) assms(2), of n]
    by (simp add: mg_remove_collection_def mg_lift_def)
  show ?thesis using assms(1)
    by (auto simp: st_remove_collection_def rbind_eq_Inr_iff split: if_splits prod.splits sum.splits
        dest: flagged removed)
qed

lemma st_create_keeps:
  assumes "st_create_collection J D env j m = Inr (b, m')" and "manager_ok m"
  shows "manager_ok m'"
proof -
  have "\<exists>n. m' = m\<lparr>mg_cache := snd (lib_insert n empty_cache (mg_cache m))\<rparr> \<or>
    (\<exists>p es. m' = m\<lparr>mg_cache := snd (lib_insert n (fold (inserter (path_hash p)) es empty_cache) (mg_cache m)),
       mg_path_buf := pt_insert p (mg_path_buf m)\<rparr>)"
    using assms(1)
    by (auto simp: st_create_collection_def rbind_eq_Inr_iff Let_def case_prod_beta split: if_split_asm)
  then obtain n p es where "m' = m\<lparr>mg_cache := snd (lib_insert n empty_cache (mg_cache m))\<rparr> \<or>
    m' = m\<lparr>mg_cache := snd (lib_insert n (fold (inserter (path_hash p)) es empty_cache) (mg_cache m)),
      mg_path_buf := pt_insert p (mg_path_buf m)\<rparr>" by blast
  then show ?thesis
  proof
    assume "m' = m\<lparr>mg_cache := snd (lib_insert n empty_cache (mg_cache m))\<rparr>"
    then show ?thesis using assms(2) lib_locs_insert [of n empty_cache "mg_cache m"]
      by (simp add: manager_ok_lib wf_lib_insert manager_ok_def [of m])
  next
    assume m': "m' = m\<lparr>mg_cache := snd (lib_insert n (fold (inserter (path_hash p)) es empty_cache) (mg_cache m)),
      mg_path_buf := pt_insert p (mg_path_buf m)\<rparr>"
    show ?thesis unfolding m' using assms(2)
      by (intro manager_ok_insert subset_trans [OF lib_locs_insert])
        (auto simp: manager_ok_def m_list_created wf_lib_insert)
  qed
qed

lemma st_previous_keeps: "manager_ok m \<Longrightarrow> manager_ok (snd (st_previous J m))"
  by (simp add: st_previous_def manager_ok_def located_def)

lemma st_add_keeps:
  assumes "collection_refs R" and "st_add_to_collection J R j m = Inr (b, m')" and "manager_ok m"
  shows "manager_ok m'"
proof -
  from assms(2) obtain n w where "arg_string J j ''col_name'' = Inr n" "arg_string J j ''wall'' = Inr w"
    by (auto simp: st_add_to_collection_def rbind_eq_Inr_iff)
  with st_add_manager [OF assms(1,3) this] assms(2) have "mg_add_to_collection n w m = Inr (b, m')" by simp
  then show ?thesis by (rule good_keeps [OF good_add assms(3)])
qed

lemma se_next_keeps: "se_next E m = Inr (doc, m') \<Longrightarrow> manager_ok m \<Longrightarrow> manager_ok m'"
  by (auto simp: se_next_def returned_def manager_ok_def located_def split: option.splits dest!: st_next_keeps)

lemma se_mark_keeps: "se_mark E m = Inr m' \<Longrightarrow> m' = m"
  by (simp add: se_mark_def st_mark_keeps)

section \<open>From a message to the main loop\<close>

lemma client_send_state: "client_send p r sv = Inr sv' \<Longrightarrow> m_state sv' = m_state sv"
  by (auto simp: client_send_def split: option.splits)

lemma reply_state:
  "reply p r sv = Inr sv' \<Longrightarrow> m_state sv' = m_state sv"
  "reply_logged p r sv = Inr sv' \<Longrightarrow> m_state sv' = m_state sv"
  by (auto simp: reply_def reply_logged_def rbind_eq_Inr_iff dest: client_send_state)

lemma reply_if_state: "reply_if E p x sv = Inr sv' \<Longrightarrow> \<exists>b. x = Inr (b, m_state sv')"
proof -
  assume run: "reply_if E p x sv = Inr sv'"
  then obtain b st where x: "x = Inr (b, st)" by (auto simp: reply_if_def rbind_eq_Inr_iff)
  with run have "(if b then client_send p (m_success E) (sv\<lparr>m_state := st\<rparr>) else Inr (sv\<lparr>m_state := st\<rparr>)) = Inr sv'"
    by (simp add: reply_if_def Let_def)
  then have "m_state sv' = st" by (cases b) (auto dest: client_send_state)
  with x show ?thesis by simp
qed

text \<open>A message leaves the state alone, or one of its operations did the step.\<close>

definition state_moves :: "('j, 't) server_env \<Rightarrow> 'j \<Rightarrow> 'j manager \<Rightarrow> 'j manager \<Rightarrow> bool" where
  "state_moves E j st st' \<longleftrightarrow> (let J = se_json E; D = se_docs E in
     st' = st \<or> (\<exists>doc. se_next E st = Inr (doc, st')) \<or> st' = snd (st_previous J st) \<or> se_mark E st = Inr st' \<or>
     (\<exists>b. Inr (b, st') \<in> {st_change_active J j st, st_create_collection J D (se_fs E) j st, se_add E j st,
       st_rename_collection J j st, st_remove_collection J D j st, st_merge_collection J j st,
       st_move_collection J j st}))"

lemma state_movesI:
  "state_moves E j st st" "se_next E st = Inr (doc, st') \<Longrightarrow> state_moves E j st st'"
  "state_moves E j st (snd (st_previous (se_json E) st))" "se_mark E st = Inr st' \<Longrightarrow> state_moves E j st st'"
  "st_change_active (se_json E) j st = Inr (b, st') \<Longrightarrow> state_moves E j st st'"
  "st_create_collection (se_json E) (se_docs E) (se_fs E) j st = Inr (b, st') \<Longrightarrow> state_moves E j st st'"
  "se_add E j st = Inr (b, st') \<Longrightarrow> state_moves E j st st'"
  "st_rename_collection (se_json E) j st = Inr (b, st') \<Longrightarrow> state_moves E j st st'"
  "st_remove_collection (se_json E) (se_docs E) j st = Inr (b, st') \<Longrightarrow> state_moves E j st st'"
  "st_merge_collection (se_json E) j st = Inr (b, st') \<Longrightarrow> state_moves E j st st'"
  "st_move_collection (se_json E) j st = Inr (b, st') \<Longrightarrow> state_moves E j st st'"
  by (auto simp: state_moves_def Let_def)

lemma m_process_moves:
  assumes "m_process E type p m sv = Inr sv'"
  shows "\<exists>j. msg_to_json (se_docs E) m = Inr j \<and> state_moves E j (m_state sv) (m_state sv')"
proof -
  from assms obtain j where j: "msg_to_json (se_docs E) m = Inr j"
    by (auto simp: m_process_def rbind_eq_Inr_iff)
  have "state_moves E j (m_state sv) (m_state sv')"
  proof (cases "type_of_number type")
    case None
    with assms j show ?thesis by (simp add: m_process_def state_moves_def)
  next
    case (Some t)
    have run: "m_process E type p m sv = Inr sv'" "type_of_number type = Some t" using assms Some by auto
    then show ?thesis using j
      by (cases t)
        (auto simp: m_process_def rbind_eq_Inr_iff Let_def case_prod_beta split: if_split_asm
          dest!: reply_state reply_if_state intro: state_movesI)
  qed
  with j show ?thesis by blast
qed

text \<open>
  What a message does to the state, which does not depend on who sent it, nor on anything else
  in the server: the sequential specification of the server.
\<close>

definition apply_request :: "('j, 't) server_env \<Rightarrow> MessageType \<Rightarrow> 'j \<Rightarrow> 'j manager \<Rightarrow> 'j manager result" where
  "apply_request E t j st =
     (let J = se_json E; D = se_docs E in case t of
        Get_Next_Wallpaper \<Rightarrow> rbind (se_next E st) (\<lambda>(_, st'). Inr st')
      | Get_Current \<Rightarrow> rbind (se_next E st) (\<lambda>(_, st'). Inr st')
      | Get_Previous_Wallpaper \<Rightarrow> Inr (snd (st_previous J st))
      | Mark_Favorate \<Rightarrow> se_mark E st
      | Change_Active_Collection \<Rightarrow> rbind (st_change_active J j st) (\<lambda>(_, st'). Inr st')
      | Create_Collection \<Rightarrow> rbind (st_create_collection J D (se_fs E) j st) (\<lambda>(_, st'). Inr st')
      | Add_To_Collection \<Rightarrow> rbind (se_add E j st) (\<lambda>(_, st'). Inr st')
      | Rename_Collection \<Rightarrow> rbind (st_rename_collection J j st) (\<lambda>(_, st'). Inr st')
      | Remove \<Rightarrow> rbind (st_remove_collection J D j st) (\<lambda>(_, st'). Inr st')
      | Merge_Collection \<Rightarrow> rbind (st_merge_collection J j st) (\<lambda>(_, st'). Inr st')
      | Move \<Rightarrow> rbind (st_move_collection J j st) (\<lambda>(_, st'). Inr st')
      | _ \<Rightarrow> Inr st)"

definition apply_message :: "('j, 't) server_env \<Rightarrow> u32 message \<Rightarrow> 'j manager \<Rightarrow> 'j manager result" where
  "apply_message E m st =
     (if validate m
      then rbind (msg_to_json (se_docs E) m) (\<lambda>j. case type_of_number (msg_id (header m)) of
             None \<Rightarrow> Inr st | Some t \<Rightarrow> apply_request E t j st)
      else Inr st)"

primrec apply_all :: "('j, 't) server_env \<Rightarrow> u32 message list \<Rightarrow> 'j manager \<Rightarrow> 'j manager result" where
  "apply_all E [] st = Inr st"
| "apply_all E (m # ms) st = rbind (apply_message E m st) (apply_all E ms)"

lemma apply_all_append [simp]: "apply_all E (ms @ ns) st = rbind (apply_all E ms st) (apply_all E ns)"
  by (induction ms arbitrary: st) (auto simp: rbind_def split: sum.split)

lemma cs_message_applies:
  assumes "cs_message E p m sv = Inr sv'"
  shows "apply_message E m (m_state sv) = Inr (m_state sv')"
proof (cases "validate m")
  case False
  with assms show ?thesis by (simp add: cs_message_def apply_message_def)
next
  case valid: True
  with assms have run: "m_process E (msg_id (header m)) p m sv = Inr sv'" by (simp add: cs_message_def)
  then obtain j where j: "msg_to_json (se_docs E) m = Inr j" by (auto simp: m_process_def rbind_eq_Inr_iff)
  show ?thesis
  proof (cases "type_of_number (msg_id (header m))")
    case None
    with run j valid show ?thesis by (simp add: m_process_def apply_message_def)
  next
    case (Some t)
    have "apply_request E t j (m_state sv) = Inr (m_state sv')"
      using run Some j
      by (cases t)
        (auto simp: m_process_def apply_request_def rbind_eq_Inr_iff Let_def case_prod_beta split: if_split_asm
          dest!: reply_state reply_if_state)
    with Some j valid show ?thesis by (simp add: apply_message_def)
  qed
qed

lemma state_moves_keeps:
  assumes "state_moves E j st st'" and "collection_refs (se_refs E)" and "plain_doc (se_json E) j" and "manager_ok st"
  shows "manager_ok st'"
  using assms(1) st_previous_keeps [OF assms(4)] assms(4)
  unfolding state_moves_def Let_def se_add_def
  by (elim disjE exE insertE emptyE)
    (auto dest: sym dest!: se_mark_keeps intro: se_next_keeps st_change_active_keeps st_rename_keeps
      st_merge_keeps [OF _ _ assms(3)] st_move_keeps [OF _ _ assms(3)] st_remove_keeps st_create_keeps
      st_add_keeps [OF assms(2)])

lemma cs_message_keeps:
  assumes "cs_message E p m sv = Inr sv'" and "collection_refs (se_refs E)"
    and "plain_message E m" and "manager_ok (m_state sv)"
  shows "manager_ok (m_state sv')"
proof (cases "validate m")
  case True
  with assms(1) obtain j where "msg_to_json (se_docs E) m = Inr j" "state_moves E j (m_state sv) (m_state sv')"
    using m_process_moves [of E "msg_id (header m)" p m sv sv'] by (auto simp: cs_message_def)
  with assms(2-4) show ?thesis by (auto simp: plain_message_def intro: state_moves_keeps)
next
  case False
  with assms(1,4) show ?thesis by (simp add: cs_message_def)
qed

lemma apply_message_moves:
  assumes "apply_message E m st = Inr st'"
  shows "st' = st \<or> (\<exists>j. msg_to_json (se_docs E) m = Inr j \<and> state_moves E j st st')"
proof (cases "validate m \<and> type_of_number (msg_id (header m)) \<noteq> None")
  case True
  with assms obtain j t where j: "msg_to_json (se_docs E) m = Inr j" "apply_request E t j st = Inr st'"
    by (auto simp: apply_message_def rbind_eq_Inr_iff)
  from j(2) have "state_moves E j st st'"
    by (cases t) (auto simp: apply_request_def rbind_eq_Inr_iff intro: state_movesI)
  with j(1) show ?thesis by blast
next
  case False
  with assms show ?thesis by (auto simp: apply_message_def rbind_eq_Inr_iff split: if_split_asm)
qed

lemma apply_all_keeps:
  assumes "collection_refs (se_refs E)" and "list_all (plain_message E) ms" and "manager_ok st"
    and "apply_all E ms st = Inr st'"
  shows "manager_ok st'"
  using assms(2-4)
proof (induction ms arbitrary: st)
  case (Cons m ms)
  then obtain st1 where st1: "apply_message E m st = Inr st1" "apply_all E ms st1 = Inr st'"
    by (auto simp: rbind_eq_Inr_iff)
  have "manager_ok st1"
    using apply_message_moves [OF st1(1)] Cons.prems(1,2) state_moves_keeps [OF _ assms(1)]
    by (auto simp: plain_message_def)
  with Cons.IH Cons.prems(1) st1(2) show ?case by simp
qed simp

text \<open>The state invariant together with the queue.\<close>

definition state_ok :: "('j, 't) server_env \<Rightarrow> ('j, 'z) change_server_scheme \<Rightarrow> bool" where
  "state_ok E sv \<longleftrightarrow> manager_ok (m_state sv) \<and> plain_queue E sv"

lemma update_loop_state:
  assumes "collection_refs (se_refs E)" and "update_loop (change_server_virtuals E) n sv = Inr sv'" and "state_ok E sv"
  shows "state_ok E sv'"
  using assms(2,3)
proof (induction n arbitrary: sv)
  case (Suc n)
  show ?case
  proof (cases "m_queue (m_incomming sv)")
    case Nil
    with Suc.prems show ?thesis by (simp add: queue_empty_def)
  next
    case (Cons x xs)
    let ?sv1 = "sv\<lparr>m_incomming := (m_incomming sv)\<lparr>m_queue := xs\<rparr>\<rparr>"
    from Cons Suc.prems(1) obtain sv2 where sv2: "cs_message E (remote x) (msg x) ?sv1 = Inr sv2"
        "update_loop (change_server_virtuals E) n sv2 = Inr sv'"
      by (auto simp: queue_empty_def pop_front_def rbind_eq_Inr_iff change_server_virtuals_def)
    have "m_incomming sv2 = m_incomming ?sv1" using cs_message_sends [OF sv2(1)] by (simp add: only_sends_def)
    moreover have "manager_ok (m_state sv2)"
      using cs_message_keeps [OF sv2(1) assms(1)] Suc.prems(2) Cons by (simp add: state_ok_def plain_queue_def)
    ultimately have "state_ok E sv2" using Suc.prems(2) Cons by (simp add: state_ok_def plain_queue_def)
    with sv2(2) show ?thesis by (rule Suc.IH)
  qed
qed simp

text \<open>
  Between two rounds the thread of asio changes the connections and the queue; what it receives
  are plain messages.
\<close>

definition plain_network :: "('j, 't) server_env \<Rightarrow> ('j change_server \<Rightarrow> 'j change_server) \<Rightarrow> bool" where
  "plain_network E net \<longleftrightarrow> (\<forall>sv. m_state (net sv) = m_state sv \<and> (plain_queue E sv \<longrightarrow> plain_queue E (net sv)))"

lemma main_loop_state:
  assumes "collection_refs (se_refs E)" and "main_loop E rounds sv = Inr sv'" and "state_ok E sv"
    and "list_all (plain_network E) rounds"
  shows "state_ok E sv'"
  using assms(2-4)
proof (induction rounds arbitrary: sv)
  case (Cons net rounds)
  then obtain sv1 where sv1: "update_loop (change_server_virtuals E) (unat (-1 :: u64)) (net sv) = Inr sv1"
      "main_loop E rounds sv1 = Inr sv'"
    by (auto simp: update_def rbind_eq_Inr_iff)
  have "state_ok E (net sv)" using Cons.prems(2,3) by (simp add: state_ok_def plain_network_def)
  from update_loop_state [OF assms(1) sv1(1) this] show ?case using Cons.IH sv1(2) Cons.prems(3) by simp
qed simp

text \<open>The server keeps its history in another file than the command line; the rest is the same.\<close>

lemma st_store_open:
  assumes "json_library J" and "wf_lib (mg_cache m)"
    and "\<exists>s \<in> set (m_cache_vec (mg_cache m)). m_modified (snd s)"
    and "unat (m_current (mg_cache m)) < cache_count (mg_cache m)"
    and "pt_modified (mg_path_buf m) \<or> pt_open J d fs = Inr ((mg_path_buf m)\<lparr>pt_modified := False\<rparr>)"
    and "can_write (table_path d)" and "can_write (library_path d)"
  shows "\<exists>fs'. st_store_state J d can_write m fs = Inr fs' \<and> open_manager J d fs' = Inr (reopened m)"
proof -
  let ?m = "m\<lparr>mg_previous := []\<rparr>"
  let ?fs1 = "if mg_previous m \<noteq> [] \<and> can_write (state_history_path d)
    then fs(state_history_path d \<mapsto> j_dump J (j_object J [(''histoy'', j_array J (mg_previous m))])) else fs"
  have "?fs1 (table_path d) = fs (table_path d)" by (simp add: state_history_path_def table_path_def)
  then have "pt_modified (mg_path_buf ?m) \<or> pt_open J d ?fs1 = Inr ((mg_path_buf ?m)\<lparr>pt_modified := False\<rparr>)"
    using assms(5) json_library.pt_open_cong [OF assms(1), of fs d ?fs1] by simp
  then obtain fs' where "store_manager J d can_write ?m ?fs1 = Inr fs'" "open_manager J d fs' = Inr (reopened ?m)"
    using json_library.store_open [OF assms(1), of ?m d ?fs1 can_write] assms(2-4,6,7) by auto
  moreover have "st_store_state J d can_write m fs = noexcept_call (store_manager J d can_write ?m ?fs1)"
    using assms(1) by (simp add: st_store_state_def store_manager_def json_library.put_null)
  moreover have "reopened ?m = reopened m" by (simp add: reopened_def)
  ultimately show ?thesis by simp
qed

section \<open>Properties\<close>

text \<open>
  C6: the collections of the server stay in order. If the messages that arrive have no null
  characters in their strings, then however many clients ask for what in whatever order, after
  every round of the main loop every wallpaper of every collection can be resolved to the
  directory whose checksum it holds, and the names of the collections are unique.
\<close>

theorem server_state_resolves:
  assumes "collection_refs (se_refs E)" and "main_loop E rounds sv = Inr sv'"
    and "list_all (plain_network E) rounds" and "plain_queue E sv" and "manager_ok (m_state sv)"
    and "lib_map (mg_cache (m_state sv')) n = Some c" and "x \<in> set (m_list c)"
  shows "distinct (cache_list (mg_cache (m_state sv'))) \<and>
    (\<exists>p. pt_get (mg_path_buf (m_state sv')) (loc x) = Some p \<and> path_hash p = loc x)"
proof -
  have "state_ok E sv" using assms(4,5) by (simp add: state_ok_def)
  from main_loop_state [OF assms(1,2) this assms(3)] have ok: "manager_ok (m_state sv')" by (simp add: state_ok_def)
  obtain p where "pt_get (mg_path_buf (m_state sv')) (loc x) = Some p" "path_hash p = loc x"
    using ok assms(6,7) by (rule manager_ok_item)
  with ok show ?thesis by (auto simp: manager_ok_def wf_lib_def)
qed

text \<open>
  C9: what the server stores, the command line opens. If the server ran on plain messages until
  it was told to stop, some collection was modified, the current index denotes one, and the files
  can be written, then the main function stores the state, and a manager opened on the files has
  the collections of the server, up to duplicate items, can resolve their wallpapers, and has no
  history.
\<close>

theorem server_session_reopens:
  assumes "json_library (se_json E)" and "collection_refs (se_refs E)" and "main_loop E rounds sv = Inr sv'"
    and "list_all (plain_network E) rounds" and "plain_queue E sv" and "manager_ok (m_state sv)"
    and "\<exists>s \<in> set (m_cache_vec (mg_cache (m_state sv'))). m_modified (snd s)"
    and "unat (m_current (mg_cache (m_state sv'))) < cache_count (mg_cache (m_state sv'))"
    and "pt_modified (mg_path_buf (m_state sv')) \<or>
      pt_open (se_json E) d fs = Inr ((mg_path_buf (m_state sv'))\<lparr>pt_modified := False\<rparr>)"
    and "can_write (table_path d)" and "can_write (library_path d)"
  shows "\<exists>fs' m'. service_main_linux E d can_write True rounds sv fs = Inr fs' \<and>
    open_manager (se_json E) d fs' = Inr m' \<and> manager_ok m' \<and>
    mg_list_collection m' = mg_list_collection (m_state sv') \<and>
    (\<forall>n. lib_map (mg_cache m') n = map_option reloaded (lib_map (mg_cache (m_state sv')) n)) \<and> mg_previous m' = []"
proof -
  let ?m = "m_state sv'"
  have "state_ok E sv" using assms(5,6) by (simp add: state_ok_def)
  from main_loop_state [OF assms(2,3) this assms(4)] have ok: "manager_ok ?m" by (simp add: state_ok_def)
  then have "wf_lib (mg_cache ?m)" by (simp add: manager_ok_def)
  from st_store_open [OF assms(1) this assms(7-11)] obtain fs'
    where fs': "st_store_state (se_json E) d can_write ?m fs = Inr fs'" "open_manager (se_json E) d fs' = Inr (reopened ?m)"
    by blast
  with assms(3) have "service_main_linux E d can_write True rounds sv fs = Inr fs'"
    by (simp add: service_main_linux_def store_state_def)
  then show ?thesis using fs'(2) manager_ok_reopened [OF ok]
    by (intro exI [of _ fs'] exI [of _ "reopened ?m"]) (simp add: reopened_lists)
qed

section \<open>Witnesses\<close>

text \<open>One round of the server with one request in its queue.\<close>

definition sample_request :: "request \<Rightarrow> u32 message" where
  "sample_request q = flag_message sample_env (request_type q) True"

lemma request_served:
  fixes q :: request
  defines "E \<equiv> document_env (request_doc json_tree_ops q)"
  assumes "serve json_tree_ops (se_docs E) sample_fs q sample_manager = Inr (ok, st)"
  obtains sv' where "m_state sv' = st" and "m_incomming sv' = new_queue"
    and "\<And>k. k \<noteq> 0 \<Longrightarrow> update (change_server_virtuals E) k (sample_busy (sample_request q)) = Inr sv'"
proof -
  let ?m = "sample_request q" and ?sv = "sample_busy (sample_request q)\<lparr>m_incomming := new_queue\<rparr>"
  have env: "se_json E = json_tree_ops" "se_fs E = sample_fs"
    "d_from_cbor (se_docs E) = (\<lambda>bs. Inr (request_doc json_tree_ops q))"
    by (simp_all add: E_def document_env_def sample_env_def)
  have valid: "valid_client (Some 0) ?sv" using sample_busy_simps(5) [of ?m] by (simp add: valid_client_def)
  have "m_process E (type_number (request_type q)) (Some 0) ?m ?sv =
      reply_if E (Some 0) (serve (se_json E) (se_docs E) (se_fs E) q (m_state ?sv)) ?sv"
    using env by (intro m_process_request [OF _ valid]) (simp add: msg_to_json_def)
  then have "cs_message E (Some 0) ?m ?sv = reply_if E (Some 0) (Inr (ok, st)) ?sv"
    using env assms(2) by (simp add: cs_message_def sample_request_def)
  with reply_if_Inr [OF valid refl, of E ok st] obtain sv'
    where sv': "cs_message E (Some 0) ?m ?sv = Inr sv'" "m_state sv' = st" by auto
  then have queue: "m_incomming sv' = new_queue" using cs_message_sends [OF sv'(1)] by (simp add: only_sends_def)
  then have done_: "update_loop V n sv' = Inr sv'" for V n
    by (cases n) (simp_all add: queue_empty_def new_queue_def)
  have "update (change_server_virtuals E) k (sample_busy ?m) = Inr sv'" if "k \<noteq> 0" for k
  proof -
    from that obtain n where n: "unat k = Suc n" by (cases "unat k") (simp_all add: unat_eq_0)
    show ?thesis using sv'(1) done_
      by (simp add: update_def n queue_empty_def pop_front_def change_server_virtuals_def sample_busy_def new_queue_def)
  qed
  with sv'(2) queue that show thesis by blast
qed

lemma request_round:
  fixes q :: request
  defines "E \<equiv> document_env (request_doc json_tree_ops q)"
  assumes "serve json_tree_ops (se_docs E) sample_fs q sample_manager = Inr (ok, st)"
  shows "\<exists>sv'. main_loop E [\<lambda>sv. sv] (sample_busy (sample_request q)) = Inr sv' \<and> m_state sv' = st"
proof -
  obtain sv' where "m_state sv' = st" "update (change_server_virtuals E) (-1) (sample_busy (sample_request q)) = Inr sv'"
    using request_served [OF assms(2) [unfolded E_def]] unfolding E_def by (metis one_neq_neg_one neg_equal_0_iff_equal zero_neq_one)
  then show ?thesis by simp
qed

lemma sample_create: "serve json_tree_ops (se_docs (document_env j)) sample_fs (Create_empty ''b'') sample_manager =
    Inr (True, sample_manager\<lparr>mg_cache := snd (lib_insert ''b'' empty_cache sample_collections)\<rparr>)"
  by (simp add: st_create_collection_def arg_bool_def arg_string_def json_tree_eval document_env_def sample_env_def
      sample_docs_def sample_active lib_insert_cases sample_collections_def cache_list_def succeeded_def sample_manager_def)

lemma sample_create_plain:
  "plain_queue (document_env (request_doc json_tree_ops (Create_empty ''b''))) (sample_busy (sample_request (Create_empty ''b'')))"
  by (auto simp: plain_queue_def plain_message_def plain_doc_def msg_to_json_def document_env_def sample_env_def
      arg_string_def json_tree_eval rbind_eq_Inr_iff split: if_splits)

lemma identity_plain: "list_all (plain_network E) [\<lambda>sv. sv]"
  by (simp add: plain_network_def)

lemma document_refs: "collection_refs (se_refs (document_env j))"
  using span.collection_refs_axioms by (simp add: document_env_def sample_env_def)

theorem server_state_resolves_witness:
  "\<exists>sv'. main_loop (document_env (request_doc json_tree_ops (Create_empty ''b''))) [\<lambda>sv. sv]
      (sample_busy (sample_request (Create_empty ''b''))) = Inr sv' \<and>
    distinct (cache_list (mg_cache (m_state sv'))) \<and> ''b'' \<in> set (cache_list (mg_cache (m_state sv')))"
proof -
  obtain sv' where sv': "main_loop (document_env (request_doc json_tree_ops (Create_empty ''b''))) [\<lambda>sv. sv]
      (sample_busy (sample_request (Create_empty ''b''))) = Inr sv'"
    "m_state sv' = sample_manager\<lparr>mg_cache := snd (lib_insert ''b'' empty_cache sample_collections)\<rparr>"
    using request_round [OF sample_create] by blast
  have a: "lib_map (mg_cache (m_state sv')) ''a'' = Some sample_cache"
    by (simp add: sv'(2) lib_insert_cases sample_collections_def cache_list_def lib_map_def)
  have x: "m_list sample_cache ! 0 \<in> set (m_list sample_cache)" by (simp add: sample_cache_def)
  have "manager_ok (m_state (sample_busy (sample_request (Create_empty ''b''))))" by (simp add: manager_ok_sample)
  from server_state_resolves [OF document_refs sv'(1) identity_plain sample_create_plain this a x] sv'
  show ?thesis by (auto simp: lib_insert_cases sample_collections_def cache_list_def)
qed

theorem server_session_reopens_witness:
  "\<exists>fs' m'. service_main_linux (document_env (request_doc json_tree_ops (Create_empty ''b''))) ''/d'' (\<lambda>_. True) True [\<lambda>sv. sv]
      (sample_busy (sample_request (Create_empty ''b''))) Map.empty = Inr fs' \<and>
    open_manager json_tree_ops ''/d'' fs' = Inr m' \<and> mg_list_collection m' = [''a'', ''b'']"
proof -
  let ?E = "document_env (request_doc json_tree_ops (Create_empty ''b''))"
  obtain sv' where sv': "main_loop ?E [\<lambda>sv. sv] (sample_busy (sample_request (Create_empty ''b''))) = Inr sv'"
    "m_state sv' = sample_manager\<lparr>mg_cache := snd (lib_insert ''b'' empty_cache sample_collections)\<rparr>"
    using request_round [OF sample_create] by blast
  have json: "se_json ?E = json_tree_ops" by (simp add: document_env_def sample_env_def)
  have lib: "mg_cache (m_state sv') = \<lparr>m_cache_vec = [(''a'', sample_cache), (''b'', empty_cache)], m_current = 0, m_active_name = ''a''\<rparr>"
    by (simp add: sv'(2) lib_insert_cases sample_collections_def cache_list_def)
  have table: "pt_modified (mg_path_buf (m_state sv'))"
    by (simp add: sv'(2) sample_active pt_insert_def pt_exists_iff empty_table_def)
  have "manager_ok (m_state (sample_busy (sample_request (Create_empty ''b''))))" by (simp add: manager_ok_sample)
  from server_session_reopens [OF _ document_refs sv'(1) identity_plain sample_create_plain this, of "''/d''" Map.empty "\<lambda>_. True"]
  show ?thesis using table lib tree.json_library_axioms unfolding json
    by (auto simp: cache_count_def sample_cache_def mg_list_collection_def cache_list_def)
qed

end
