(* ===== verification/Service_Race.thy ===== *)
theory Service_Race
  imports Service Server_State
begin

text \<open>
  A stop that comes before \<^verbatim>\<open>m_exec\<close> is assigned (\<^verbatim>\<open>src/src/change_service/change_service.hpp\<close>), as a
  run of the service with a request of a client: the request is carried out and answered, and is
  not in the files that the service leaves behind.
\<close>

theorem stop_before_assignment_loses:
  defines "E \<equiv> document_env (request_doc json_tree_ops (Create_empty ''b''))"
  shows "\<exists>s m'. service_reach E ''/d'' (\<lambda>_. True) scm_policy sample_server Map.empty s [CONTROL_STOP] \<and>
    cv_main s = Main_returned \<and> cv_handler s = Handler_idle \<and> cv_loop s = Loop_ended \<and>
    mg_list_collection (m_state (cv_server s)) = [''a'', ''b''] \<and>
    open_manager json_tree_ops ''/d'' (cv_files s) = Inr m' \<and> mg_list_collection m' = [''a'']"
proof -
  let ?m = "sample_manager :: json_tree manager" and ?sv = "sample_busy (sample_request (Create_empty ''b''))"
  obtain sv1 where sv1: "m_state sv1 = sample_manager\<lparr>mg_cache := snd (lib_insert ''b'' empty_cache sample_collections)\<rparr>"
    "m_incomming sv1 = new_queue" "update (change_server_virtuals E) 1 ?sv = Inr sv1"
    using request_served [OF sample_create] unfolding E_def by (metis one_neq_zero)
  have json: "se_json E = json_tree_ops" by (simp add: E_def document_env_def sample_env_def)
  have modified: "pt_modified (mg_path_buf ?m)"
    by (simp add: sample_active pt_insert_def pt_exists_iff empty_table_def)
  have cache: "mg_cache ?m = sample_collections" by (simp add: sample_manager_def)
  have "wf_lib (mg_cache ?m)" using manager_ok_sample unfolding manager_ok_def by blast
  then obtain fs1 where fs1: "st_store_state json_tree_ops ''/d'' (\<lambda>_. True) ?m Map.empty = Inr fs1"
    "open_manager json_tree_ops ''/d'' fs1 = Inr (reopened ?m)"
    using st_store_open [OF tree.json_library_axioms, of ?m "''/d''" Map.empty "\<lambda>_. True"] modified cache
    by (auto simp: sample_collections_def cache_count_def sample_cache_def)
  have "store_state E ''/d'' (\<lambda>_. True) ?sv Map.empty = Inr fs1" using fs1(1) json by (simp add: store_state_def)
  moreover have "m_state ?sv = m_state sample_server" by (simp add: sample_server_def)
  moreover have "queue_empty (m_incomming sv1)" using sv1(2) by (simp add: queue_empty_def new_queue_def)
  ultimately obtain s where s: "service_reach E ''/d'' (\<lambda>_. True) scm_policy sample_server Map.empty s [CONTROL_STOP]"
    "cv_main s = Main_returned" "cv_handler s = Handler_idle" "cv_loop s = Loop_ended" "cv_server s = sv1" "cv_files s = fs1"
    using stop_before_assignment [of ?sv sample_server E sv1 "''/d''" "\<lambda>_. True" Map.empty fs1] sv1(3) by auto
  have "mg_list_collection (m_state sv1) = [''a'', ''b'']" "mg_list_collection ?m = [''a'']"
    using sv1(1) cache by (simp_all add: mg_list_collection_def lib_insert_cases sample_collections_def cache_list_def)
  moreover from this(2) have "mg_list_collection (reopened ?m) = [''a'']" by (simp only: reopened_lists)
  ultimately show ?thesis using s fs1(2) by (intro exI [of _ s] exI [of _ "reopened ?m"]) simp
qed

end
