(* ===== verification/Background.thy ===== *)
theory Background
  imports Prelude
begin

text \<open>
  Setting the wallpaper: \<^verbatim>\<open>src/src/change_lib/wall_background.cpp\<close> and the handlers of
  \<^verbatim>\<open>platform/win32/bg_handler.cpp\<close>, \<^verbatim>\<open>bg_handler.hpp\<close> and \<^verbatim>\<open>platform/linux/bg_handler.cpp\<close>. The
  COM object, GDI+ and the Lua interpreter are not part of the repository: their calls are
  recorded in order, and their results are arguments.
\<close>

type_synonym hresult = "32 word"

abbreviation S_OK :: hresult where "S_OK \<equiv> 0"
abbreviation S_FALSE :: hresult where "S_FALSE \<equiv> 1"

definition FAILED_hr :: "hresult \<Rightarrow> bool" where
  "FAILED_hr res \<longleftrightarrow> res <s 0"

section \<open>The handler for Windows\<close>

text \<open>What \<^verbatim>\<open>fmt_msg\<close> makes a text of: the name of a call and its status; nothing for the empty text.\<close>

type_synonym error_text = "(string \<times> hresult) option"

datatype desktop_call = SetWallpaper string | SetPosition int | SetBackgroundColor u32

record win32_background_handler =
  m_wallpaper_set :: bool
  m_initialized :: bool
  m_valid_instance :: bool
  m_error :: error_text

text \<open>A failed creation leaves the pointer null.\<close>

definition new_win32_background :: "hresult \<Rightarrow> hresult \<Rightarrow> win32_background_handler" where
  "new_win32_background initialize create_instance =
     (let h0 = \<lparr>m_wallpaper_set = False, m_initialized = False, m_valid_instance = False, m_error = None\<rparr>;
          h1 = (if FAILED_hr initialize then h0\<lparr>m_error := Some (''CoInitialize'', initialize), m_initialized := False\<rparr> else h0);
          h2 = h1\<lparr>m_initialized := True\<rparr>;
          h3 = h2\<lparr>m_wallpaper_set := \<not> FAILED_hr create_instance, m_valid_instance := True\<rparr>
      in if FAILED_hr create_instance
         then h3\<lparr>m_error := Some (''CoCreateInstance'', create_instance), m_valid_instance := False\<rparr> else h3)"

definition delete_win32_background :: "win32_background_handler \<Rightarrow> unit result" where
  "delete_win32_background h =
     (if m_initialized h then if m_wallpaper_set h then Inr () else Inl Undefined else Inr ())"

definition win32_is_active :: "win32_background_handler \<Rightarrow> bool" where
  "win32_is_active h \<longleftrightarrow> m_initialized h \<and> m_valid_instance h"

abbreviation DWPOS_CENTER :: int where "DWPOS_CENTER \<equiv> 0"
abbreviation DWPOS_SPAN :: int where "DWPOS_SPAN \<equiv> 5"

definition win32_set_wallpaper ::
    "hresult \<Rightarrow> hresult \<Rightarrow> string \<Rightarrow> int \<Rightarrow> win32_background_handler \<Rightarrow>
      bool \<times> desktop_call list \<times> win32_background_handler" where
  "win32_set_wallpaper set_result position_result wallpaper position h =
     (if m_valid_instance h
      then if FAILED_hr set_result
           then (False, [SetWallpaper (c_str wallpaper)], h\<lparr>m_error := Some (''IDesktopWallpaper->SetWallpaper'', set_result)\<rparr>)
           else let pos = (if position \<ge> DWPOS_CENTER \<and> position \<le> DWPOS_SPAN then position else 0)
                in if FAILED_hr position_result
                   then (False, [SetWallpaper (c_str wallpaper), SetPosition pos], h\<lparr>m_error := Some (''IDestopWallpaper->SetPosition'', position_result)\<rparr>)
                   else (position_result = S_OK, [SetWallpaper (c_str wallpaper), SetPosition pos], h)
      else (S_FALSE = S_OK, [], h))"

definition win32_set_background_color ::
    "hresult \<Rightarrow> u32 \<Rightarrow> win32_background_handler \<Rightarrow> bool \<times> desktop_call list \<times> win32_background_handler" where
  "win32_set_background_color result color h =
     (if m_valid_instance h
      then if FAILED_hr result
           then (False, [SetBackgroundColor color], h\<lparr>m_error := Some (''IDestopWallpaper->SetBackgroundColor'', result)\<rparr>)
           else (result = S_OK, [SetBackgroundColor color], h)
      else (S_FALSE = S_OK, [], h))"

section \<open>Information about an image\<close>

text \<open>
  The status of GDI+ is a number from zero on, zero being success, so no status counts as a
  failure. The tags of properties are numbers of the header of GDI+.
\<close>

record get_image_information =
  gi_initialized :: bool
  gi_error :: error_text

definition new_image_information :: "hresult \<Rightarrow> get_image_information" where
  "new_image_information status =
     (if \<not> FAILED_hr status then \<lparr>gi_initialized = True, gi_error = None\<rparr>
      else \<lparr>gi_initialized = False, gi_error = Some (''Gdiplus::GdiplusStartup'', status)\<rparr>)"

text \<open>
  An item has a tag, its length in bytes, and the memory that its value points to; reading past
  the end of that is undefined. A type that values are read as has a size and what its bytes mean.
\<close>

record property_item =
  pi_id :: u32
  pi_length :: u32
  pi_value :: "u8 list"

definition memory_read :: "nat \<Rightarrow> u8 list \<Rightarrow> u8 list result" where
  "memory_read n bs = (if n \<le> length bs then Inr (take n bs) else Inl Undefined)"

definition format_asci :: "property_item \<Rightarrow> string result" where
  "format_asci item =
     rbind (memory_read (unat (pi_length item)) (pi_value item)) (\<lambda>bs. Inr (map (\<lambda>b. char_of (unat b)) bs))"

text \<open>The vector has as many elements as the item has bytes; an empty one has no first element.\<close>

definition format_array :: "nat \<Rightarrow> (u8 list \<Rightarrow> 'v) \<Rightarrow> property_item \<Rightarrow> 'v list result" where
  "format_array sz decode item =
     (let n = unat (pi_length item)
      in if n = 0 then Inl Undefined
         else rbind (memory_read n (pi_value item)) (\<lambda>bs.
           let ret = bs @ replicate (n * sz - n) 0
           in Inr (map (\<lambda>i. decode (take sz (drop (i * sz) ret))) [0..<n])))"

definition format_data :: "nat \<Rightarrow> (u8 list \<Rightarrow> 'v) \<Rightarrow> property_item \<Rightarrow> 'v result" where
  "format_data sz decode item = rbind (memory_read sz (pi_value item)) (\<lambda>bs. Inr (decode bs))"

definition format_item :: "property_item \<Rightarrow> string result" where
  "format_item g =
     (let line = (\<lambda>name. rbind (format_asci g) (\<lambda>s. Inr (name @ s @ [CHR 0x0A])))
      in if pi_id g = 0x013B then line ''Artist:''
         else if pi_id g = 0x0132 then line ''DateTime:''
         else if pi_id g = 0x0131 then line ''SoftwareUsed:''
         else if pi_id g = 0x010F then line ''EquipMaker:''
         else if pi_id g = 0x0110 then line ''EquipModel:''
         else Inr [])"

definition retrive_image_properties :: "nat \<Rightarrow> property_item list \<Rightarrow> string result" where
  "retrive_image_properties buffersize items =
     (if buffersize = 0 then Inl Undefined else rbind (traverse format_item items) (\<lambda>ss. Inr (concat ss)))"

text \<open>
  The text of a property ends in a null character, which its length counts: the null character is
  part of what is returned, in the middle of the line.
\<close>

lemma property_text_keeps_null:
  assumes "pi_value item = map (\<lambda>c. of_char c) s @ 0 # rest" and "unat (pi_length item) = Suc (length s)"
  shows "format_asci item = Inr (s @ [CHR 0x00])"
    and "pi_id item = 0x013B \<Longrightarrow> format_item item = Inr (''Artist:'' @ s @ [CHR 0x00, CHR 0x0A])"
proof -
  have "char_of (unat (of_char c :: u8)) = c" for c
  proof -
    have "unat (of_char c :: u8) = unat (of_nat (of_char c) :: u8)" by (simp only: of_nat_of_char)
    also have "\<dots> = of_char c" using nat_of_char_less_256 [of c] by (simp add: unat_of_nat)
    finally show ?thesis by simp
  qed
  then show asci: "format_asci item = Inr (s @ [CHR 0x00])"
    using assms by (simp add: format_asci_def memory_read_def comp_def char_of_def)
  show "pi_id item = 0x013B \<Longrightarrow> format_item item = Inr (''Artist:'' @ s @ [CHR 0x00, CHR 0x0A])"
    using asci by (simp add: format_item_def)
qed

text \<open>
  An array of values of more than one byte is read with too many elements: those past the
  bytes of the item are the value of zero bytes.
\<close>

lemma property_array_too_long:
  assumes "format_array sz decode item = Inr xs" and "unat (pi_length item) \<le> i * sz" and "i < length xs"
  shows "length xs = unat (pi_length item)" and "xs ! i = decode (replicate sz 0)"
proof -
  let ?n = "unat (pi_length item)"
  let ?bs = "take ?n (pi_value item)"
  have bs: "length ?bs = ?n" "xs = map (\<lambda>i. decode (take sz (drop (i * sz) (?bs @ replicate (?n * sz - ?n) 0)))) [0..<?n]"
    using assms(1) by (simp_all add: format_array_def memory_read_def Let_def split: if_split_asm)
  then show len: "length xs = ?n" by simp
  have "Suc i * sz \<le> ?n * sz" using assms(3) len by (intro mult_le_mono1) simp
  then have "sz \<le> ?n * sz - i * sz" by simp
  then have "sz \<le> ?n * sz - ?n - (i * sz - ?n)" using assms(2) by simp
  then have "take sz (drop (i * sz) (?bs @ replicate (?n * sz - ?n) 0)) = replicate sz 0"
    using bs(1) assms(2) by (simp add: min_def)
  then show "xs ! i = decode (replicate sz 0)" using bs(2) assms(3) len by simp
qed

text \<open>
  The image is a pointer, \<open>None\<close> being null, to something that has a width and a height. Whether
  GDI+ started is asked by the destructor only.
\<close>

definition get_dimensions :: "(u32 \<times> u32) option \<Rightarrow> (int \<times> int) result" where
  "get_dimensions img = (case img of None \<Rightarrow> Inl Undefined | Some (w, h) \<Rightarrow> Inr (sint w, sint h))"

datatype gdi_call = Delete_image | Gdiplus_shutdown

definition delete_image_information :: "get_image_information \<Rightarrow> gdi_call list" where
  "delete_image_information h = (if gi_initialized h then [Delete_image, Gdiplus_shutdown] else [])"

lemma image_information_shuts_down:
  assumes "status = of_nat n" and "n < 2 ^ 31"
  shows "delete_image_information (new_image_information status) = [Delete_image, Gdiplus_shutdown]"
proof -
  have "sint status \<ge> 0"
    using assms by (simp add: signed_of_nat signed_take_bit_int_eq_self)
  then show ?thesis
    by (simp add: delete_image_information_def new_image_information_def FAILED_hr_def word_sless_alt)
qed

section \<open>The handler for Linux\<close>

text \<open>
  The globals of the Lua state and the chunks that ran. \<^verbatim>\<open>load_file\<close> only compiles the file; what
  it returns is dropped.
\<close>

datatype lua_value = Lua_string string | Lua_number int

record linux_background_handler =
  lua_globals :: "string \<rightharpoonup> lua_value"
  lua_ran :: "string list"

definition linux_is_active :: "linux_background_handler \<Rightarrow> bool" where
  "linux_is_active h \<longleftrightarrow> True"

definition linux_set_background_color :: "nat \<Rightarrow> linux_background_handler \<Rightarrow> bool \<times> linux_background_handler" where
  "linux_set_background_color color h = (True, h\<lparr>lua_globals := (lua_globals h)(''bg_color'' \<mapsto> Lua_number (int color))\<rparr>)"

definition linux_set_wallpaper ::
    "(string \<Rightarrow> bool) \<Rightarrow> string \<Rightarrow> string \<Rightarrow> int \<Rightarrow> linux_background_handler \<Rightarrow> bool \<times> linux_background_handler" where
  "linux_set_wallpaper compiles data_dir wallpaper position h =
     (let h1 = h\<lparr>lua_globals := (lua_globals h)(''background'' \<mapsto> Lua_string wallpaper)\<rparr>;
          h2 = h1\<lparr>lua_globals := (lua_globals h1)(''position'' \<mapsto> Lua_number position)\<rparr>;
          res = compiles (data_dir @ ''/plugins/linux_changer.lua'')
      in (True, h2))"

section \<open>Properties\<close>

lemma delete_after_set:
  "win32_set_wallpaper r q w p h = (ok, cs, h') \<Longrightarrow> delete_win32_background h' = delete_win32_background h"
  by (auto simp: win32_set_wallpaper_def delete_win32_background_def Let_def split: if_split_asm)

text \<open>
  A failed creation is not survived. Whether COM could be initialised makes no difference to
  a new handler: it is active exactly if the instance was created. If it was not, asking it to
  set a wallpaper does nothing and fails, and destroying the handler afterwards, which the client
  does right after it logged the error, releases a null pointer.
\<close>

theorem background_failure:
  "let h = new_win32_background initialize create_instance in
     (win32_is_active h \<longleftrightarrow> \<not> FAILED_hr create_instance) \<and>
     (case win32_set_wallpaper r q w p h of (ok, calls, h') \<Rightarrow>
        (calls = [] \<longleftrightarrow> FAILED_hr create_instance) \<and> (FAILED_hr create_instance \<longrightarrow> \<not> ok) \<and>
        delete_win32_background h' = (if FAILED_hr create_instance then Inl Undefined else Inr ()))"
  by (auto simp: new_win32_background_def win32_is_active_def win32_set_wallpaper_def delete_win32_background_def Let_def)

text \<open>
  The position handed to the desktop is one of its positions: the one asked for if it is one,
  and otherwise the centre; it is only set once the wallpaper is.
\<close>

theorem background_position_in_range:
  assumes "win32_set_wallpaper r q w position h = (ok, calls, h')"
  shows "\<forall>pos. SetPosition pos \<in> set calls \<longrightarrow> 0 \<le> pos \<and> pos \<le> 5 \<and>
    pos = (if position \<in> {0..5} then position else 0) \<and> calls = [SetWallpaper (c_str w), SetPosition pos]"
  using assms by (auto simp: win32_set_wallpaper_def Let_def split: if_split_asm)

theorem background_failure_witness:
  "win32_is_active (new_win32_background S_OK 0x80004005) = False \<and>
   delete_win32_background (snd (snd (win32_set_wallpaper S_OK S_OK ''a'' 2 (new_win32_background S_OK 0x80004005)))) = Inl Undefined"
proof -
  have "FAILED_hr 0x80004005" by (simp add: FAILED_hr_def word_sless_alt)
  with background_failure [of S_OK "0x80004005" S_OK S_OK "''a''" 2] show ?thesis
    by (simp add: Let_def case_prod_unfold)
qed

theorem background_position_in_range_witness:
  "\<exists>pos. fst (snd (win32_set_wallpaper S_OK S_OK ''a'' 9 (new_win32_background S_OK S_OK))) =
     [SetWallpaper ''a'', SetPosition pos] \<and> pos = 0 \<and> pos \<le> 5"
proof -
  have "win32_set_wallpaper S_OK S_OK ''a'' 9 (new_win32_background S_OK S_OK) =
      (True, [SetWallpaper ''a'', SetPosition 0], new_win32_background S_OK S_OK)"
    by (simp add: win32_set_wallpaper_def new_win32_background_def FAILED_hr_def c_str_def Let_def)
  with background_position_in_range [OF this] show ?thesis by simp
qed

end
