(* ===== verification/Win_System.thy ===== *)
theory Win_System
  imports Prelude
begin

text \<open>
  The system information of the Windows helper:
  \<^verbatim>\<open>src/src/change_lib/platform/win32/helper.cpp\<close>. The objects that WMI returns, the memory of
  the graphics adapter and the system's own numbers are parameters. An object gives for a field
  nothing (the call fails or the value is null), or a type with the two readings of its value.
\<close>

section \<open>Queries\<close>

datatype cim_type = CIM_EMPTY | CIM_ILLEGAL | CIM_STRING | CIM_REFERENCE | CIM_UINT32 | CIM_UINT64 | CIM_UINT16

record cim_value =
  var_type :: cim_type
  bstrVal :: string
  uintVal :: u32

type_synonym wmi_object = "string \<Rightarrow> cim_value option"

datatype query_data = Text string | Number u32

definition field_data :: "cim_value option \<Rightarrow> query_data list" where
  "field_data v = (case v of
     None \<Rightarrow> []
   | Some var \<Rightarrow>
       (if (var_type var = CIM_STRING \<or> var_type var = CIM_REFERENCE) \<and>
           (var_type var \<noteq> CIM_EMPTY \<and> var_type var \<noteq> CIM_ILLEGAL)
        then [Text (bstrVal var)] else []) @
       (if (var_type var = CIM_UINT32 \<or> var_type var = CIM_UINT64 \<or> var_type var = CIM_REFERENCE) \<and>
           (var_type var \<noteq> CIM_EMPTY \<and> var_type var \<noteq> CIM_ILLEGAL)
        then [Number (uintVal var)] else []))"

text \<open>
  \<^verbatim>\<open>query\<close>: \<open>None\<close> when the query cannot be executed. The last object is released after the
  loop even if there was none.
\<close>

definition wmi_query :: "wmi_object list option \<Rightarrow> string list \<Rightarrow> query_data list result" where
  "wmi_query objects wanted = (case objects of
     None \<Rightarrow> Inr []
   | Some [] \<Rightarrow> Inl Undefined
   | Some rows \<Rightarrow> Inr (concat (map (\<lambda>row. concat (map (\<lambda>f. field_data (row f)) wanted)) rows)))"

section \<open>Decoding by position\<close>

text \<open>The results are visited in order with a counter of what was found, not of what was asked.\<close>

primrec visit :: "(nat \<Rightarrow> query_data \<Rightarrow> 'i \<Rightarrow> 'i) \<Rightarrow> nat \<Rightarrow> query_data list \<Rightarrow> 'i \<Rightarrow> 'i" where
  "visit f counter [] info = info"
| "visit f counter (data # ret) info = visit f (counter + 1) ret (f counter data info)"

record gpu_info_struct =
  gpu_name :: string
  gpu_memory :: nat
  resolution_horizontal :: u32
  resolution_vertical :: u32
  refresh_rate :: u32
  bits_pre_pixal :: u32

definition gpu_fields :: "string list" where
  "gpu_fields = [''Name'', ''CurrentHorizontalResolution'', ''CurrentVerticalResolution'', ''MaxRefreshRate'',
     ''CurrentBitsPerPixel'']"

definition gpu_visit :: "nat \<Rightarrow> nat \<Rightarrow> query_data \<Rightarrow> gpu_info_struct \<Rightarrow> gpu_info_struct" where
  "gpu_visit memory counter data info =
     (case data of
        Number arg \<Rightarrow>
          if counter = 1 then info\<lparr>resolution_horizontal := arg\<rparr>
          else if counter = 2 then info\<lparr>resolution_vertical := arg\<rparr>
          else if counter = 3 then info\<lparr>refresh_rate := arg\<rparr>
          else if counter = 4 then info\<lparr>bits_pre_pixal := arg\<rparr>
          else info
      | Text arg \<Rightarrow> info\<lparr>gpu_name := arg\<rparr>)\<lparr>gpu_memory := memory\<rparr>"

definition get_gpuinfo :: "nat \<Rightarrow> wmi_object list option \<Rightarrow> gpu_info_struct \<Rightarrow> gpu_info_struct result" where
  "get_gpuinfo memory objects info =
     rbind (wmi_query objects gpu_fields) (\<lambda>ret. Inr (visit (gpu_visit memory) 0 ret info))"

record cpu_info_struct =
  cpu_name :: string
  manufacturer :: string
  cpu_socket :: string
  core_count :: u32
  thread_count :: u32
  architecture :: u16
  addresswidth :: u16
  clock_speed :: u32

definition cpu_fields :: "string list" where
  "cpu_fields = [''Name'', ''SocketDesignation'', ''Manufacturer'', ''NumberOfCores'', ''ThreadCount'',
     ''CurrentClockSpeed'', ''AddressWidth'', ''Architecture'']"

definition cpu_visit :: "nat \<Rightarrow> query_data \<Rightarrow> cpu_info_struct \<Rightarrow> cpu_info_struct" where
  "cpu_visit counter data info = (case data of
     Number arg \<Rightarrow>
       if counter = 3 then info\<lparr>core_count := arg\<rparr>
       else if counter = 4 then info\<lparr>thread_count := arg\<rparr>
       else if counter = 5 then info\<lparr>clock_speed := arg\<rparr>
       else if counter = 6 then info\<lparr>addresswidth := ucast arg\<rparr>
       else if counter = 7 then info\<lparr>architecture := ucast arg\<rparr>
       else info
   | Text arg \<Rightarrow>
       if counter = 0 then info\<lparr>cpu_name := arg\<rparr>
       else if counter = 1 then info\<lparr>cpu_socket := arg\<rparr>
       else if counter = 2 then info\<lparr>manufacturer := arg\<rparr>
       else info)"

definition get_processor_info :: "wmi_object list option \<Rightarrow> cpu_info_struct \<Rightarrow> cpu_info_struct result" where
  "get_processor_info objects info =
     rbind (wmi_query objects cpu_fields) (\<lambda>ret. Inr (visit cpu_visit 0 ret info))"

record computer_info =
  mother_board :: string
  total_physical_memory :: u64
  total_virtual_memory :: u64
  memory_speed :: u32
  os_name :: string
  build_number :: string
  codepage :: string
  os_version :: string
  os_arch :: string
  service_pack_minor :: u16
  service_pack_major :: u16

text \<open>\<^verbatim>\<open>std::get\<close> on the first element of a vector that may be empty.\<close>

definition first_text :: "query_data list \<Rightarrow> string result" where
  "first_text ret = (case ret of [] \<Rightarrow> Inl Undefined | Text s # _ \<Rightarrow> Inr s | _ \<Rightarrow> Inl (Throws Bad_variant_access))"

definition first_number :: "query_data list \<Rightarrow> u32 result" where
  "first_number ret = (case ret of [] \<Rightarrow> Inl Undefined | Number n # _ \<Rightarrow> Inr n | _ \<Rightarrow> Inl (Throws Bad_variant_access))"

definition os_fields :: "string list" where
  "os_fields = [''Name'', ''BuildNumber'', ''CodeSet'', ''Version'', ''OSArchitecture'', ''ServicePackMinorVersion'',
     ''ServicePackMajorVersion'']"

definition os_visit :: "nat \<Rightarrow> query_data \<Rightarrow> computer_info \<Rightarrow> computer_info" where
  "os_visit counter data info = (case data of
     Number arg \<Rightarrow>
       if counter = 5 then info\<lparr>service_pack_minor := ucast arg\<rparr>
       else if counter = 6 then info\<lparr>service_pack_major := ucast arg\<rparr>
       else info
   | Text arg \<Rightarrow>
       if counter = 0 then info\<lparr>os_name := arg\<rparr>
       else if counter = 1 then info\<lparr>build_number := arg\<rparr>
       else if counter = 2 then info\<lparr>codepage := arg\<rparr>
       else if counter = 3 then info\<lparr>os_version := arg\<rparr>
       else if counter = 4 then info\<lparr>os_arch := arg\<rparr>
       else info)"

definition getcomputer_info ::
    "u64 \<Rightarrow> (string \<Rightarrow> wmi_object list option) \<Rightarrow> computer_info \<Rightarrow> computer_info result" where
  "getcomputer_info ullTotalVirtual wmi info =
     rbind (wmi_query (wmi ''Win32_BaseBoard'') [''Product'']) (\<lambda>board.
     rbind (first_text board) (\<lambda>b. let info1 = info\<lparr>mother_board := b\<rparr> in
     rbind (wmi_query (wmi ''Win32_ComputerSystem'') [''TotalPhysicalMemory'']) (\<lambda>sys.
     rbind (first_number sys) (\<lambda>mem.
     let info2 = info1\<lparr>total_physical_memory := ucast (mem div 1024), total_virtual_memory := ullTotalVirtual div 1024\<rparr> in
     rbind (wmi_query (wmi ''Win32_PhysicalMemory'') [''Speed'']) (\<lambda>phys.
     rbind (first_number phys) (\<lambda>speed. let info3 = info2\<lparr>memory_speed := speed\<rparr> in
     rbind (wmi_query (wmi ''Win32_OperatingSystem'') os_fields) (\<lambda>os.
       Inr (visit os_visit 0 os info3))))))))"

section \<open>Random bytes\<close>

text \<open>The unit of the count is 256 bytes, whatever the name of the constant says.\<close>

abbreviation KIB_256 :: nat where "KIB_256 \<equiv> 256"

text \<open>
  The provider fills the whole vector in every round; \<open>None\<close> is a round that fails, which
  empties the vector.
\<close>

primrec fill_rounds :: "(nat \<Rightarrow> u8 list option) \<Rightarrow> nat \<Rightarrow> u8 list \<Rightarrow> u8 list" where
  "fill_rounds gen 0 ret = ret"
| "fill_rounds gen (Suc n) ret = (case gen n of None \<Rightarrow> [] | Some bs \<Rightarrow> fill_rounds gen n bs)"

definition p_get_random_data_old :: "bool \<Rightarrow> (nat \<Rightarrow> u8 list option) \<Rightarrow> nat \<Rightarrow> u8 list" where
  "p_get_random_data_old acquired gen counter =
     (let ret = replicate (KIB_256 * counter) 0
      in if acquired then fill_rounds gen counter ret else ret)"

text \<open>
  The newer generator: the test of its provider has a constant for an alternative, so the bytes
  are always drawn, and a round that fails leaves the vector as it is.
\<close>

primrec draw_rounds :: "(nat \<Rightarrow> u8 list option) \<Rightarrow> nat \<Rightarrow> u8 list \<Rightarrow> u8 list" where
  "draw_rounds gen 0 ret = ret"
| "draw_rounds gen (Suc n) ret = draw_rounds gen n (case gen n of None \<Rightarrow> ret | Some bs \<Rightarrow> bs)"

definition p_get_random_data_new :: "u32 \<Rightarrow> (nat \<Rightarrow> u8 list option) \<Rightarrow> nat \<Rightarrow> u8 list" where
  "p_get_random_data_new opened gen counter =
     (let ret = replicate (KIB_256 * counter) 0
      in if opened = 0 \<or> (0xC000000D :: u32) \<noteq> 0 then draw_rounds gen counter ret else [])"

definition get_random_data ::
    "bool \<Rightarrow> bool \<Rightarrow> u32 \<Rightarrow> (nat \<Rightarrow> u8 list option) \<Rightarrow> int \<Rightarrow> u8 list result" where
  "get_random_data windows7 acquired opened gen counter =
     (if counter < 0 then Inl (Throws Std_length_error)
      else Inr (if \<not> windows7 then p_get_random_data_old acquired gen (nat counter)
                else p_get_random_data_new opened gen (nat counter)))"

section \<open>Evaluation\<close>

definition text_value :: "string \<Rightarrow> cim_value" where
  "text_value s = \<lparr>var_type = CIM_STRING, bstrVal = s, uintVal = 0\<rparr>"

definition number_value :: "u32 \<Rightarrow> cim_value" where
  "number_value n = \<lparr>var_type = CIM_UINT32, bstrVal = [], uintVal = n\<rparr>"

lemma field_data_simps [simp]:
  "field_data None = []" "field_data (Some (text_value s)) = [Text s]" "field_data (Some (number_value n)) = [Number n]"
  "var_type v = CIM_UINT16 \<Longrightarrow> field_data (Some v) = []"
  "var_type v = CIM_REFERENCE \<Longrightarrow> field_data (Some v) = [Text (bstrVal v), Number (uintVal v)]"
  by (simp_all add: field_data_def text_value_def number_value_def)

lemma wmi_query_row [simp]: "wmi_query (Some [row]) wanted = Inr (concat (map (\<lambda>f. field_data (row f)) wanted))"
  by (simp add: wmi_query_def)

lemma fill_rounds_length:
  "(\<And>i bs. gen i = Some bs \<Longrightarrow> length bs = n) \<Longrightarrow> length ret = n \<Longrightarrow> length (fill_rounds gen k ret) \<in> {0, n}"
  by (induction k arbitrary: ret) (auto split: option.split)

lemma draw_rounds_length:
  "(\<And>i bs. gen i = Some bs \<Longrightarrow> length bs = n) \<Longrightarrow> length ret = n \<Longrightarrow> length (draw_rounds gen k ret) = n"
  by (induction k arbitrary: ret) (auto split: option.split)

section \<open>Properties\<close>

text \<open>
  The answers of a query are told apart by their position, so a decoded record is right only
  if every field was answered. A full answer for a graphics adapter gives its name and its four
  numbers; without the horizontal resolution each later number is taken for the one before it,
  and the last keeps its old value. Without any adapter the query itself is undefined.
\<close>

theorem gpu_positions:
  assumes "row ''Name'' = Some (text_value n)" and "row ''CurrentHorizontalResolution'' = Some (number_value h)"
    and "row ''CurrentVerticalResolution'' = Some (number_value v)" and "row ''MaxRefreshRate'' = Some (number_value r)"
    and "row ''CurrentBitsPerPixel'' = Some (number_value b)"
  shows "get_gpuinfo memory (Some [row]) info = Inr (info\<lparr>gpu_name := n, gpu_memory := memory,
      resolution_horizontal := h, resolution_vertical := v, refresh_rate := r, bits_pre_pixal := b\<rparr>) \<and>
    get_gpuinfo memory (Some [row(''CurrentHorizontalResolution'' := None)]) info = Inr (info\<lparr>gpu_name := n,
      gpu_memory := memory, resolution_horizontal := v, resolution_vertical := r, refresh_rate := b\<rparr>) \<and>
    get_gpuinfo memory (Some []) info = Inl Undefined"
  using assms by (simp add: get_gpuinfo_def gpu_fields_def gpu_visit_def wmi_query_def)

theorem gpu_positions_witness:
  "get_gpuinfo 8 (Some [[''Name'' \<mapsto> text_value ''x'', ''CurrentVerticalResolution'' \<mapsto> number_value 1080,
      ''MaxRefreshRate'' \<mapsto> number_value 60, ''CurrentBitsPerPixel'' \<mapsto> number_value 32]])
      \<lparr>gpu_name = [], gpu_memory = 0, resolution_horizontal = 0, resolution_vertical = 0, refresh_rate = 0, bits_pre_pixal = 0\<rparr> =
    Inr \<lparr>gpu_name = ''x'', gpu_memory = 8, resolution_horizontal = 1080, resolution_vertical = 60, refresh_rate = 32, bits_pre_pixal = 0\<rparr>"
proof -
  let ?row = "[''Name'' \<mapsto> text_value ''x'', ''CurrentHorizontalResolution'' \<mapsto> number_value 1920,
    ''CurrentVerticalResolution'' \<mapsto> number_value 1080, ''MaxRefreshRate'' \<mapsto> number_value 60,
    ''CurrentBitsPerPixel'' \<mapsto> number_value 32]"
  have "?row(''CurrentHorizontalResolution'' := None) = [''Name'' \<mapsto> text_value ''x'', ''CurrentVerticalResolution'' \<mapsto> number_value 1080,
      ''MaxRefreshRate'' \<mapsto> number_value 60, ''CurrentBitsPerPixel'' \<mapsto> number_value 32]"
    by (rule ext) simp
  then show ?thesis
    using gpu_positions [of ?row "''x''" 1920 1080 60 32 8
      "\<lparr>gpu_name = [], gpu_memory = 0, resolution_horizontal = 0, resolution_vertical = 0, refresh_rate = 0, bits_pre_pixal = 0\<rparr>"]
    by simp
qed

text \<open>A processor whose last two fields are 16-bit numbers keeps its old values there.\<close>

lemma processor_short_fields:
  assumes "row ''Name'' = Some (text_value n)" and "row ''SocketDesignation'' = Some (text_value k)"
    and "row ''Manufacturer'' = Some (text_value m)" and "row ''NumberOfCores'' = Some (number_value c)"
    and "row ''ThreadCount'' = Some (number_value t)" and "row ''CurrentClockSpeed'' = Some (number_value s)"
    and "row ''AddressWidth'' = Some w" and "row ''Architecture'' = Some a" and "var_type w = CIM_UINT16" and "var_type a = CIM_UINT16"
  shows "get_processor_info (Some [row]) info = Inr (info\<lparr>cpu_name := n, cpu_socket := k, manufacturer := m,
    core_count := c, thread_count := t, clock_speed := s\<rparr>)"
  using assms by (simp add: get_processor_info_def cpu_fields_def cpu_visit_def)

end
