(* ===== verification/Platform_Files.thy ===== *)
theory Platform_Files
  imports Known_Folders Wall_Error
begin

text \<open>
  Opening files, and the folders of Windows: \<^verbatim>\<open>win32_known_folders.cpp\<close>,
  \<^verbatim>\<open>win32_file_utils.cpp\<close> and \<^verbatim>\<open>common.cpp\<close> of \<^verbatim>\<open>src/src/change_lib/platform/win32\<close>, and
  \<^verbatim>\<open>linux_file_utils.cpp\<close> and \<^verbatim>\<open>common.cpp\<close> of \<^verbatim>\<open>platform/linux\<close>. The shell, the native interface and
  the calls of the C library are arguments. Text is converted as it is, but with the length
  given.
\<close>

section \<open>Errors\<close>

type_synonym win32_error = u32

text \<open>
  The text of an error: the buffer is zero, and one character more than the text is converted.
\<close>

definition win32_message :: "bool \<Rightarrow> string \<Rightarrow> string" where
  "win32_message allocated text =
     (if \<not> allocated then ''N/A'' else if length text = 0 then ''N/A'' else text @ [CHR 0x00])"

definition win32_category_name :: string where
  "win32_category_name = ''Win32Error''"

definition make_win32_code :: "win32_error \<Rightarrow> error_code" where
  "make_win32_code e = \<lparr>ec_value = sint e, ec_category = win32_category_name\<rparr>"

text \<open>The code of the last error of the thread, and of a result of COM, whose bits are kept.\<close>

definition make_win32_error_code :: "win32_error \<Rightarrow> error_code" where
  "make_win32_error_code last_error = make_win32_code last_error"

definition make_HRESULT_error_code :: "32 word \<Rightarrow> error_code" where
  "make_HRESULT_error_code e = make_win32_code e"

text \<open>The text of an error on Linux, if the C library has one.\<close>

definition linux_message :: "(u32 \<Rightarrow> string option) \<Rightarrow> u32 \<Rightarrow> string" where
  "linux_message strerror_l c = (case strerror_l c of None \<Rightarrow> ''Unknown Error'' | Some err \<Rightarrow> err)"

definition linux_category_name :: string where
  "linux_category_name = ''LinuxError''"

definition make_linux_code :: "u32 \<Rightarrow> error_code" where
  "make_linux_code e = \<lparr>ec_value = sint e, ec_category = linux_category_name\<rparr>"

definition make_linux_error_code :: "32 word \<Rightarrow> error_code" where
  "make_linux_error_code errno = make_linux_code errno"

text \<open>
  Codes of different categories differ, a code counts as an error exactly if its number does, and
  the number is not lost, although that of a failed call of COM becomes negative.
\<close>

lemma platform_codes:
  "make_win32_code e \<noteq> make_linux_code f" "make_win32_code e \<noteq> make_error_code w" "make_linux_code e \<noteq> make_error_code w"
  "ec_value (make_win32_code e) \<noteq> 0 \<longleftrightarrow> e \<noteq> 0" "(word_of_int (ec_value (make_win32_code e)) :: u32) = e"
  "e <s 0 \<longleftrightarrow> ec_value (make_HRESULT_error_code e) < 0"
proof -
  have "e = 0" if "sint e = 0"
  proof -
    have "word_of_int (sint e) = (0 :: u32)" using that by simp
    then show "e = 0" by (simp add: scast_id)
  qed
  then show "ec_value (make_win32_code e) \<noteq> 0 \<longleftrightarrow> e \<noteq> 0" by (auto simp: make_win32_code_def)
qed (simp_all add: make_win32_code_def make_linux_code_def make_error_code_def win32_category_name_def
    linux_category_name_def category_name_def make_HRESULT_error_code_def word_sless_alt)

section \<open>Folders\<close>

datatype KNOWNFOLDERID =
    FOLDERID_Profile | FOLDERID_Documents | FOLDERID_Pictures | FOLDERID_Music | FOLDERID_Videos | FOLDERID_Desktop
  | FOLDERID_Downloads | FOLDERID_Public | FOLDERID_Fonts | FOLDERID_StartMenu | FOLDERID_RoamingAppData
  | FOLDERID_LocalAppData | FOLDERID_ProgramData | FOLDERID_none

definition convert :: "Folders \<Rightarrow> KNOWNFOLDERID" where
  "convert fld = (case fld of
     home \<Rightarrow> FOLDERID_Profile | documents \<Rightarrow> FOLDERID_Documents | pictures \<Rightarrow> FOLDERID_Pictures
   | music \<Rightarrow> FOLDERID_Music | videos \<Rightarrow> FOLDERID_Videos | desktop \<Rightarrow> FOLDERID_Desktop
   | downloads \<Rightarrow> FOLDERID_Downloads | pub \<Rightarrow> FOLDERID_Public | fonts \<Rightarrow> FOLDERID_Fonts
   | app_menu \<Rightarrow> FOLDERID_StartMenu | roaming_configuration \<Rightarrow> FOLDERID_RoamingAppData
   | local_configuration \<Rightarrow> FOLDERID_LocalAppData | global_configuration \<Rightarrow> FOLDERID_ProgramData
   | data \<Rightarrow> FOLDERID_LocalAppData | cache \<Rightarrow> FOLDERID_LocalAppData | runtime \<Rightarrow> FOLDERID_LocalAppData
   | _ \<Rightarrow> FOLDERID_none)"

text \<open>The parent of the path of the module is an argument, as is what the shell says.\<close>

definition get_win32_path ::
    "win32_error + string \<Rightarrow> (KNOWNFOLDERID \<Rightarrow> win32_error + string) \<Rightarrow> Folders \<Rightarrow> win32_error + string" where
  "get_win32_path module_parent shell fld =
     (if fld = executable_dir then module_parent
      else rbind (shell (convert fld)) (\<lambda>str.
        if fld = cache \<or> fld = data \<or> fld = runtime then Inr (str @ [CHR 0x5C] @ ''Temp'' @ [CHR 0x5C]) else Inr str))"

lemma get_win32_path_distinct_id:
  "convert f = FOLDERID_none \<longleftrightarrow> f = executable_dir"
  by (cases f) (simp_all add: convert_def)

section \<open>Files\<close>

record unicode_string =
  us_length :: u16
  us_maximum :: u16
  us_buffer :: string

text \<open>On a 64-bit machine a pointer has eight bytes.\<close>

definition file_name_string :: "string \<Rightarrow> unicode_string" where
  "file_name_string name =
     \<lparr>us_length = of_nat (length name * 2), us_maximum = of_nat (8 + 1), us_buffer = name\<rparr>"

definition win32_open_file ::
    "win32_error option \<Rightarrow> (unicode_string \<Rightarrow> win32_error + nat) \<Rightarrow> string \<Rightarrow> win32_error + nat" where
  "win32_open_file no_function create_file filename = (case no_function of
     Some e \<Rightarrow> Inl e
   | None \<Rightarrow> if filename = ''.'' \<or> filename = ''..'' then Inl 123 else create_file (file_name_string filename))"

text \<open>
  On Linux the descriptor that \<^verbatim>\<open>open\<close> returns, or its minus one, is kept in an eight-bit integer
  and then widened to the handle; the branch that tests it is empty.
\<close>

definition linux_open_file :: "(string \<Rightarrow> u32) \<Rightarrow> string \<Rightarrow> win32_error + u64" where
  "linux_open_file open_call file_name =
     (let file_desc = (ucast (open_call file_name) :: u8) in Inr (scast file_desc))"

text \<open>What the native interface asks of a counted string.\<close>

definition counted_ok :: "unicode_string \<Rightarrow> bool" where
  "counted_ok u \<longleftrightarrow> us_length u \<le> us_maximum u \<and> unat (us_length u) = 2 * length (us_buffer u)"

section \<open>Properties\<close>

text \<open>
  Opening a file hands the native interface a malformed name for every name that is longer
  than four characters, because the capacity it states is that of a pointer; so if the interface
  refuses such names, no file with a longer name can be opened.
\<close>

theorem win32_open_short_names:
  assumes "\<And>u. \<not> counted_ok u \<Longrightarrow> create_file u = Inl e"
  shows "(counted_ok (file_name_string filename) \<longleftrightarrow> length filename \<le> 4) \<and>
    (4 < length filename \<longrightarrow> win32_open_file None create_file filename = Inl e)"
proof -
  have ok: "counted_ok (file_name_string filename) \<longleftrightarrow> length filename \<le> 4"
  proof
    assume "counted_ok (file_name_string filename)"
    then have "us_length (file_name_string filename) \<le> 9" "unat (us_length (file_name_string filename)) = 2 * length filename"
      by (simp_all add: counted_ok_def file_name_string_def)
    then show "length filename \<le> 4" by (simp add: word_le_nat_alt)
  next
    assume "length filename \<le> 4"
    then have "unat (of_nat (length filename * 2) :: u16) = length filename * 2"
      unfolding unat_of_nat by (simp add: take_bit_nat_eq_self)
    with \<open>length filename \<le> 4\<close> show "counted_ok (file_name_string filename)"
      by (simp add: counted_ok_def file_name_string_def word_le_nat_alt)
  qed
  moreover have "win32_open_file None create_file filename = create_file (file_name_string filename)" if "4 < length filename"
    using that by (auto simp: win32_open_file_def)
  ultimately show ?thesis using assms by simp
qed

theorem win32_open_short_names_witness:
  "win32_open_file None (\<lambda>u. if counted_ok u then Inr 7 else Inl 0xC000000D) ''a.json'' = Inl 0xC000000D"
  using win32_open_short_names [of "\<lambda>u. if counted_ok u then Inr 7 else Inl 0xC000000D" "0xC000000D" "''a.json''"]
  by simp

lemma take_bit_7_iff: "take_bit 7 d = d \<longleftrightarrow> d < 128" for d :: u32
proof -
  have "take_bit 7 d = d \<longleftrightarrow> unat d mod 128 = unat d"
    unfolding word_unat_eq_iff unsigned_take_bit_eq by (simp add: take_bit_eq_mod)
  also have "\<dots> \<longleftrightarrow> unat d < 128" by (metis mod_less mod_less_divisor zero_less_numeral)
  finally show ?thesis by (simp add: word_less_nat_alt)
qed

text \<open>
  Opening a file on Linux never reports an error, and the handle is the descriptor exactly
  if that is below 128: a larger one loses its high bits and may come back negative, and a
  failure comes back as the largest handle.
\<close>

theorem linux_open_descriptor:
  "(\<exists>h. linux_open_file open_call file_name = Inr h \<and>
      (h = ucast (open_call file_name) \<longleftrightarrow> open_call file_name < 128)) \<and>
    linux_open_file (\<lambda>_. -1) file_name = Inr (-1)"
proof -
  let ?d = "open_call file_name"
  have "(scast (ucast ?d :: u8) :: u64) = ucast ?d \<longleftrightarrow> ?d < 128"
  proof
    assume eq: "(scast (ucast ?d :: u8) :: u64) = ucast ?d"
    have high: "bit ?d n \<Longrightarrow> n < 7" for n
    proof (rule ccontr)
      assume n: "bit ?d n" "\<not> n < 7"
      then have "n < 32" using bit_imp_le_length [of ?d n] by simp
      have "bit (scast (ucast ?d :: u8) :: u64) 63 = bit ?d 7" by (simp add: bit_simps)
      moreover have "\<not> bit (ucast ?d :: u64) 63" using bit_imp_le_length [of ?d 63] by (auto simp: bit_simps)
      ultimately have low: "\<not> bit ?d 7" using eq by simp
      have "bit (scast (ucast ?d :: u8) :: u64) n = bit ?d 7" using n(2) \<open>n < 32\<close> by (auto simp: bit_simps)
      moreover have "bit (ucast ?d :: u64) n = bit ?d n" using \<open>n < 32\<close> by (simp add: bit_simps)
      ultimately show False using eq low n(1) by simp
    qed
    have "take_bit 7 ?d = ?d" using high by (intro bit_word_eqI) (auto simp: bit_simps)
    then show "?d < 128" by (simp add: take_bit_7_iff)
  next
    assume "?d < 128"
    then have "take_bit 7 ?d = ?d" by (simp add: take_bit_7_iff)
    then have high: "bit ?d n \<Longrightarrow> n < 7" for n by (metis bit_take_bit_iff)
    show "(scast (ucast ?d :: u8) :: u64) = ucast ?d"
      by (rule bit_word_eqI) (use high in \<open>force simp: bit_simps\<close>)
  qed
  moreover have "(scast (ucast (-1 :: u32) :: u8) :: u64) = -1"
    by (rule bit_word_eqI) (simp add: bit_simps min_def)
  ultimately show ?thesis by (simp add: linux_open_file_def)
qed

end
