(* ===== verification/Logging.thy ===== *)
theory Logging
  imports Fs_Path
begin

text \<open>
  The registry of loggers of \<^verbatim>\<open>src/src/log.hpp\<close>, the timer of \<^verbatim>\<open>src/src/scoped_timer.hpp\<close> that
  prints through it, and what the constructors of the programs do with it. The library
  \<^verbatim>\<open>spdlog\<close> is behind both: a logger has a name, a level and sinks, and writes a line to each of
  its sinks; a pattern is given to the sinks a logger has at that moment. A pointer to a logger
  is its position in the registry. The arguments of a log call are kept, its format is not.
\<close>

section \<open>Loggers, sinks and lines\<close>

datatype log_level = Level_trace | Level_debug | Level_info | Level_warn | Level_err | Level_critical

primrec severity :: "log_level \<Rightarrow> nat" where
  "severity Level_trace = 0"
| "severity Level_debug = 1"
| "severity Level_info = 2"
| "severity Level_warn = 3"
| "severity Level_err = 4"
| "severity Level_critical = 5"

datatype sink_target = Console | Log_file string

record sink =
  sk_target :: sink_target
  sk_pattern :: "string option"

record spd_logger =
  lg_name :: string
  lg_level :: log_level
  lg_sinks :: "sink list"

datatype log_arg = Text_arg string | Int_arg int

record log_line =
  ln_sink :: sink
  ln_logger :: string
  ln_level :: log_level
  ln_args :: "log_arg list"

section \<open>The registry\<close>

text \<open>
  \<^verbatim>\<open>create_logger\<close> gives \<^verbatim>\<open>spdlog\<close> the C string of the name and appends, whether or not the name
  is taken; the other operations work on the first logger with the name, and do nothing when
  there is none. A sink for a file throws when the file cannot be opened.
\<close>

type_synonym log_registry = "spd_logger list"

definition new_logger :: "string \<Rightarrow> spd_logger" where
  "new_logger name =
     \<lparr>lg_name = c_str name, lg_level = Level_trace, lg_sinks = [\<lparr>sk_target = Console, sk_pattern = None\<rparr>]\<rparr>"

definition create_logger :: "string \<Rightarrow> log_registry \<Rightarrow> log_registry" where
  "create_logger name log_vec = log_vec @ [new_logger name]"

definition get_logger :: "string \<Rightarrow> log_registry \<Rightarrow> nat option" where
  "get_logger name log_vec =
     (let i = find_pos (\<lambda>l. lg_name l = name) log_vec in if i \<noteq> length log_vec then Some i else None)"

definition set_pattern :: "string \<Rightarrow> string \<Rightarrow> log_registry \<Rightarrow> log_registry" where
  "set_pattern name pattern log_vec =
     (let i = find_pos (\<lambda>l. lg_name l = name) log_vec in
      if i \<noteq> length log_vec
      then log_vec[i := (log_vec ! i)\<lparr>lg_sinks :=
             map (\<lambda>s. s\<lparr>sk_pattern := Some pattern\<rparr>) (lg_sinks (log_vec ! i))\<rparr>]
      else log_vec)"

definition new_file_sink :: "string \<Rightarrow> sink" where
  "new_file_sink file_name = \<lparr>sk_target = Log_file (c_str file_name), sk_pattern = None\<rparr>"

definition add_file_sink :: "(string \<Rightarrow> bool) \<Rightarrow> string \<Rightarrow> string \<Rightarrow> log_registry \<Rightarrow> log_registry result" where
  "add_file_sink can_open name file_name log_vec =
     (let i = find_pos (\<lambda>l. lg_name l = name) log_vec in
      if i \<noteq> length log_vec
      then if can_open (c_str file_name)
           then Inr (log_vec[i := (log_vec ! i)\<lparr>lg_sinks :=
                  lg_sinks (log_vec ! i) @ [new_file_sink file_name]\<rparr>])
           else Inl (Throws Spdlog_error)
      else Inr log_vec)"

definition write_line :: "spd_logger \<Rightarrow> log_level \<Rightarrow> log_arg list \<Rightarrow> log_line list" where
  "write_line l level args =
     (if severity (lg_level l) \<le> severity level
      then map (\<lambda>s. \<lparr>ln_sink = s, ln_logger = lg_name l, ln_level = level, ln_args = args\<rparr>) (lg_sinks l)
      else [])"

text \<open>The macros dereference what \<^verbatim>\<open>get_logger\<close> returns.\<close>

definition log_at :: "log_level \<Rightarrow> string \<Rightarrow> log_arg list \<Rightarrow> log_registry \<Rightarrow> log_line list result" where
  "log_at level name args log_vec =
     (case get_logger name log_vec of None \<Rightarrow> Inl Undefined
      | Some i \<Rightarrow> Inr (write_line (log_vec ! i) level args))"

text \<open>The macros of \<^verbatim>\<open>log.hpp\<close> as calls, and a sequence of calls on the one instance.\<close>

datatype log_call =
    Logger_create string
  | Logger_pattern string string
  | Logger_set_file string string
  | Log log_level string "log_arg list"

record log_state =
  log_vec :: log_registry
  log_lines :: "log_line list"

primrec log_step :: "(string \<Rightarrow> bool) \<Rightarrow> log_call \<Rightarrow> log_state \<Rightarrow> log_state result" where
  "log_step can_open (Logger_create name) st = Inr (st\<lparr>log_vec := create_logger name (log_vec st)\<rparr>)"
| "log_step can_open (Logger_pattern name p) st = Inr (st\<lparr>log_vec := set_pattern name p (log_vec st)\<rparr>)"
| "log_step can_open (Logger_set_file name f) st =
     rbind (add_file_sink can_open name f (log_vec st)) (\<lambda>v. Inr (st\<lparr>log_vec := v\<rparr>))"
| "log_step can_open (Log level name args) st =
     rbind (log_at level name args (log_vec st)) (\<lambda>ls. Inr (st\<lparr>log_lines := log_lines st @ ls\<rparr>))"

primrec log_run :: "(string \<Rightarrow> bool) \<Rightarrow> log_call list \<Rightarrow> log_state \<Rightarrow> log_state result" where
  "log_run can_open [] st = Inr st"
| "log_run can_open (c # cs) st = rbind (log_step can_open c st) (log_run can_open cs)"

definition no_logs :: log_state where
  "no_logs = \<lparr>log_vec = [], log_lines = []\<rparr>"

section \<open>The registry as a map\<close>

text \<open>The logger a name stands for.\<close>

definition logger_of :: "log_registry \<Rightarrow> string \<Rightarrow> spd_logger option" where
  "logger_of v n = map_option (nth v) (get_logger n v)"

text \<open>
  What a program relies on: a name stands for the logger that was created first, and giving a
  logger a sink or a pattern does not disturb the others. Whether a registry keeps later loggers
  of the same name cannot be seen.
\<close>

locale named_loggers =
  fixes lookup :: "'r \<Rightarrow> string \<Rightarrow> 'l option"
    and create :: "string \<Rightarrow> 'r \<Rightarrow> 'r"
    and change :: "string \<Rightarrow> 'c \<Rightarrow> 'r \<Rightarrow> 'r"
    and changed :: "'c \<Rightarrow> 'l \<Rightarrow> 'l"
    and fresh :: "string \<Rightarrow> 'l"
  assumes lookup_create: "lookup (create m r) n =
      (if n = c_str m \<and> lookup r n = None then Some (fresh m) else lookup r n)"
    and lookup_change: "lookup (change m c r) n = (if n = m then map_option (changed c) (lookup r n) else lookup r n)"
begin

lemma created: "lookup (create m r) (c_str m) \<noteq> None"
  by (simp add: lookup_create)

lemma create_stable: "lookup r n = Some l \<Longrightarrow> lookup (create m r) n = Some l"
  by (simp add: lookup_create)

lemma create_again: "lookup (create m (create m r)) = lookup (create m r)"
  by (rule ext) (auto simp: lookup_create)

lemma change_domain: "lookup (change m c r) n = None \<longleftrightarrow> lookup r n = None"
  by (simp add: lookup_change)

lemma create_many: "lookup r (c_str m) = Some l \<Longrightarrow> lookup ((create m ^^ k) r) = lookup r"
  by (induction k) (auto simp: lookup_create fun_eq_iff)

end

definition change_logger :: "string \<Rightarrow> (spd_logger \<Rightarrow> spd_logger) \<Rightarrow> log_registry \<Rightarrow> log_registry" where
  "change_logger name f v =
     (let i = find_pos (\<lambda>l. lg_name l = name) v in if i \<noteq> length v then v[i := f (v ! i)] else v)"

lemma logger_of_find: "logger_of v n = List.find (\<lambda>l. lg_name l = n) v"
  by (induction v) (auto simp: logger_of_def get_logger_def Let_def)

lemma logger_of_create:
  "logger_of (create_logger m v) n =
    (if n = c_str m \<and> logger_of v n = None then Some (new_logger m) else logger_of v n)"
  by (induction v) (auto simp: logger_of_find create_logger_def new_logger_def)

lemma logger_of_change:
  assumes "\<And>l. lg_name (f l) = lg_name l"
  shows "logger_of (change_logger m f v) n = (if n = m then map_option f (logger_of v n) else logger_of v n)"
proof (induction v)
  case Nil
  then show ?case by (simp add: change_logger_def logger_of_find)
next
  case (Cons l v)
  have "change_logger m f (l # v) = (if lg_name l = m then f l # v else l # change_logger m f v)"
    by (simp add: change_logger_def Let_def)
  with Cons show ?case by (auto simp: logger_of_find assms)
qed

text \<open>The two changes of the class: a pattern for the sinks, and one more sink.\<close>

definition with_pattern :: "string \<Rightarrow> spd_logger \<Rightarrow> spd_logger" where
  "with_pattern p l = l\<lparr>lg_sinks := map (\<lambda>s. s\<lparr>sk_pattern := Some p\<rparr>) (lg_sinks l)\<rparr>"

definition with_file :: "string \<Rightarrow> spd_logger \<Rightarrow> spd_logger" where
  "with_file f l = l\<lparr>lg_sinks := lg_sinks l @ [new_file_sink f]\<rparr>"

datatype log_change = Give_pattern string | Give_file string

primrec give :: "log_change \<Rightarrow> spd_logger \<Rightarrow> spd_logger" where
  "give (Give_pattern p) = with_pattern p"
| "give (Give_file f) = with_file f"

lemma give_name [simp]: "lg_name (give c l) = lg_name l" "lg_level (give c l) = lg_level l"
  by (cases c; simp add: with_pattern_def with_file_def)+

lemma set_pattern_change: "set_pattern m p v = change_logger m (give (Give_pattern p)) v"
  by (simp add: set_pattern_def change_logger_def with_pattern_def Let_def)

lemma add_file_change:
  "add_file_sink can_open m f v =
    (if can_open (c_str f) \<or> logger_of v m = None then Inr (change_logger m (give (Give_file f)) v)
     else Inl (Throws Spdlog_error))"
  by (simp add: add_file_sink_def change_logger_def with_file_def logger_of_def get_logger_def Let_def)

interpretation registry: named_loggers logger_of create_logger "\<lambda>m c. change_logger m (give c)" give new_logger
  by unfold_locales (simp_all add: logger_of_create logger_of_change)

lemma log_at_logger:
  "log_at level n args v = (case logger_of v n of None \<Rightarrow> Inl Undefined | Some l \<Rightarrow> Inr (write_line l level args))"
  by (simp add: log_at_def logger_of_def split: option.splits)

section \<open>The loggers of the programs\<close>

text \<open>
  The classes that log, each with the name it uses, and what its constructor does before any
  other method can run. \<^verbatim>\<open>state\<close> logs under the name of the server and \<^verbatim>\<open>Manager\<close> under that of the
  application. The file of the server's and the client's logger is there in debug builds only.
\<close>

datatype log_part = Application_part | Server_part | Connection_part | Client_part | Service_part

record log_places =
  lp_debug :: bool
  lp_log_directory :: string
  lp_cache_directory :: string

primrec part_logger :: "log_part \<Rightarrow> string" where
  "part_logger Application_part = ''changer''"
| "part_logger Server_part = ''server_logger''"
| "part_logger Connection_part = ''connection_logger''"
| "part_logger Client_part = ''client_logger''"
| "part_logger Service_part = ''service_logger''"

definition log_file :: "log_places \<Rightarrow> string \<Rightarrow> string" where
  "log_file E name = path_append (lp_log_directory E) name @ ''.txt''"

primrec part_file :: "log_places \<Rightarrow> log_part \<Rightarrow> string option" where
  "part_file E Application_part = Some (lp_cache_directory E @ ''/logs/changer_log.txt'')"
| "part_file E Server_part = (if lp_debug E then Some (log_file E ''server_logger'') else None)"
| "part_file E Connection_part = None"
| "part_file E Client_part = (if lp_debug E then Some (log_file E ''client_logger'') else None)"
| "part_file E Service_part = Some (log_file E ''service_logger'')"

definition part_begins :: "log_places \<Rightarrow> log_part \<Rightarrow> log_call list" where
  "part_begins E p = Logger_create (part_logger p) #
     (case part_file E p of None \<Rightarrow> [] | Some f \<Rightarrow> [Logger_set_file (part_logger p) f])"

text \<open>A run of a program, as far as it logs: objects are constructed, and say something.\<close>

datatype log_act = Begins log_part | Says log_part log_level "log_arg list"

primrec act_calls :: "log_places \<Rightarrow> log_act \<Rightarrow> log_call list" where
  "act_calls E (Begins p) = part_begins E p"
| "act_calls E (Says p level args) = [Log level (part_logger p) args]"

definition program_log :: "log_places \<Rightarrow> (string \<Rightarrow> bool) \<Rightarrow> log_act list \<Rightarrow> log_state \<Rightarrow> log_state result" where
  "program_log E can_open acts = log_run can_open (concat (map (act_calls E) acts))"

text \<open>An object speaks after its constructor; \<^verbatim>\<open>n\<close> counts the objects of each class so far.\<close>

primrec speaks_after :: "(log_part \<Rightarrow> nat) \<Rightarrow> log_act list \<Rightarrow> bool" where
  "speaks_after n [] = True"
| "speaks_after n (a # acts) = (case a of
     Begins p \<Rightarrow> speaks_after (n(p := Suc (n p))) acts
   | Says p level args \<Rightarrow> 0 < n p \<and> speaks_after n acts)"

text \<open>
  What the log should be: every saying is one line on the console, and one line in the file of
  its class for every object of the class there has been.
\<close>

definition part_sinks :: "log_places \<Rightarrow> log_part \<Rightarrow> nat \<Rightarrow> sink list" where
  "part_sinks E p k = \<lparr>sk_target = Console, sk_pattern = None\<rparr> #
     (case part_file E p of None \<Rightarrow> [] | Some f \<Rightarrow> replicate k (new_file_sink f))"

primrec transcript :: "log_places \<Rightarrow> (log_part \<Rightarrow> nat) \<Rightarrow> log_act list \<Rightarrow> log_line list" where
  "transcript E n [] = []"
| "transcript E n (a # acts) = (case a of
     Begins p \<Rightarrow> transcript E (n(p := Suc (n p))) acts
   | Says p level args \<Rightarrow>
       map (\<lambda>s. \<lparr>ln_sink = s, ln_logger = part_logger p, ln_level = level, ln_args = args\<rparr>) (part_sinks E p (n p))
       @ transcript E n acts)"

definition begun :: "log_act list \<Rightarrow> nat" where
  "begun acts = length (filter (\<lambda>a. case a of Begins _ \<Rightarrow> True | _ \<Rightarrow> False) acts)"

definition registry_holds :: "log_places \<Rightarrow> (log_part \<Rightarrow> nat) \<Rightarrow> log_registry \<Rightarrow> bool" where
  "registry_holds E n v \<longleftrightarrow> (\<forall>p. logger_of v (part_logger p) =
     (if n p = 0 then None
      else Some \<lparr>lg_name = part_logger p, lg_level = Level_trace, lg_sinks = part_sinks E p (n p)\<rparr>))"

lemma part_logger_inject [simp]: "part_logger p = part_logger q \<longleftrightarrow> p = q"
  by (cases p; cases q) simp_all

lemma part_logger_c_str [simp]: "c_str (part_logger p) = part_logger p"
  by (cases p) (simp_all add: c_str_def)

lemma log_run_append: "log_run can_open (cs @ ds) st = rbind (log_run can_open cs st) (log_run can_open ds)"
  by (induction cs arbitrary: st) (auto simp: rbind_def split: sum.splits)

lemma length_change [simp]: "length (change_logger m f v) = length v"
  by (simp add: change_logger_def Let_def)

lemma length_create [simp]: "length (create_logger m v) = Suc (length v)"
  by (simp add: create_logger_def)

definition files_open :: "log_places \<Rightarrow> (string \<Rightarrow> bool) \<Rightarrow> bool" where
  "files_open E can_open \<longleftrightarrow> (\<forall>p f. part_file E p = Some f \<longrightarrow> can_open (c_str f))"

lemma begins_registry:
  assumes "registry_holds E n (log_vec st)" and "files_open E can_open"
  shows "\<exists>v. log_run can_open (part_begins E p) st = Inr (st\<lparr>log_vec := v\<rparr>) \<and>
    registry_holds E (n(p := Suc (n p))) v \<and> length v = Suc (length (log_vec st))"
proof -
  let ?v = "create_logger (part_logger p) (log_vec st)"
  have created: "logger_of ?v (part_logger q) = (if n q = 0 \<and> q \<noteq> p then None
      else Some \<lparr>lg_name = part_logger q, lg_level = Level_trace,
        lg_sinks = part_sinks E q (n q)\<rparr>)" for q
    using assms(1) by (simp add: registry.lookup_create registry_holds_def new_logger_def part_sinks_def split: option.splits)
  show ?thesis
  proof (cases "part_file E p")
    case None
    then have "part_sinks E p k = part_sinks E p j" for k j by (simp add: part_sinks_def)
    with created have "registry_holds E (n(p := Suc (n p))) ?v"
      by (simp add: registry_holds_def)
    then show ?thesis using None by (intro exI [of _ ?v]) (simp add: part_begins_def)
  next
    case (Some f)
    let ?w = "change_logger (part_logger p) (give (Give_file f)) ?v"
    have "with_file f \<lparr>lg_name = part_logger p, lg_level = Level_trace, lg_sinks = part_sinks E p k\<rparr> =
        \<lparr>lg_name = part_logger p, lg_level = Level_trace, lg_sinks = part_sinks E p (Suc k)\<rparr>" for k
      using Some by (simp add: with_file_def part_sinks_def replicate_append_same)
    then have "registry_holds E (n(p := Suc (n p))) ?w"
      by (simp add: registry_holds_def registry.lookup_change [of _ "Give_file f", simplified] created)
    moreover have "can_open (c_str f)" using assms(2) Some by (auto simp: files_open_def)
    ultimately show ?thesis using Some
      by (intro exI [of _ ?w]) (simp add: part_begins_def add_file_change)
  qed
qed

lemma says_line:
  assumes "registry_holds E n v" and "0 < n p"
  shows "log_at level (part_logger p) args v =
    Inr (map (\<lambda>s. \<lparr>ln_sink = s, ln_logger = part_logger p, ln_level = level, ln_args = args\<rparr>) (part_sinks E p (n p)))"
  using assms by (simp add: registry_holds_def log_at_logger write_line_def)

section \<open>The scoped timer\<close>

text \<open>
  The constructor reads the steady clock (in nanoseconds) and creates the logger of the timers
  once more; the destructor reads it again and logs the difference in the unit of the timer,
  rounded toward zero as \<^verbatim>\<open>duration_cast\<close> does.
\<close>

record scoped_timer =
  tm_start :: int
  tm_name :: string
  tm_ext :: string
  tm_unit :: int

definition timer_pattern :: string where
  "timer_pattern = ''[%c][%n] %v%$''"

definition new_timer :: "int \<Rightarrow> string \<Rightarrow> string \<Rightarrow> int \<Rightarrow> log_registry \<Rightarrow> scoped_timer \<times> log_registry" where
  "new_timer unit_ns name ext now v =
     (\<lparr>tm_start = now, tm_name = name, tm_ext = ext, tm_unit = unit_ns\<rparr>,
      set_pattern ''Timer'' timer_pattern (create_logger ''Timer'' v))"

definition duration_cast :: "int \<Rightarrow> int \<Rightarrow> int" where
  "duration_cast unit_ns ns = sgn ns * (\<bar>ns\<bar> div unit_ns)"

definition delete_timer :: "int \<Rightarrow> scoped_timer \<Rightarrow> log_registry \<Rightarrow> log_line list result" where
  "delete_timer now tm v = log_at Level_info ''Timer''
     [Text_arg (tm_name tm), Int_arg (duration_cast (tm_unit tm) (now - tm_start tm)), Text_arg (tm_ext tm)] v"

definition timer_nano :: "string \<Rightarrow> int \<Rightarrow> log_registry \<Rightarrow> scoped_timer \<times> log_registry" where
  "timer_nano name = new_timer 1 name ''ns''"

definition timer_micro :: "string \<Rightarrow> int \<Rightarrow> log_registry \<Rightarrow> scoped_timer \<times> log_registry" where
  "timer_micro name = new_timer 1000 name [CHR 0xCE, CHR 0xBC, CHR ''s'']"

definition timer_milli :: "string \<Rightarrow> int \<Rightarrow> log_registry \<Rightarrow> scoped_timer \<times> log_registry" where
  "timer_milli name = new_timer 1000000 name ''ms''"

definition timer_sec :: "string \<Rightarrow> int \<Rightarrow> log_registry \<Rightarrow> scoped_timer \<times> log_registry" where
  "timer_sec name = new_timer 1000000000 name ''s''"

lemma duration_cast_bounds:
  assumes "0 < unit_ns" and "0 \<le> ns"
  shows "duration_cast unit_ns ns * unit_ns \<le> ns \<and> ns < (duration_cast unit_ns ns + 1) * unit_ns"
proof -
  have "duration_cast unit_ns ns = ns div unit_ns"
    using assms by (cases "ns = 0") (simp_all add: duration_cast_def)
  moreover have "ns div unit_ns * unit_ns + ns mod unit_ns = ns" by simp
  moreover have "0 \<le> ns mod unit_ns" "ns mod unit_ns < unit_ns" using assms(1) by simp_all
  ultimately show ?thesis by (simp only: distrib_right mult_1 add_0_right) linarith
qed

text \<open>Names stay known, so whatever is logged while a timer runs, its end finds the logger.\<close>

lemma log_step_known:
  "log_step can_open c st = Inr st' \<Longrightarrow> logger_of (log_vec st) n \<noteq> None \<Longrightarrow> logger_of (log_vec st') n \<noteq> None"
  by (cases c) (auto simp: registry.lookup_create set_pattern_change logger_of_change add_file_change
      simp del: give.simps split: if_splits sum.splits simp add: rbind_eq_Inr_iff)

lemma log_run_known:
  "log_run can_open cs st = Inr st' \<Longrightarrow> logger_of (log_vec st) n \<noteq> None \<Longrightarrow> logger_of (log_vec st') n \<noteq> None"
  by (induction cs arbitrary: st) (auto simp: rbind_eq_Inr_iff dest: log_step_known)

lemma timer_always_logs:
  assumes "new_timer unit_ns name ext t0 (log_vec st) = (tm, v)"
    and "log_run can_open cs (st\<lparr>log_vec := v\<rparr>) = Inr st'"
  shows "\<exists>ls. delete_timer t1 tm (log_vec st') = Inr ls \<and>
    (\<forall>l \<in> set ls. ln_args l = [Text_arg name, Int_arg (duration_cast unit_ns (t1 - t0)), Text_arg ext])"
proof -
  have "logger_of v ''Timer'' \<noteq> None"
    using assms(1) by (auto simp: new_timer_def set_pattern_change logger_of_change registry.lookup_create c_str_def
        simp del: give.simps)
  then have "logger_of (log_vec st') ''Timer'' \<noteq> None"
    using log_run_known [OF assms(2)] by simp
  then show ?thesis
    using assms(1) by (auto simp: delete_timer_def log_at_logger write_line_def new_timer_def)
qed

text \<open>Which sequences of calls never dereference a null pointer.\<close>

primrec names_known :: "string set \<Rightarrow> log_call list \<Rightarrow> bool" where
  "names_known S [] = True"
| "names_known S (c # cs) = (case c of
     Logger_create n \<Rightarrow> names_known (insert (c_str n) S) cs
   | Log level n args \<Rightarrow> n \<in> S \<and> names_known S cs
   | _ \<Rightarrow> names_known S cs)"

definition known_names :: "log_registry \<Rightarrow> string set" where
  "known_names v = {n. logger_of v n \<noteq> None}"

lemma known_names_simps [simp]:
  "known_names [] = {}"
  "known_names (create_logger n v) = insert (c_str n) (known_names v)"
  "known_names (change_logger m (give c) v) = known_names v"
  by (auto simp: known_names_def registry.lookup_create registry.lookup_change logger_of_find [of "[]"])

section \<open>Properties\<close>

text \<open>
  C31: what the log holds. Every program whose objects speak after their construction, and whose
  log files can be opened, logs without a fault, whatever objects there are and in whatever order
  they come. Each saying is one line on the console, however many loggers of that name were
  created, and as many equal lines in the file as there have been objects of the class. Every
  object leaves a logger in the registry that is never removed.
\<close>

theorem log_is_transcript:
  assumes "speaks_after n acts" and "registry_holds E n (log_vec st)" and "files_open E can_open"
  shows "\<exists>v. program_log E can_open acts st =
      Inr \<lparr>log_vec = v, log_lines = log_lines st @ transcript E n acts\<rparr> \<and>
    length v = length (log_vec st) + begun acts"
  using assms
proof (induction acts arbitrary: n st)
  case Nil
  then show ?case by (intro exI [of _ "log_vec st"]) (simp add: program_log_def begun_def)
next
  case (Cons a acts)
  show ?case
  proof (cases a)
    case (Begins p)
    obtain v where "log_run can_open (part_begins E p) st = Inr (st\<lparr>log_vec := v\<rparr>)"
      "registry_holds E (n(p := Suc (n p))) v" "length v = Suc (length (log_vec st))"
      using begins_registry [OF Cons.prems(2,3)] by blast
    moreover have "speaks_after (n(p := Suc (n p))) acts" using Cons.prems(1) Begins by simp
    ultimately show ?thesis using Cons.IH [of "n(p := Suc (n p))" "st\<lparr>log_vec := v\<rparr>"] Cons.prems(3) Begins
      by (auto simp: program_log_def log_run_append begun_def simp del: fun_upd_apply)
  next
    case (Says p level args)
    with Cons.prems have "0 < n p" "speaks_after n acts" by simp_all
    with Cons.IH [of n "st\<lparr>log_lines := log_lines st @ map (\<lambda>s. \<lparr>ln_sink = s, ln_logger = part_logger p,
        ln_level = level, ln_args = args\<rparr>) (part_sinks E p (n p))\<rparr>"] Cons.prems Says
      says_line [OF Cons.prems(2)] show ?thesis
      by (auto simp: program_log_def log_run_append begun_def)
  qed
qed

lemma console_once: "map (\<lambda>l. (ln_logger l, ln_level l, ln_args l)) (filter (\<lambda>l. sk_target (ln_sink l) = Console) (transcript E n acts)) =
    concat (map (\<lambda>a. case a of Begins _ \<Rightarrow> [] | Says p level args \<Rightarrow> [(part_logger p, level, args)]) acts)"
proof (induction acts arbitrary: n)
  case Nil
  then show ?case by simp
next
  case (Cons a acts)
  then show ?case
    by (cases a) (auto simp: part_sinks_def new_file_sink_def filter_map comp_def split: option.splits)
qed

text \<open>
  When logging is undefined. With log files that can be opened, a sequence of calls runs to
  its end if each name that is logged to was created before; otherwise it dereferences the null
  pointer that the registry returns for a name it does not have, whatever else the sequence does.
\<close>

theorem log_safe_iff:
  assumes "\<And>f. can_open f"
  shows "if names_known (known_names (log_vec st)) cs then \<exists>st'. log_run can_open cs st = Inr st'
    else log_run can_open cs st = Inl Undefined"
proof (induction cs arbitrary: st)
  case Nil
  show ?case by simp
next
  case (Cons c cs)
  show ?case
  proof (cases c)
    case (Log level n args)
    show ?thesis
    proof (cases "logger_of (log_vec st) n")
      case None
      with Log show ?thesis by (simp add: log_at_logger known_names_def)
    next
      case (Some l)
      then have "n \<in> known_names (log_vec st)" by (simp add: known_names_def)
      with Some Log Cons.IH [of "st\<lparr>log_lines := log_lines st @ write_line l level args\<rparr>"] show ?thesis
        by (simp add: log_at_logger)
    qed
  next
    case (Logger_create n)
    with Cons.IH [of "st\<lparr>log_vec := create_logger n (log_vec st)\<rparr>"] show ?thesis by simp
  next
    case (Logger_pattern n p)
    with Cons.IH [of "st\<lparr>log_vec := change_logger n (give (Give_pattern p)) (log_vec st)\<rparr>"] show ?thesis
      by (simp add: set_pattern_change del: give.simps)
  next
    case (Logger_set_file n f)
    with Cons.IH [of "st\<lparr>log_vec := change_logger n (give (Give_file f)) (log_vec st)\<rparr>"] assms [of "c_str f"] show ?thesis
      by (simp add: add_file_change del: give.simps)
  qed
qed

text \<open>An example: a server in a debug build with two connections, of which the second speaks.\<close>

definition sample_places :: log_places where
  "sample_places = \<lparr>lp_debug = True, lp_log_directory = ''/l'', lp_cache_directory = ''/c''\<rparr>"

definition sample_acts :: "log_act list" where
  "sample_acts = [Begins Server_part, Says Server_part Level_info [Text_arg ''a''],
     Begins Connection_part, Begins Connection_part, Says Connection_part Level_err [Text_arg ''b'']]"

theorem log_is_transcript_witness:
  "\<exists>v. program_log sample_places (\<lambda>f. True) sample_acts no_logs =
      Inr \<lparr>log_vec = v, log_lines = [
        \<lparr>ln_sink = \<lparr>sk_target = Console, sk_pattern = None\<rparr>, ln_logger = ''server_logger'', ln_level = Level_info,
         ln_args = [Text_arg ''a'']\<rparr>,
        \<lparr>ln_sink = \<lparr>sk_target = Log_file ''/l/server_logger.txt'', sk_pattern = None\<rparr>, ln_logger = ''server_logger'',
         ln_level = Level_info, ln_args = [Text_arg ''a'']\<rparr>,
        \<lparr>ln_sink = \<lparr>sk_target = Console, sk_pattern = None\<rparr>, ln_logger = ''connection_logger'',
         ln_level = Level_err, ln_args = [Text_arg ''b'']\<rparr>]\<rparr> \<and> length v = 3"
proof -
  have "speaks_after (\<lambda>_. 0) sample_acts" by (simp add: sample_acts_def)
  moreover have "registry_holds sample_places (\<lambda>_. 0) (log_vec no_logs)"
    by (simp add: registry_holds_def no_logs_def logger_of_find)
  moreover have "files_open sample_places (\<lambda>f. True)" by (simp add: files_open_def)
  ultimately have "\<exists>v. program_log sample_places (\<lambda>f. True) sample_acts no_logs =
      Inr \<lparr>log_vec = v, log_lines = log_lines no_logs @ transcript sample_places (\<lambda>_. 0) sample_acts\<rparr> \<and>
    length v = length (log_vec no_logs) + begun sample_acts"
    by (rule log_is_transcript)
  moreover have "transcript sample_places (\<lambda>_. 0) sample_acts = [
        \<lparr>ln_sink = \<lparr>sk_target = Console, sk_pattern = None\<rparr>, ln_logger = ''server_logger'', ln_level = Level_info,
         ln_args = [Text_arg ''a'']\<rparr>,
        \<lparr>ln_sink = \<lparr>sk_target = Log_file ''/l/server_logger.txt'', sk_pattern = None\<rparr>, ln_logger = ''server_logger'',
         ln_level = Level_info, ln_args = [Text_arg ''a'']\<rparr>,
        \<lparr>ln_sink = \<lparr>sk_target = Console, sk_pattern = None\<rparr>, ln_logger = ''connection_logger'',
         ln_level = Level_err, ln_args = [Text_arg ''b'']\<rparr>]"
    by (simp add: sample_acts_def part_sinks_def sample_places_def log_file_def path_append_def is_absolute_def
        is_sep_def new_file_sink_def c_str_def)
  ultimately show ?thesis by (simp add: begun_def sample_acts_def no_logs_def numeral_3_eq_3)
qed

theorem log_safe_iff_witness:
  "log_run (\<lambda>f. True) [Logger_create ''a'', Logger_set_file ''a'' ''f'', Log Level_info ''b'' []] no_logs = Inl Undefined"
  using log_safe_iff [of "\<lambda>f. True" no_logs "[Logger_create ''a'', Logger_set_file ''a'' ''f'', Log Level_info ''b'' []]"]
  by (simp add: no_logs_def c_str_def)

end
