(* ===== verification/Win_Runtime.thy ===== *)
theory Win_Runtime
  imports Win_System
begin

text \<open>
  The rest of \<^verbatim>\<open>src/src/change_lib/platform/win32/helper.cpp\<close> and of \<^verbatim>\<open>common.cpp\<close> beside it: the
  conversions between narrow and wide text and the messages about their failures, UUIDs, and the
  set-up of COM and WMI with the reference counts of its objects. What the functions of Windows
  answer is a parameter; that a call through a null pointer, a released object or past the end of
  an array is undefined is C++.
\<close>

section \<open>Text\<close>

text \<open>
  The conversions of the system: whether text that is not valid is an error, which otherwise is
  replaced, the length they are told, and the text. \<open>None\<close> is a call that fails. The system's text
  for an error number, the number of the last error and the allocation are parameters as well.
\<close>

record text_api =
  multi_to_wide :: "bool \<Rightarrow> int \<Rightarrow> u8 list \<Rightarrow> u16 list option"
  wide_to_multi :: "bool \<Rightarrow> int \<Rightarrow> u16 list \<Rightarrow> u8 list option"
  format_message :: "u32 \<Rightarrow> u16 list"
  last_error :: u32
  local_alloc :: bool

text \<open>The length of a text is cast to \<^verbatim>\<open>int\<close>.\<close>

definition int_cast :: "nat \<Rightarrow> int" where
  "int_cast n = sint (of_nat n :: 32 word)"

text \<open>
  \<^verbatim>\<open>fmt_msg\<close> and \<^verbatim>\<open>to_utf8\<close> call each other: a call that fails is reported by a message whose
  text is converted. A conversion returns the text and the messages shown, each as wide text;
  \<open>None\<close> is a call that does not return.
\<close>

definition wide_failed :: "u8 list" where
  "wide_failed = map of_char ''WideCharToMultiByte''"

definition multi_failed :: "u8 list" where
  "multi_failed = map of_char ''MultiByteToWideChar''"

definition error_id :: "text_api \<Rightarrow> u32 \<Rightarrow> u32" where
  "error_id A status = (if status \<noteq> 0 then status else last_error A)"

definition failure_text :: "u8 list \<Rightarrow> u32 \<Rightarrow> u8 list \<Rightarrow> u8 list" where
  "failure_text func_name n t =
     func_name @ map of_char ('' failed with error '' @ dec_string (unat n) @ '': '') @ t"

text \<open>
  The mutual recursion as one: the continuation of a failure is a message, and what a message
  needs is the conversion of the system's text to narrow text and of the whole to wide text.
  The number bounds the depth of the calls.
\<close>

fun to_utf8 :: "text_api \<Rightarrow> nat \<Rightarrow> u16 list \<Rightarrow> (u8 list \<times> u16 list list) result option"
  and to_utf16 :: "text_api \<Rightarrow> nat \<Rightarrow> u8 list \<Rightarrow> (u16 list \<times> u16 list list) result option"
  and fmt_msg :: "text_api \<Rightarrow> nat \<Rightarrow> u8 list \<Rightarrow> u32 \<Rightarrow> (u8 list \<times> u16 list list) result option"
  and message_display :: "text_api \<Rightarrow> nat \<Rightarrow> u8 list \<Rightarrow> u16 list list result option"
where
  "to_utf8 A 0 s = None"
| "to_utf8 A (Suc n) s =
     (if s = [] then Some (Inr ([], []))
      else case wide_to_multi A False (int_cast (length s)) s of
          Some t \<Rightarrow> Some (Inr (t, []))
        | None \<Rightarrow> map_option (\<lambda>r. rbind r (\<lambda>boxes. Inr ([], boxes))) (message_display A n wide_failed))"
| "to_utf16 A 0 s = None"
| "to_utf16 A (Suc n) s =
     (if s = [] then Some (Inr ([], []))
      else case multi_to_wide A False (int_cast (length s)) s of
          Some t \<Rightarrow> Some (Inr (t, []))
        | None \<Rightarrow> map_option (\<lambda>r. rbind r (\<lambda>boxes. Inr ([], boxes))) (message_display A n multi_failed))"
| "fmt_msg A 0 func_name status = None"
| "fmt_msg A (Suc n) func_name status =
     (if \<not> local_alloc A then Some (Inl Undefined)
      else map_option (\<lambda>r. rbind r (\<lambda>(t, boxes). Inr (failure_text func_name (error_id A status) t, boxes)))
        (to_utf8 A n (format_message A (error_id A status))))"
| "message_display A 0 func_name = None"
| "message_display A (Suc n) func_name =
     (case fmt_msg A n func_name 0 of
        None \<Rightarrow> None
      | Some (Inl e) \<Rightarrow> Some (Inl e)
      | Some (Inr (t, boxes)) \<Rightarrow>
          map_option (\<lambda>r. rbind r (\<lambda>(w, boxes'). Inr (boxes @ boxes' @ [w]))) (to_utf16 A n t))"

text \<open>
  What is documented of the system. A conversion that replaces what is not valid succeeds on every
  text, of whose length it is told, and makes at most three bytes of a wide character; told the
  length zero, it fails. The text of a message is no longer than the buffer, which
  \<^verbatim>\<open>FormatMessage\<close> limits to 64 KiB.
\<close>

definition documented :: "text_api \<Rightarrow> bool" where
  "documented A \<longleftrightarrow>
     (\<forall>s. s \<noteq> [] \<and> length s < 2 ^ 31 \<longrightarrow> multi_to_wide A False (int (length s)) s \<noteq> None) \<and>
     (\<forall>s. s \<noteq> [] \<and> length s < 2 ^ 31 \<longrightarrow> (\<exists>t. wide_to_multi A False (int (length s)) s = Some t \<and> length t \<le> 3 * length s)) \<and>
     (\<forall>s. multi_to_wide A False 0 s = None) \<and> (\<forall>s. wide_to_multi A False 0 s = None) \<and>
     (\<forall>n. length (format_message A n) \<le> 65536)"

lemma int_cast_small: "n < 2 ^ 31 \<Longrightarrow> int_cast n = int n"
  by (simp add: int_cast_def signed_of_nat signed_take_bit_int_eq_self)

lemma int_cast_multiple:
  assumes "2 ^ 32 dvd n"
  shows "int_cast n = 0"
proof -
  have "(of_nat n :: 32 word) = 0" using assms by (simp add: word_of_nat_eq_0_iff)
  then show ?thesis unfolding int_cast_def by (simp only: signed_0)
qed

text \<open>The system's text as narrow text, and a message about a function.\<close>

definition system_text :: "text_api \<Rightarrow> u8 list" where
  "system_text A = (let t = format_message A (error_id A 0)
     in if t = [] then [] else the (wide_to_multi A False (int (length t)) t))"

definition shown_failure :: "text_api \<Rightarrow> u8 list \<Rightarrow> u16 list" where
  "shown_failure A func_name = (let s = failure_text func_name (error_id A 0) (system_text A)
     in the (multi_to_wide A False (int (length s)) s))"

lemma narrow_converts:
  assumes "documented A" and "s \<noteq> []" and "length s < 2 ^ 31"
  shows "to_utf16 A (Suc n) s = Some (Inr (the (multi_to_wide A False (int (length s)) s), []))"
proof -
  obtain t where "multi_to_wide A False (int (length s)) s = Some t" using assms unfolding documented_def by blast
  then show ?thesis using assms(2,3) by (simp add: int_cast_small)
qed

lemma wide_converts:
  assumes "documented A" and "s \<noteq> []" and "length s < 2 ^ 31"
  shows "to_utf8 A (Suc n) s = Some (Inr (the (wide_to_multi A False (int (length s)) s), []))"
    and "length (the (wide_to_multi A False (int (length s)) s)) \<le> 3 * length s"
proof -
  obtain t where "wide_to_multi A False (int (length s)) s = Some t" "length t \<le> 3 * length s"
    using assms unfolding documented_def by blast
  then show "to_utf8 A (Suc n) s = Some (Inr (the (wide_to_multi A False (int (length s)) s), []))"
    "length (the (wide_to_multi A False (int (length s)) s)) \<le> 3 * length s"
    using assms(2,3) by (simp_all add: int_cast_small)
qed

text \<open>A message is always shown, at a depth of four calls.\<close>

lemma failure_shown:
  assumes "documented A" and "local_alloc A" and "length func_name \<le> 100" and "func_name \<noteq> []"
  shows "message_display A (Suc (Suc (Suc (Suc n)))) func_name = Some (Inr [shown_failure A func_name])"
proof -
  let ?t = "format_message A (error_id A 0)"
  have small: "length ?t \<le> 65536" using assms(1) by (simp add: documented_def)
  have sys: "to_utf8 A (Suc k) ?t = Some (Inr (system_text A, []))" for k
    using wide_converts(1) [OF assms(1), of ?t] small by (cases "?t = []") (simp_all add: system_text_def Let_def)
  have "length (system_text A) \<le> 3 * 65536"
    using wide_converts(2) [OF assms(1), of ?t] small by (auto simp: system_text_def Let_def)
  moreover have "unat (error_id A 0) < 2 ^ 32" using unsigned_less [of "error_id A 0"] by simp
  then have "length (dec_string (unat (error_id A 0))) \<le> Suc 9" by (intro dec_string_length) simp
  ultimately have "length (failure_text func_name (error_id A 0) (system_text A)) < 2 ^ 31"
    using assms(3) by (simp add: failure_text_def)
  moreover have "failure_text func_name (error_id A 0) (system_text A) \<noteq> []" using assms(4) by (simp add: failure_text_def)
  ultimately have "to_utf16 A (Suc k) (failure_text func_name (error_id A 0) (system_text A)) =
      Some (Inr (shown_failure A func_name, []))" for k
    using narrow_converts [OF assms(1)] by (simp add: shown_failure_def Let_def)
  with sys assms(2) show ?thesis by (simp add: error_id_def)
qed

text \<open>
  The conversions of \<^verbatim>\<open>common.cpp\<close>: a null pointer has a fixed text; a text that is not valid
  is an error for the call that asks for the room, so it becomes the empty one.
\<close>

definition common_to_utf8 :: "text_api \<Rightarrow> u16 list option \<Rightarrow> u8 list" where
  "common_to_utf8 A msg_ptr = (case msg_ptr of
     None \<Rightarrow> map of_char ''N/A''
   | Some s \<Rightarrow> (case wide_to_multi A True (int_cast (length s)) s of None \<Rightarrow> [] | Some t \<Rightarrow> t))"

definition common_to_wtf8 :: "text_api \<Rightarrow> u8 list option \<Rightarrow> u16 list" where
  "common_to_wtf8 A msg_ptr = (case msg_ptr of
     None \<Rightarrow> map of_char ''N/A''
   | Some s \<Rightarrow> (case multi_to_wide A True (int_cast (length s)) s of None \<Rightarrow> [] | Some t \<Rightarrow> t))"

section \<open>Wide text read from narrow memory\<close>

text \<open>
  The strings for WMI are narrow, and the code casts their addresses to wide pointers. The
  callee reads characters of two bytes up to a null character; reading past the array is undefined.
\<close>

fun read_wide :: "u8 list \<Rightarrow> u16 list result" where
  "read_wide (x # y # bs) =
     (let c = push_bit 8 (ucast y) OR ucast x
      in if c = (0 :: u16) then Inr [] else rbind (read_wide bs) (\<lambda>cs. Inr (c # cs)))"
| "read_wide _ = Inl Undefined"

definition narrow_literal :: "string \<Rightarrow> u8 list" where
  "narrow_literal s = map of_char s @ [0]"

lemma pair_nonzero:
  assumes "x \<noteq> (0 :: u8)"
  shows "push_bit 8 (ucast y) OR ucast x \<noteq> (0 :: u16)"
proof
  assume "push_bit 8 (ucast y) OR ucast x = (0 :: u16)"
  then have "(ucast x :: u16) = 0" by (simp add: or_eq_0_iff)
  moreover have "x = ucast (ucast x :: u16)" by (rule bit_eqI) (auto simp: bit_simps dest: bit_imp_le_length)
  ultimately show False using assms by simp
qed

lemma read_wide_narrow: "0 \<notin> set bs \<Longrightarrow> read_wide (bs @ [0]) = Inl Undefined"
proof (induction bs rule: read_wide.induct)
  case (1 x y bs)
  then show ?case using pair_nonzero [of x y] by (simp add: Let_def)
qed (use pair_nonzero [where y = 0] in \<open>simp_all add: Let_def\<close>)

section \<open>COM and WMI\<close>

text \<open>
  The members of \<^verbatim>\<open>wmi2\<close> with the number of references the objects have (\<open>None\<close> is a null
  pointer), and how often COM is initialised for the thread. \<^verbatim>\<open>CoCreateInstance\<close> and
  \<^verbatim>\<open>ConnectServer\<close> leave the pointer null when they fail.
\<close>

record wmi2 =
  com_inits :: int
  m_locator :: "nat option"
  m_service :: "nat option"

record com_answers =
  co_initialize :: bool
  co_security :: bool
  co_create :: bool
  connect_server :: bool
  proxy_blanket :: bool

definition release :: "nat option \<Rightarrow> nat option result" where
  "release obj = (case obj of Some (Suc n) \<Rightarrow> Inr (Some n) | _ \<Rightarrow> Inl Undefined)"

definition wmi_namespace :: string where
  "wmi_namespace = ''ROOT'' @ [CHR 0x5C] @ ''CIMV2''"

text \<open>The constructor: it goes on after every failure. \<open>read\<close> is how the callee reads a string.\<close>

definition new_wmi2 :: "(u8 list \<Rightarrow> u16 list result) \<Rightarrow> com_answers \<Rightarrow> wmi2 result" where
  "new_wmi2 read ans =
     (let c0 = \<lparr>com_inits = (if co_initialize ans then 1 else 0), m_locator = None, m_service = None\<rparr>;
          c1 = (if co_security ans then c0 else c0\<lparr>com_inits := com_inits c0 - 1\<rparr>);
          c2 = (if co_create ans then c1\<lparr>m_locator := Some 1\<rparr> else c1\<lparr>com_inits := com_inits c1 - 1\<rparr>)
      in if m_locator c2 = None then Inl Undefined
         else rbind (read (narrow_literal wmi_namespace)) (\<lambda>_.
              rbind (if connect_server ans then Inr (c2\<lparr>m_service := Some 1\<rparr>)
                     else rbind (release (m_locator c2)) (\<lambda>l.
                       Inr (c2\<lparr>m_locator := l, com_inits := com_inits c2 - 1\<rparr>))) (\<lambda>c3.
              if proxy_blanket ans then Inr c3
              else rbind (release (m_service c3)) (\<lambda>s.
                   rbind (release (m_locator c3)) (\<lambda>l.
                     Inr (c3\<lparr>m_service := s, m_locator := l, com_inits := com_inits c3 - 1\<rparr>))))))"

definition delete_wmi2 :: "wmi2 \<Rightarrow> wmi2 result" where
  "delete_wmi2 c =
     rbind (release (m_service c)) (\<lambda>s.
     rbind (release (m_locator c)) (\<lambda>l.
       Inr (c\<lparr>m_service := s, m_locator := l, com_inits := com_inits c - 1\<rparr>)))"

text \<open>\<^verbatim>\<open>query\<close> up to the loop: the service reads the language and the query as wide strings.\<close>

definition exec_query ::
    "(u8 list \<Rightarrow> u16 list result) \<Rightarrow> string \<Rightarrow> wmi_object list option \<Rightarrow> string list \<Rightarrow> query_data list result" where
  "exec_query read query_string objects wanted =
     rbind (read (narrow_literal ''WQL'')) (\<lambda>_.
     rbind (read (narrow_literal query_string)) (\<lambda>_. wmi_query objects wanted))"

text \<open>
  The memory of the graphics adapter in \<^verbatim>\<open>get_gpuinfo\<close>: the three failures are looked at but not
  acted upon. The last argument is what the description holds, if the call filled it.
\<close>

definition adapter_memory :: "bool \<Rightarrow> bool \<Rightarrow> nat option \<Rightarrow> nat result" where
  "adapter_memory factory_created adapter_found desc =
     (if \<not> factory_created then Inl Undefined
      else if \<not> adapter_found then Inl Undefined
      else case desc of None \<Rightarrow> Inl Undefined | Some n \<Rightarrow> Inr n)"

definition system_gpuinfo ::
    "bool \<Rightarrow> bool \<Rightarrow> nat option \<Rightarrow> wmi_object list option \<Rightarrow> gpu_info_struct \<Rightarrow> gpu_info_struct result" where
  "system_gpuinfo factory_created adapter_found desc objects info =
     rbind (adapter_memory factory_created adapter_found desc) (\<lambda>memory. get_gpuinfo memory objects info)"

section \<open>UUIDs\<close>

definition get_uuid :: "bool \<Rightarrow> string option \<Rightarrow> string" where
  "get_uuid created str =
     (if created then case str of Some s \<Rightarrow> c_str s | None \<Rightarrow> [] else [])"

section \<open>Properties\<close>

lemma of_char_byte_zero: "(of_char c :: u8) = 0 \<Longrightarrow> c = CHR 0x00"
proof -
  assume h: "(of_char c :: u8) = 0"
  have "(of_nat (of_char c) :: u8) = of_char c" by (rule of_nat_of_char)
  with h have "(of_nat (of_char c) :: u8) = 0" by simp
  then have "256 dvd (of_char c :: nat)" by (simp add: word_of_nat_eq_0_iff)
  then have "of_char c = (0 :: nat)"
    by (cases "of_char c = (0 :: nat)") (use nat_of_char_less_256 [of c] dvd_imp_le [of 256 "of_char c :: nat"] in linarith)+
  then have "(of_char c :: nat) = of_char (CHR 0x00)" by simp
  then show ?thesis by (rule of_char_eqI)
qed

lemma read_literal:
  assumes "CHR 0x00 \<notin> set s"
  shows "read_wide (narrow_literal s) = Inl Undefined"
proof -
  have "(0 :: u8) \<notin> set (map of_char s)" using assms by (auto dest: of_char_byte_zero [OF sym])
  then show ?thesis by (simp add: narrow_literal_def read_wide_narrow)
qed

text \<open>
  The object for WMI queries cannot be made. If its strings are read as what they are, making and
  destroying it leaves COM and the objects as they were exactly if no call failed: each failure
  either ends in undefined behaviour or leaves COM uninitialised once too often. As it is, the
  strings are narrow ones whose addresses are cast: reading the name of the namespace runs past
  its end whatever the calls answer, and so does every query.
\<close>

theorem wmi_never_made:
  assumes "read (narrow_literal wmi_namespace) = Inr path" and "CHR 0x00 \<notin> set query_string"
  shows "(rbind (new_wmi2 read ans) delete_wmi2 = Inr \<lparr>com_inits = 0, m_locator = Some 0, m_service = Some 0\<rparr> \<longleftrightarrow>
      co_initialize ans \<and> co_security ans \<and> co_create ans \<and> connect_server ans \<and> proxy_blanket ans) \<and>
    (\<forall>c. rbind (new_wmi2 read ans) delete_wmi2 = Inr c \<longrightarrow> com_inits c \<le> 0) \<and>
    new_wmi2 read_wide ans = Inl Undefined \<and> exec_query read_wide query_string objects wanted = Inl Undefined"
proof -
  have "read_wide (narrow_literal wmi_namespace) = Inl Undefined"
    by (rule read_literal) (simp add: wmi_namespace_def)
  then have "new_wmi2 read_wide ans = Inl Undefined" by (simp add: new_wmi2_def Let_def)
  moreover have "exec_query read_wide query_string objects wanted = Inl Undefined"
    by (simp add: exec_query_def read_literal)
  moreover have "rbind (new_wmi2 read ans) delete_wmi2 = Inr \<lparr>com_inits = 0, m_locator = Some 0, m_service = Some 0\<rparr> \<longleftrightarrow>
      co_initialize ans \<and> co_security ans \<and> co_create ans \<and> connect_server ans \<and> proxy_blanket ans"
    using assms(1) by (auto simp: new_wmi2_def delete_wmi2_def release_def Let_def)
  moreover have "\<forall>c. rbind (new_wmi2 read ans) delete_wmi2 = Inr c \<longrightarrow> com_inits c \<le> 0"
    using assms(1) by (auto simp: new_wmi2_def delete_wmi2_def release_def Let_def rbind_eq_Inr_iff split: if_splits)
  ultimately show ?thesis by blast
qed

theorem wmi_never_made_witness:
  "rbind (new_wmi2 (\<lambda>_. Inr []) \<lparr>co_initialize = True, co_security = True, co_create = True, connect_server = True, proxy_blanket = True\<rparr>)
      delete_wmi2 = Inr \<lparr>com_inits = 0, m_locator = Some 0, m_service = Some 0\<rparr> \<and>
    exec_query read_wide ''SELECT'' None [] = Inl Undefined"
  using wmi_never_made [of "\<lambda>_. Inr []" "[]" "''SELECT''"] by simp


definition sample_text :: text_api where
  "sample_text = \<lparr>multi_to_wide = (\<lambda>strict n s. if n = 0 then None else Some (map ucast s)),
     wide_to_multi = (\<lambda>strict n s. if n = 0 then None else Some (map ucast s)),
     format_message = (\<lambda>_. [0x66]), last_error = 87, local_alloc = True\<rparr>"


end
