(* ===== verification/Service_Host.thy ===== *)
theory Service_Host
  imports Service Win_Runtime
begin

text \<open>
  The functions that a process starts with: the three \<^verbatim>\<open>main\<close> functions of
  \<^verbatim>\<open>src/src/change_service/service_main.cpp\<close>, and of
  \<^verbatim>\<open>src/src/change_lib/platform/win32/service.cpp\<close> the registration with the dispatcher, the event
  log, and the handles of the service helper.
\<close>

section \<open>Linux\<close>

text \<open>
  A directory is made when it is not there; what the file system and the search for the folder
  throw leaves \<^verbatim>\<open>main\<close>. The server stands by then, but has not been started.
\<close>

definition make_directory ::
    "(path \<Rightarrow> bool result) \<Rightarrow> (path \<Rightarrow> unit result) \<Rightarrow> path result \<Rightarrow> unit result" where
  "make_directory there create dir =
     rbind dir (\<lambda>d. rbind (there d) (\<lambda>b. if \<not> b then create d else Inr ()))"

definition linux_main ::
    "('j, 't) server_env \<Rightarrow> (path \<Rightarrow> bool result) \<Rightarrow> (path \<Rightarrow> unit result) \<Rightarrow> path result \<Rightarrow> path result \<Rightarrow>
      (string \<Rightarrow> bool) \<Rightarrow> bool \<Rightarrow> ('j change_server \<Rightarrow> 'j change_server) list \<Rightarrow> 'j change_server \<Rightarrow> 't files \<Rightarrow> 't files result" where
  "linux_main E there create data_dir log_dir can_write running rounds sv fs =
     rbind (make_directory there create data_dir) (\<lambda>_.
     rbind (make_directory there create log_dir) (\<lambda>_.
     rbind data_dir (\<lambda>d. service_main_linux E d can_write running rounds sv fs)))"

section \<open>Windows\<close>

text \<open>
  \<^verbatim>\<open>report_event\<close> keeps the addresses of strings that are destroyed at the end of their
  statements, and hands them to the event log if there is one.
\<close>

definition report_event :: "bool \<Rightarrow> unit result" where
  "report_event registered = (if registered then Inl Undefined else Inr ())"

definition service_run :: "bool \<Rightarrow> bool \<Rightarrow> unit result" where
  "service_run dispatched registered = (if \<not> dispatched then report_event registered else Inr ())"

text \<open>The release build hands the service to the dispatcher, the debug build runs the server itself.\<close>

definition windows_main :: "bool \<Rightarrow> bool \<Rightarrow> unit result" where
  "windows_main dispatched registered = service_run dispatched registered"

definition windows_debug_main ::
    "('j, 't) server_env \<Rightarrow> string \<Rightarrow> (string \<Rightarrow> bool) \<Rightarrow> bool \<Rightarrow> ('j change_server \<Rightarrow> 'j change_server) list \<Rightarrow>
      'j change_server \<Rightarrow> 't files \<Rightarrow> 't files result" where
  "windows_debug_main E data_dir can_write running rounds sv fs =
     (if running then rbind (main_loop E rounds sv) (\<lambda>sv'. store_state E data_dir can_write sv' fs) else Inr fs)"

text \<open>
  The flag that ends the main loop: the handlers of the signal and of the console set it, and the
  loop reads it before each round. What asio does before a round is given with the signal that
  arrives before it, if any.
\<close>

definition app_exit :: "int \<Rightarrow> bool \<Rightarrow> bool" where
  "app_exit sig stop_server = True"

definition close_handle :: "u32 \<Rightarrow> bool \<Rightarrow> bool \<times> bool" where
  "close_handle sig stop_server = (True, True)"

primrec signalled_rounds :: "bool \<Rightarrow> (int option \<times> 'n) list \<Rightarrow> 'n list" where
  "signalled_rounds stop_server [] = []"
| "signalled_rounds stop_server (r # rs) =
     (let stop = (case fst r of Some sig \<Rightarrow> app_exit sig stop_server | None \<Rightarrow> stop_server)
      in if stop then [] else snd r # signalled_rounds stop rs)"

lemma signalled_rounds_until: "signalled_rounds False rs = map snd (takeWhile (\<lambda>r. fst r = None) rs)"
  by (induction rs) (auto simp: app_exit_def split: option.split)

text \<open>
  The handles of the service helper, and which handles the system has open, by the kind of the
  call that closes them.
\<close>

datatype handle = Kernel_handle nat | Service_handle nat

record service_helper =
  m_sc_manager_handle :: "handle option"
  m_service_handle :: "handle option"
  helper_name :: string

definition new_service_helper :: "string \<Rightarrow> handle option \<Rightarrow> service_helper \<times> helper_output list" where
  "new_service_helper name opened =
     (\<lparr>m_sc_manager_handle = opened, m_service_handle = None, helper_name = name\<rparr>,
      if opened = None then [Failed ''OpenSCManager''] else [])"

text \<open>\<^verbatim>\<open>CloseHandle\<close> closes handles of the kernel; the others have a call of their own.\<close>

definition CloseHandle :: "handle \<Rightarrow> handle set \<Rightarrow> handle set" where
  "CloseHandle h open_handles = (case h of Kernel_handle _ \<Rightarrow> open_handles - {h} | Service_handle _ \<Rightarrow> open_handles)"

definition delete_service_helper :: "service_helper \<Rightarrow> handle set \<Rightarrow> handle set" where
  "delete_service_helper s open_handles =
     (let hs = (case m_service_handle s of None \<Rightarrow> open_handles | Some h \<Rightarrow> CloseHandle h open_handles)
      in case m_sc_manager_handle s of None \<Rightarrow> hs | Some h \<Rightarrow> CloseHandle h hs)"

section \<open>Properties\<close>

text \<open>
  The builds run the same server: with directories that can be looked at and made, the main
  function for Linux does what the debug build for Windows does on the same folder. If a
  directory cannot be made, it ends with that exception before it has started or stored anything.
\<close>

theorem mains_agree:
  assumes "\<And>p. \<exists>b. there p = Inr b" and "data_dir = Inr d" and "log_dir = Inr l"
  shows "(create d = Inr () \<and> create l = Inr () \<longrightarrow>
      linux_main E there create data_dir log_dir can_write running rounds sv fs =
      windows_debug_main E d can_write running rounds sv fs) \<and>
    (there d = Inr False \<and> create d = Inl e \<longrightarrow>
      linux_main E there create data_dir log_dir can_write running rounds sv fs = Inl e)"
proof -
  obtain bd bl where "there d = Inr bd" "there l = Inr bl" using assms(1) by metis
  with assms(2,3) show ?thesis
    by (auto simp: linux_main_def make_directory_def service_main_linux_def windows_debug_main_def)
qed

theorem mains_agree_witness:
  "linux_main sample_env (\<lambda>_. Inr False) (\<lambda>_. Inl (Throws Filesystem_error)) (Inr ''/d'') (Inr ''/l'') (\<lambda>_. True) True []
      sample_server Map.empty = Inl (Throws Filesystem_error)"
  using mains_agree [of "\<lambda>_. Inr False" "Inr ''/d''" "''/d''" "Inr ''/l''" "''/l''" "\<lambda>_. Inl (Throws Filesystem_error)"
      sample_env "\<lambda>_. True" True "[]" sample_server Map.empty "Throws Filesystem_error"] by auto

text \<open>
  The helper never closes the handles of the service manager: whatever it was given, they are
  open after its destructor as before. And whenever the event log can be written to, reporting
  an event is undefined.
\<close>

theorem helper_leaks_handles:
  assumes "opened = Some (Service_handle n)"
  shows "delete_service_helper (fst (new_service_helper name opened)) open_handles = open_handles \<and>
    service_run False True = Inl Undefined"
  using assms by (simp add: delete_service_helper_def new_service_helper_def CloseHandle_def service_run_def report_event_def)

theorem helper_leaks_handles_witness:
  "delete_service_helper (fst (new_service_helper ''s'' (Some (Service_handle 3)))) {Service_handle 3} = {Service_handle 3}"
  by (rule helper_leaks_handles [OF refl, THEN conjunct1])

end
