(* ===== verification/Channel.thy ===== *)
theory Channel
  imports Connection "HOL-Library.Sublist"
begin

text \<open>
  One direction between the two ends of a connection, both of
  \<^verbatim>\<open>src/src/change_lib/net/connection.hpp\<close>: what the sender has accepted, what it has put on the
  wire, and how far the receiver has taken that apart, one completed read at a time. The
  invariants only look at the members of an end that belong to the direction, so the two
  directions of a connection can be put together.
\<close>

section \<open>The receiver in steps\<close>

text \<open>Messages for which nothing is lost: they can be framed, and leave no old body in the buffer.\<close>

definition framable :: "'t message \<Rightarrow> bool" where
  "framable m \<longleftrightarrow> sendable m \<and> body m \<noteq> []"

lemma receive_nil [simp]: "receive W c q [] = (c, q, [])"
  by (subst receive.simps) (auto simp: Let_def)

text \<open>The bytes the pending read waits for.\<close>

definition wanted :: "'t wire \<Rightarrow> 't connection \<Rightarrow> nat" where
  "wanted W c = (case cn_reading c of No_io \<Rightarrow> 0 | Header_io \<Rightarrow> w_size W | Body_io \<Rightarrow> length (body (cn_temp_in c)))"

text \<open>The completion of the pending read.\<close>

definition on_read ::
    "'t wire \<Rightarrow> u8 list option \<Rightarrow> 't connection \<Rightarrow> 't incomming \<Rightarrow> 't connection \<times> 't incomming" where
  "on_read W ec c q = (if cn_reading c = Header_io then on_header_read W ec c q else on_body_read ec c q)"

lemma receive_unfold:
  "receive W c q bs = (if wanted W c = 0 \<or> length bs < wanted W c then (c, q, bs)
    else receive W (fst (on_read W (Some (take (wanted W c) bs)) c q))
      (snd (on_read W (Some (take (wanted W c) bs)) c q)) (drop (wanted W c) bs))"
  by (subst receive.simps) (simp add: wanted_def [symmetric] on_read_def Let_def case_prod_beta)

lemma receive_append:
  "receive W c q (xs @ ys) = (case receive W c q xs of (c', q', rest) \<Rightarrow> receive W c' q' (rest @ ys))"
proof (induction "length xs" arbitrary: c q xs rule: less_induct)
  case less
  show ?case
  proof (cases "wanted W c = 0 \<or> length xs < wanted W c")
    case True
    then have "receive W c q xs = (c, q, xs)" by (subst receive_unfold) simp
    then show ?thesis by simp
  next
    case False
    then have "length (drop (wanted W c) xs) < length xs" by auto
    from less [OF this] False show ?thesis
      by (subst (1 2) receive_unfold) simp
  qed
qed

lemma on_read_appends: "\<exists>ms. m_queue (snd (on_read W ec c q)) = m_queue q @ ms"
  by (auto simp: on_read_def on_header_read_def on_body_read_def add_to_incomming_def push_back_def Let_def
      split: option.splits)

lemma receive_appends: "receive W c q xs = (c', q', rest) \<Longrightarrow> \<exists>ms. m_queue q' = m_queue q @ ms"
proof (induction "length xs" arbitrary: c q xs rule: less_induct)
  case less
  show ?case
  proof (cases "wanted W c = 0 \<or> length xs < wanted W c")
    case True
    then have "receive W c q xs = (c, q, xs)" by (subst receive_unfold) simp
    with less.prems show ?thesis by simp
  next
    case False
    let ?r = "on_read W (Some (take (wanted W c) xs)) c q"
    from False have "length (drop (wanted W c) xs) < length xs" by auto
    moreover from False less.prems have "receive W (fst ?r) (snd ?r) (drop (wanted W c) xs) = (c', q', rest)"
      by (subst (asm) receive_unfold) simp
    ultimately obtain ms where "m_queue q' = m_queue (snd ?r) @ ms" using less.hyps by blast
    moreover obtain ns where "m_queue (snd ?r) = m_queue q @ ns" using on_read_appends by blast
    ultimately show ?thesis by simp
  qed
qed

text \<open>One read is one step of the parser.\<close>

lemma receive_read:
  assumes "length bs = wanted W c" and "wanted W c \<noteq> 0"
  shows "receive W c q bs = (fst (on_read W (Some bs) c q), snd (on_read W (Some bs) c q), [])"
  using assms by (subst receive_unfold) simp

section \<open>The members that belong to a direction\<close>

definition same_reader :: "'t connection \<Rightarrow> 't connection \<Rightarrow> bool" where
  "same_reader k l \<longleftrightarrow> cn_reading l = cn_reading k \<and> cn_temp_in l = cn_temp_in k \<and>
     cn_owner l = cn_owner k \<and> cn_self l = cn_self k"

definition same_sender :: "'t connection \<Rightarrow> 't connection \<Rightarrow> bool" where
  "same_sender k l \<longleftrightarrow> cn_outbound l = cn_outbound k \<and> cn_writing l = cn_writing k"

text \<open>The messages whose task has not run.\<close>

definition posted :: "'t connection \<Rightarrow> 't message list" where
  "posted c = concat (map (\<lambda>t. case t of Push_message m \<Rightarrow> [m] | Close_socket \<Rightarrow> []) (cn_tasks c))"

lemma same_refl [simp, intro]: "same_reader k k" "same_sender k k"
  by (simp_all add: same_reader_def same_sender_def)

lemma same_reader_trans [trans]: "same_reader k l \<Longrightarrow> same_reader l m \<Longrightarrow> same_reader k m"
  by (simp add: same_reader_def)

lemma wanted_same: "same_reader k l \<Longrightarrow> wanted W l = wanted W k"
  by (cases "cn_reading k") (simp_all add: wanted_def same_reader_def)

lemma on_read_same:
  assumes "same_reader k l"
  shows "same_reader (fst (on_read W (Some bs) k p)) (fst (on_read W (Some bs) l q))"
    and "\<exists>ms. m_queue (snd (on_read W (Some bs) k p)) = m_queue p @ ms \<and>
      m_queue (snd (on_read W (Some bs) l q)) = m_queue q @ ms"
  using assms
  by (auto simp: on_read_def on_header_read_def on_body_read_def add_to_incomming_def read_header_def read_body_def
      push_back_def same_reader_def Let_def)

lemma disconnect_parts [simp]:
  "same_sender (disconnect c) d = same_sender c d" "same_sender d (disconnect c) = same_sender d c"
  "same_reader (disconnect c) d = same_reader c d" "same_reader d (disconnect c) = same_reader d c"
  "cn_reading (disconnect c) = cn_reading c" "posted (disconnect c) = posted c"
  by (simp_all add: disconnect_def same_sender_def same_reader_def posted_def)

lemma on_read_sender:
  "same_sender c (fst (on_read W ec c q))" "posted (fst (on_read W ec c q)) = posted c"
  by (auto simp: on_read_def on_header_read_def on_body_read_def add_to_incomming_def read_header_def read_body_def
      same_sender_def posted_def disconnect_def Let_def split: option.splits)

lemma on_read_error:
  "cn_reading (fst (on_read W None c q)) = No_io" "snd (on_read W None c q) = q"
  by (simp_all add: on_read_def on_header_read_def on_body_read_def)

lemma sent_same [simp]: "same_reader c (c\<lparr>cn_tasks := ts\<rparr>)" "same_sender c (c\<lparr>cn_tasks := ts\<rparr>)"
  by (simp_all add: same_reader_def same_sender_def)

lemma next_task_reader: "same_reader c (next_task c)"
  by (auto simp: next_task_def run_task_def write_header_def same_reader_def Let_def split: list.split task.split)

lemma write_reader:
  "write_next c = Inr c' \<Longrightarrow> same_reader c c'"
  "on_header_written ok c = Inr c' \<Longrightarrow> same_reader c c'"
  "on_body_written ok c = Inr c' \<Longrightarrow> same_reader c c'"
  by (auto simp: write_next_def on_header_written_def on_body_written_def rbind_eq_Inr_iff write_header_def
      write_body_def same_reader_def disconnect_def Let_def split: if_splits)

lemma send_step_reader: "send_step W (c, out, log) (c', out', log') \<Longrightarrow> same_reader c c'"
  by (erule send_stepE) (auto simp: send_message_def next_task_reader write_reader intro: next_task_reader write_reader)

lemma send_inv_same: "same_sender c c' \<Longrightarrow> send_inv W (c', out, log) = send_inv W (c, out, log)"
  by (rule send_inv_cong) (simp_all add: same_sender_def)

section \<open>The receiver's invariant\<close>

text \<open>
  What the receiver has read so far, taken apart by the parser from the start, gives its buffer
  and everything that ever entered its queue; after an error it reads no more.
\<close>

definition reader_inv ::
    "'t wire \<Rightarrow> 't connection \<Rightarrow> u8 list \<Rightarrow> 't connection \<Rightarrow> 't owned_message list \<Rightarrow> bool" where
  "reader_inv W k0 read c entered \<longleftrightarrow>
     (\<exists>k q. receive W k0 new_queue read = (k, q, []) \<and> m_queue q = entered \<and>
       (cn_reading c = No_io \<or> same_reader k c) \<and> (cn_reading c = Body_io \<longrightarrow> body (cn_temp_in c) \<noteq> []))"

lemma reader_inv_start: "same_reader k0 c \<Longrightarrow> cn_reading c \<noteq> Body_io \<Longrightarrow> reader_inv W k0 [] c []"
  by (simp add: reader_inv_def new_queue_def)

lemma reader_inv_same: "reader_inv W k0 read c es \<Longrightarrow> same_reader c d \<Longrightarrow> reader_inv W k0 read d es"
  unfolding reader_inv_def by (elim exE) (auto simp: same_reader_def)

lemma reader_inv_error: "reader_inv W k0 read c es \<Longrightarrow> reader_inv W k0 read (fst (on_read W None c q)) es"
  unfolding reader_inv_def by (auto simp: on_read_error)

lemma on_read_body:
  "0 < wanted W c \<Longrightarrow> cn_reading (fst (on_read W (Some bs) c q)) = Body_io \<Longrightarrow>
    body (cn_temp_in (fst (on_read W (Some bs) c q))) \<noteq> []"
  by (auto simp: on_read_def on_header_read_def on_body_read_def add_to_incomming_def read_header_def read_body_def
      word_gt_0 unat_eq_0 resize_def Let_def split: if_splits)

lemma reader_inv_read:
  assumes "reader_inv W k0 read c es" and "length bs = wanted W c" and "0 < w_size W"
    and "cn_reading c \<noteq> No_io" and "m_queue (snd (on_read W (Some bs) c q)) = m_queue q @ ms"
  shows "reader_inv W k0 (read @ bs) (fst (on_read W (Some bs) c q)) (es @ ms)"
proof -
  from assms(1,4) obtain k p where k: "receive W k0 new_queue read = (k, p, [])" "m_queue p = es" "same_reader k c"
      "cn_reading c = Body_io \<longrightarrow> body (cn_temp_in c) \<noteq> []"
    by (auto simp: reader_inv_def)
  have pos: "0 < wanted W c" using assms(3,4) k(4) by (cases "cn_reading c") (simp_all add: wanted_def)
  have "receive W k0 new_queue (read @ bs) = (fst (on_read W (Some bs) k p), snd (on_read W (Some bs) k p), [])"
    using k(1) receive_read [of bs W k p] assms(2) pos wanted_same [OF k(3), of W] receive_append [of W k0 new_queue read bs]
    by simp
  moreover have "m_queue (snd (on_read W (Some bs) k p)) = es @ ms"
    using on_read_same(2) [OF k(3), of W bs p q] assms(5) k(2) by auto
  ultimately show ?thesis
    using on_read_same(1) [OF k(3), of W bs p q] on_read_body [OF pos, of bs q] by (simp add: reader_inv_def)
qed

context wire_format begin

text \<open>
  What entered the queue is a beginning of what was sent, and all of it once every byte of its
  frames was read.
\<close>

lemma reader_inv_frames:
  assumes "reader_inv W k0 read c es" and "cn_reading k0 = Header_io" and "list_all framable log"
    and "read @ rest = concat (map (frame W) log)"
  shows "\<exists>more. map (\<lambda>m. arrival k0 (m\<lparr>time := time (cn_temp_in k0)\<rparr>)) log = es @ more \<and> (rest = [] \<longrightarrow> more = [])"
proof -
  from assms(1) obtain k q where k: "receive W k0 new_queue read = (k, q, [])" "m_queue q = es"
    by (auto simp: reader_inv_def)
  have ok: "list_all sendable log" "\<And>m. m \<in> set log \<Longrightarrow> body m \<noteq> []"
    using assms(3) by (auto simp: framable_def list_all_iff)
  from receive_frames [OF ok(1) assms(2), of new_queue] obtain c' q'
    where all: "receive W k0 new_queue (concat (map (frame W) log)) = (c', q', [])"
      "m_queue q' = map (arrival k0) (arrived (cn_temp_in k0) log)"
    by (auto simp: new_queue_def)
  have q': "m_queue q' = map (\<lambda>m. arrival k0 (m\<lparr>time := time (cn_temp_in k0)\<rparr>)) log"
    using all(2) arrived_bodies [of log "cn_temp_in k0"] ok(2) by (simp add: comp_def)
  have "receive W k q rest = (c', q', [])"
    using all(1) k(1) receive_append [of W k0 new_queue read rest] assms(4) by simp
  then have "(\<exists>more. m_queue q' = m_queue q @ more) \<and> (rest = [] \<longrightarrow> m_queue q' = m_queue q)"
    using receive_appends by (cases "rest = []") (simp, blast)
  with q' k(2) show ?thesis by auto
qed

text \<open>Both ends of a direction together.\<close>

lemma direction:
  assumes "send_inv W (c, out, log)" and "reader_inv W k0 read k es" and "out = read @ unread"
    and "cn_reading k0 = Header_io" and "list_all framable log"
  shows "\<exists>more. map (\<lambda>m. arrival k0 (m\<lparr>time := time (cn_temp_in k0)\<rparr>)) log = es @ more \<and>
    (m_queue (cn_outbound c) = [] \<and> unread = [] \<longrightarrow> more = [])"
proof -
  obtain rest where rest: "out @ rest = concat (map (frame W) log)"
    "m_queue (cn_outbound c) = [] \<longrightarrow> rest = []"
    using send_inv_prefix [OF assms(1)] by (cases "m_queue (cn_outbound c) = []") auto
  then have "read @ (unread @ rest) = concat (map (frame W) log)" using assms(3) by simp
  from reader_inv_frames [OF assms(2,4,5) this] rest(2) show ?thesis by auto
qed

end

section \<open>What asio does at a sending end\<close>

text \<open>Accepting a message is up to the program; the other steps are those that accept none.\<close>

definition accepted :: "'t connection \<times> u8 list \<times> 't message list \<Rightarrow> 't message list" where
  "accepted s = (case s of (c, out, log) \<Rightarrow> log @ posted c)"

definition io_step ::
    "'t wire \<Rightarrow> 't connection \<times> u8 list \<times> 't message list \<Rightarrow> 't connection \<times> u8 list \<times> 't message list \<Rightarrow> bool" where
  "io_step W s t \<longleftrightarrow> send_step W s t \<and> accepted t = accepted s"

lemma send_step_out: "send_step W (c, out, log) (c', out', log') \<Longrightarrow> \<exists>more. out' = out @ more"
  by (erule send_stepE) auto

lemma posted_task: "cn_tasks c = t # ts \<Longrightarrow>
    accepted (next_task c, out, (case t of Push_message m \<Rightarrow> log @ [m] | Close_socket \<Rightarrow> log)) = accepted (c, out, log)"
  by (auto simp: accepted_def posted_def next_task_def run_task_def write_header_def Let_def split: task.splits)

section \<open>A line\<close>

text \<open>The bytes written and read so far, and the messages whose task ran at the sending end.\<close>

record 't line =
  ln_out :: "u8 list"
  ln_read :: "u8 list"
  ln_log :: "'t message list"

definition new_line :: "'t line" where
  "new_line = \<lparr>ln_out = [], ln_read = [], ln_log = []\<rparr>"

lemma new_line_simps [simp]: "ln_out new_line = []" "ln_read new_line = []" "ln_log new_line = []"
  by (simp_all add: new_line_def)

definition unread :: "'t line \<Rightarrow> u8 list" where
  "unread ln = drop (length (ln_read ln)) (ln_out ln)"

lemma unread_read:
  assumes "unread ln = bs @ later" and "n \<le> length bs"
  shows "unread (ln\<lparr>ln_read := ln_read ln @ take n bs\<rparr>) = drop n bs @ later"
proof -
  have "unread (ln\<lparr>ln_read := ln_read ln @ take n bs\<rparr>) = drop n (unread ln)"
    using assms(2) by (simp add: unread_def add.commute)
  with assms show ?thesis by simp
qed

definition line_inv ::
    "'t wire \<Rightarrow> 't connection \<Rightarrow> 't connection \<Rightarrow> 't connection \<Rightarrow> 't line \<Rightarrow> 't owned_message list \<Rightarrow> bool" where
  "line_inv W c r0 r ln es \<longleftrightarrow> send_inv W (c, ln_out ln, ln_log ln) \<and> reader_inv W r0 (ln_read ln) r es \<and>
     prefix (ln_read ln) (ln_out ln)"

lemma line_unread: "prefix (ln_read ln) (ln_out ln) \<Longrightarrow> ln_out ln = ln_read ln @ unread ln"
  by (auto simp: unread_def prefix_def)

lemma line_start:
  assumes "cn_writing c = No_io" and "m_queue (cn_outbound c) = []" and "same_reader r0 r" and "cn_reading r \<noteq> Body_io"
  shows "line_inv W c r0 r new_line []"
  using assms reader_inv_start [of r0 r W]
  by (simp add: line_inv_def new_line_def send_inv_def in_step_def unsent_def)

lemma line_same:
  "line_inv W c r0 r ln es \<Longrightarrow> same_sender c d \<Longrightarrow> same_reader r q \<Longrightarrow> line_inv W d r0 q ln es"
  by (auto simp: line_inv_def send_inv_same intro: reader_inv_same)

lemma line_other_read: "line_inv W c r0 r ln es \<Longrightarrow> line_inv W (fst (on_read V ec c q)) r0 r ln es"
  by (rule line_same [OF _ on_read_sender(1) same_refl(1)])

lemma line_send:
  assumes "line_inv W c r0 r ln es" and "send_step W (c, ln_out ln, ln_log ln) (c', out', log')"
  shows "line_inv W c' r0 r (ln\<lparr>ln_out := out', ln_log := log'\<rparr>) es"
proof -
  obtain more where "out' = ln_out ln @ more" using send_step_out [OF assms(2)] by blast
  then have "prefix (ln_read ln) out'" using assms(1) by (auto simp: line_inv_def prefix_def)
  with send_step_inv [OF assms(2)] assms(1) show ?thesis by (simp add: line_inv_def)
qed

lemma line_read:
  assumes "line_inv W c r0 r ln es" and "unread ln = bs @ later" and "length bs = wanted W r" and "0 < w_size W"
    and "cn_reading r \<noteq> No_io" and "m_queue (snd (on_read W (Some bs) r q)) = m_queue q @ ms"
  shows "line_inv W c r0 (fst (on_read W (Some bs) r q)) (ln\<lparr>ln_read := ln_read ln @ bs\<rparr>) (es @ ms)"
proof -
  have "ln_out ln = (ln_read ln @ bs) @ later" using line_unread [of ln] assms(1,2) by (simp add: line_inv_def)
  then have "prefix (ln_read ln @ bs) (ln_out ln)" by (rule prefixI)
  with reader_inv_read [OF _ assms(3-6), of r0 "ln_read ln" es] assms(1) show ?thesis by (simp add: line_inv_def)
qed

lemma line_error: "line_inv W c r0 r ln es \<Longrightarrow> line_inv W c r0 (fst (on_read W None r q)) ln es"
  by (simp add: line_inv_def reader_inv_error)

context wire_format begin

lemma line_delivers:
  assumes "line_inv W c r0 r ln es" and "cn_reading r0 = Header_io" and "list_all framable (ln_log ln)"
  shows "\<exists>more. map (\<lambda>m. arrival r0 (m\<lparr>time := time (cn_temp_in r0)\<rparr>)) (ln_log ln) = es @ more \<and>
    (m_queue (cn_outbound c) = [] \<and> unread ln = [] \<longrightarrow> more = [])"
  using assms(1) by (intro direction [where k = r, OF _ _ line_unread assms(2,3)]) (simp_all add: line_inv_def)

end

end
