(* ===== verification/Session.thy ===== *)
theory Session
  imports Channel Change_Client Server_State
begin

text \<open>
  A client of the program and the server as one system: the two ends of their connection with a
  line for each direction, the server's loop, which takes one message after the other, and the
  client's loop. The bytes travel as \<^verbatim>\<open>connection.hpp\<close> writes and reads them, each completion of
  asio being a step; the other clients of the server act in between.
\<close>

section \<open>The system\<close>

text \<open>
  The client, the server and the two lines, and as history the messages that the server has
  handled, those of this client among them, and those from the server that the client has processed.
\<close>

record 'j session =
  ss_client :: change_client
  ss_server :: "'j change_server"
  ss_up :: "u32 line"
  ss_down :: "u32 line"
  ss_served :: "u32 message list"
  ss_handled :: "u32 message list"
  ss_seen :: "u32 message list"

text \<open>The messages in the server's queue that came over the connection.\<close>

definition from_client :: "nat \<Rightarrow> 'j change_server \<Rightarrow> u32 owned_message list" where
  "from_client a sv = filter (\<lambda>x. remote x = Some a) (m_queue (m_incomming sv))"

text \<open>
  What asio and the client's loop do at one of the two ends of the connection; a read completes
  with the bytes it waited for, or fails.
\<close>

inductive end_step ::
    "('i, 'k) client_env \<Rightarrow> u32 wire \<Rightarrow> nat \<Rightarrow> 'j session \<Rightarrow> 'j session \<Rightarrow> bool"
  for C W a where
  client_sends: "ci_connection (ss_client s) = Some l \<Longrightarrow>
    send_step W (l, ln_out (ss_up s), ln_log (ss_up s)) (l', out, log) \<Longrightarrow>
    end_step C W a s (s\<lparr>ss_client := (ss_client s)\<lparr>ci_connection := Some l'\<rparr>,
      ss_up := (ss_up s)\<lparr>ln_out := out, ln_log := log\<rparr>\<rparr>)"
| server_reads: "sv_conns (ss_server s) a = Some k \<Longrightarrow> cn_reading k \<noteq> No_io \<Longrightarrow>
    unread (ss_up s) = bs @ later \<Longrightarrow> length bs = wanted W k \<Longrightarrow>
    end_step C W a s (s\<lparr>ss_server := put_conn a (on_read W (Some bs) k (m_incomming (ss_server s))) (ss_server s),
      ss_up := (ss_up s)\<lparr>ln_read := ln_read (ss_up s) @ bs\<rparr>\<rparr>)"
| server_read_fails: "sv_conns (ss_server s) a = Some k \<Longrightarrow> cn_reading k \<noteq> No_io \<Longrightarrow>
    end_step C W a s (s\<lparr>ss_server := put_conn a (on_read W None k (m_incomming (ss_server s))) (ss_server s)\<rparr>)"
| server_writes: "sv_conns (ss_server s) a = Some k \<Longrightarrow>
    io_step W (k, ln_out (ss_down s), ln_log (ss_down s)) (k', out, log) \<Longrightarrow>
    end_step C W a s (s\<lparr>ss_server := put_conn a (k', m_incomming (ss_server s)) (ss_server s),
      ss_down := (ss_down s)\<lparr>ln_out := out, ln_log := log\<rparr>\<rparr>)"
| client_reads: "ci_connection (ss_client s) = Some l \<Longrightarrow> cn_reading l \<noteq> No_io \<Longrightarrow>
    unread (ss_down s) = bs @ later \<Longrightarrow> length bs = wanted W l \<Longrightarrow>
    on_read W (Some bs) l (ci_incomming (ss_client s)) = (l', q) \<Longrightarrow>
    end_step C W a s (s\<lparr>ss_client := (ss_client s)\<lparr>ci_connection := Some l', ci_incomming := q\<rparr>,
      ss_down := (ss_down s)\<lparr>ln_read := ln_read (ss_down s) @ bs\<rparr>\<rparr>)"
| client_read_fails: "ci_connection (ss_client s) = Some l \<Longrightarrow> cn_reading l \<noteq> No_io \<Longrightarrow>
    on_read W None l (ci_incomming (ss_client s)) = (l', q) \<Longrightarrow>
    end_step C W a s (s\<lparr>ss_client := (ss_client s)\<lparr>ci_connection := Some l', ci_incomming := q\<rparr>\<rparr>)"
| client_processes: "looping (ss_client s) \<Longrightarrow> process_server_commands C (ss_client s) = Inr (os, cl') \<Longrightarrow>
    end_step C W a s (s\<lparr>ss_client := cl',
      ss_seen := ss_seen s @ map msg (take 1 (m_queue (ci_incomming (ss_client s))))\<rparr>)"
| client_leaves: "end_step C W a s (s\<lparr>ss_client := ci_disconnect (ss_client s)\<rparr>)"

inductive_cases end_stepE: "end_step C W a s t"

text \<open>
  The two programs on their own take such steps, and the server handles messages; in a session
  other clients of the server act in between.
\<close>

inductive alone_step ::
    "('j, 't) server_env \<Rightarrow> ('i, 'k) client_env \<Rightarrow> u32 wire \<Rightarrow> nat \<Rightarrow> 'j session \<Rightarrow> 'j session \<Rightarrow> bool"
  for E C W a where
  own: "end_step C W a s t \<Longrightarrow> alone_step E C W a s t"
| server_handles: "m_queue (m_incomming (ss_server s)) = x # xs \<Longrightarrow>
    update (change_server_virtuals E) 1 (ss_server s) = Inr sv' \<Longrightarrow>
    alone_step E C W a s (s\<lparr>ss_server := sv', ss_served := ss_served s @ [msg x],
      ss_handled := ss_handled s @ (if remote x = Some a then [msg x] else [])\<rparr>)"

inductive session_step ::
    "('j, 't) server_env \<Rightarrow> ('i, 'k) client_env \<Rightarrow> u32 wire \<Rightarrow> nat \<Rightarrow> 'j session \<Rightarrow> 'j session \<Rightarrow> bool"
  for E C W a where
  alone: "alone_step E C W a s t \<Longrightarrow> session_step E C W a s t"
| others: "sv_conns sv' a = sv_conns (ss_server s) a \<Longrightarrow> m_state sv' = m_state (ss_server s) \<Longrightarrow>
    from_client a sv' = from_client a (ss_server s) \<Longrightarrow> session_step E C W a s (s\<lparr>ss_server := sv'\<rparr>)"

inductive_cases alone_stepE: "alone_step E C W a s t"
inductive_cases session_stepE: "session_step E C W a s t"

inductive session_reach ::
    "('j, 't) server_env \<Rightarrow> ('i, 'k) client_env \<Rightarrow> u32 wire \<Rightarrow> nat \<Rightarrow> 'j session \<Rightarrow> 'j session \<Rightarrow> bool"
  for E C W a s0 where
  session_start: "session_reach E C W a s0 s0"
| session_next: "session_reach E C W a s0 s \<Longrightarrow> session_step E C W a s t \<Longrightarrow> session_reach E C W a s0 t"

inductive alone_reach ::
    "('j, 't) server_env \<Rightarrow> ('i, 'k) client_env \<Rightarrow> u32 wire \<Rightarrow> nat \<Rightarrow> 'j session \<Rightarrow> 'j session \<Rightarrow> bool"
  for E C W a s0 where
  alone_start: "alone_reach E C W a s0 s0"
| alone_next: "alone_reach E C W a s0 s \<Longrightarrow> alone_step E C W a s t \<Longrightarrow> alone_reach E C W a s0 t"

lemma alone_in_session: "alone_reach E C W a s0 s \<Longrightarrow> session_reach E C W a s0 s"
  by (induction rule: alone_reach.induct) (blast intro: session_start session_next alone)+

text \<open>Both ends are connected and nothing has been sent.\<close>

definition fresh_end :: "u32 connection \<Rightarrow> bool" where
  "fresh_end c \<longleftrightarrow> cn_reading c = Header_io \<and> cn_writing c = No_io \<and> m_queue (cn_outbound c) = [] \<and>
     cn_tasks c = [] \<and> cn_temp_in c = new_message 0"

definition fresh_session :: "nat \<Rightarrow> u32 connection \<Rightarrow> u32 connection \<Rightarrow> 'j session \<Rightarrow> bool" where
  "fresh_session a k0 l0 s \<longleftrightarrow>
     sv_conns (ss_server s) a = Some k0 \<and> fresh_end k0 \<and> cn_self k0 = a \<and> cn_owner k0 = Owner_server \<and>
     ci_connection (ss_client s) = Some l0 \<and> fresh_end l0 \<and> cn_owner l0 = Owner_client \<and>
     from_client a (ss_server s) = [] \<and> m_queue (ci_incomming (ss_client s)) = [] \<and>
     ss_up s = new_line \<and> ss_down s = new_line \<and> ss_handled s = [] \<and> ss_seen s = []"

text \<open>Everything sent in a direction has been taken out at its end.\<close>

definition up_idle :: "nat \<Rightarrow> 'j session \<Rightarrow> bool" where
  "up_idle a s \<longleftrightarrow> unread (ss_up s) = [] \<and> from_client a (ss_server s) = [] \<and>
     (case ci_connection (ss_client s) of Some l \<Rightarrow> m_queue (cn_outbound l) = [] | None \<Rightarrow> False)"

definition down_idle :: "nat \<Rightarrow> 'j session \<Rightarrow> bool" where
  "down_idle a s \<longleftrightarrow> unread (ss_down s) = [] \<and> m_queue (ci_incomming (ss_client s)) = [] \<and>
     (case sv_conns (ss_server s) a of Some k \<Rightarrow> m_queue (cn_outbound k) = [] \<and> posted k = [] | None \<Rightarrow> False)"

section \<open>What a handler does to the connection\<close>

definition untimed :: "u32 message \<Rightarrow> u32 message" where
  "untimed m = m\<lparr>time := 0\<rparr>"

text \<open>The answers to one request: none or one, and then a reply of a type for the request.\<close>

definition answered :: "u32 message \<Rightarrow> u32 message list \<Rightarrow> bool" where
  "answered m rs \<longleftrightarrow> length rs \<le> 1 \<and> list_all (good_reply (msg_id (header m))) rs \<and> (\<not> validate m \<longrightarrow> rs = [])"

lemma posted_sent [simp]: "posted (sent ms c) = posted c @ ms"
  by (induction ms arbitrary: c) (simp_all add: posted_def sent_def)

lemma sent_parts [simp]: "same_sender c (sent ms c)" "same_reader c (sent ms c)"
  by (simp_all add: sent_def)

lemma update_one:
  assumes "m_queue (m_incomming sv) = x # xs" and "update (change_server_virtuals E) 1 sv = Inr sv'"
  shows "cs_message E (remote x) (msg x) (sv\<lparr>m_incomming := (m_incomming sv)\<lparr>m_queue := xs\<rparr>\<rparr>) = Inr sv'"
  using assms by (auto simp: update_def queue_empty_def pop_front_def change_server_virtuals_def rbind_eq_Inr_iff)

lemma message_answered:
  assumes "cs_message E p m sv = Inr sv'"
  shows "\<exists>rs. answers p rs sv sv' \<and> answered m rs"
proof (cases "validate m")
  case True
  with assms have "answers_well (msg_id (header m)) p sv sv'" by (simp add: cs_message_def m_process_answers)
  with True show ?thesis by (auto simp: answers_well_def answered_def)
next
  case False
  with assms have "sv' = sv" by (simp add: cs_message_def)
  then have "answers p [] sv sv' \<and> answered m []" by (simp add: answered_def)
  then show ?thesis by blast
qed

text \<open>The connection of the session after one message was handled, whoever sent it.\<close>

lemma update_one_conn:
  assumes "m_queue (m_incomming sv) = x # xs" and "update (change_server_virtuals E) 1 sv = Inr sv'"
    and "sv_conns sv a = Some k"
  shows "m_queue (m_incomming sv') = xs \<and>
    (\<exists>rs. sv_conns sv' a = Some (sent rs k) \<and> (if remote x = Some a then answered (msg x) rs else rs = []))"
proof -
  let ?sv = "sv\<lparr>m_incomming := (m_incomming sv)\<lparr>m_queue := xs\<rparr>\<rparr>"
  obtain rs where rs: "answers (remote x) rs ?sv sv'" "answered (msg x) rs"
    using message_answered [OF update_one [OF assms(1,2)]] by blast
  let ?rs = "if Some a = remote x \<and> client_connected (remote x) ?sv then rs else []"
  have "sv_conns sv' a = Some (sent ?rs k)" using rs(1) assms(3) by (simp add: answers_def)
  moreover have "if remote x = Some a then answered (msg x) ?rs else ?rs = []"
    using rs(2) by (auto simp: answered_def)
  moreover have "m_queue (m_incomming sv') = xs" using rs(1) by (simp add: answers_def)
  ultimately show ?thesis by blast
qed

section \<open>The invariant\<close>

text \<open>
  What entered either queue is what was handled and what waits there, and the replies to what
  was handled are what the server's end has accepted.
\<close>

definition session_ok ::
    "u32 wire \<Rightarrow> nat \<Rightarrow> u32 connection \<Rightarrow> u32 connection \<Rightarrow> u32 connection \<Rightarrow> u32 connection \<Rightarrow>
      u32 owned_message list \<Rightarrow> u32 owned_message list \<Rightarrow> u32 message list list \<Rightarrow> 'j session \<Rightarrow> bool" where
  "session_ok W a k0 l0 k l es fs rs s \<longleftrightarrow>
     sv_conns (ss_server s) a = Some k \<and> cn_self k = a \<and> cn_owner k = Owner_server \<and>
     (ci_connection (ss_client s) = Some l \<or> ci_connection (ss_client s) = None) \<and>
     line_inv W l k0 k (ss_up s) es \<and> map msg es = ss_handled s @ map msg (from_client a (ss_server s)) \<and>
     line_inv W k l0 l (ss_down s) fs \<and> map msg fs = ss_seen s @ map msg (m_queue (ci_incomming (ss_client s))) \<and>
     list_all2 answered (ss_handled s) rs \<and> ln_log (ss_down s) @ posted k = concat rs"

definition session_inv :: "u32 wire \<Rightarrow> nat \<Rightarrow> u32 connection \<Rightarrow> u32 connection \<Rightarrow> 'j session \<Rightarrow> bool" where
  "session_inv W a k0 l0 s \<longleftrightarrow> (\<exists>k l es fs rs. session_ok W a k0 l0 k l es fs rs s)"

lemma session_invI [intro]: "session_ok W a k0 l0 k l es fs rs s \<Longrightarrow> session_inv W a k0 l0 s"
  unfolding session_inv_def by blast

lemma session_start_ok:
  assumes "fresh_session a k0 l0 s"
  shows "session_ok W a k0 l0 k0 l0 [] [] [] s"
proof -
  from assms have "line_inv W l0 k0 k0 new_line []" "line_inv W k0 l0 l0 new_line []"
    by (auto simp: fresh_session_def fresh_end_def intro!: line_start)
  with assms show ?thesis by (simp add: session_ok_def fresh_session_def fresh_end_def posted_def)
qed

lemma same_reader_ends: "same_reader c d \<Longrightarrow> cn_self d = cn_self c \<and> cn_owner d = cn_owner c"
  by (simp add: same_reader_def)

lemma on_read_ends: "cn_self (fst (on_read W ec c q)) = cn_self c \<and> cn_owner (fst (on_read W ec c q)) = cn_owner c"
  by (auto simp: on_read_def on_header_read_def on_body_read_def add_to_incomming_def read_header_def read_body_def
      disconnect_def Let_def split: option.splits)

lemma on_read_remote:
  assumes "cn_owner c = Owner_server"
  shows "\<exists>ms. m_queue (snd (on_read W ec c q)) = m_queue q @ ms \<and> (\<forall>x \<in> set ms. remote x = Some (cn_self c))"
  using assms by (auto simp: on_read_def on_header_read_def on_body_read_def add_to_incomming_def push_back_def Let_def
      split: option.splits)

lemma put_conn_parts [simp]:
  "sv_conns (put_conn a r sv) a = Some (fst r)" "m_incomming (put_conn a r sv) = snd r"
  "m_state (put_conn a r sv) = m_state sv"
  by (simp_all add: put_conn_def)

lemma client_conn [simp]: "ci_connection (c\<lparr>ci_incomming := q, cc_processing := b\<rparr>) = ci_connection c"
  by simp

text \<open>The steps of either end on its own connection.\<close>

lemma client_sends_ok:
  assumes "session_ok W a k0 l0 k l es fs rs s" and "ci_connection (ss_client s) = Some l"
    and "send_step W (l, ln_out (ss_up s), ln_log (ss_up s)) (l', out, log)"
  shows "session_ok W a k0 l0 k l' es fs rs (s\<lparr>ss_client := (ss_client s)\<lparr>ci_connection := Some l'\<rparr>,
      ss_up := (ss_up s)\<lparr>ln_out := out, ln_log := log\<rparr>\<rparr>)"
  using assms(1) line_send [OF _ assms(3)] line_same [OF _ same_refl(2) send_step_reader [OF assms(3)]]
  by (simp add: session_ok_def)

lemma server_writes_ok:
  assumes "session_ok W a k0 l0 k l es fs rs s"
    and "io_step W (k, ln_out (ss_down s), ln_log (ss_down s)) (k', out, log)"
  shows "session_ok W a k0 l0 k' l es fs rs (s\<lparr>ss_server := put_conn a (k', m_incomming (ss_server s)) (ss_server s),
      ss_down := (ss_down s)\<lparr>ln_out := out, ln_log := log\<rparr>\<rparr>)"
proof -
  from assms(2) have step: "send_step W (k, ln_out (ss_down s), ln_log (ss_down s)) (k', out, log)"
    and acc: "log @ posted k' = ln_log (ss_down s) @ posted k"
    by (simp_all add: io_step_def accepted_def)
  have "line_inv W l k0 k' (ss_up s) es"
    using assms(1) line_same [OF _ same_refl(2) send_step_reader [OF step]] by (simp add: session_ok_def)
  moreover have "line_inv W k' l0 l ((ss_down s)\<lparr>ln_out := out, ln_log := log\<rparr>) fs"
    using assms(1) line_send [OF _ step] by (simp add: session_ok_def)
  ultimately show ?thesis
    using assms(1) acc same_reader_ends [OF send_step_reader [OF step]]
    by (simp add: session_ok_def from_client_def)
qed

lemma server_reads_ok:
  assumes "session_ok W a k0 l0 k l es fs rs s" and "cn_reading k \<noteq> No_io" and "0 < w_size W"
    and "unread (ss_up s) = bs @ later" and "length bs = wanted W k"
  shows "session_inv W a k0 l0 (s\<lparr>ss_server := put_conn a (on_read W (Some bs) k (m_incomming (ss_server s))) (ss_server s),
      ss_up := (ss_up s)\<lparr>ln_read := ln_read (ss_up s) @ bs\<rparr>\<rparr>)"
proof -
  let ?k = "fst (on_read W (Some bs) k (m_incomming (ss_server s)))"
  obtain ms where ms: "m_queue (snd (on_read W (Some bs) k (m_incomming (ss_server s)))) = m_queue (m_incomming (ss_server s)) @ ms"
      "\<forall>x \<in> set ms. remote x = Some a"
    using on_read_remote [of k W "Some bs" "m_incomming (ss_server s)"] assms(1) by (auto simp: session_ok_def)
  have "line_inv W l k0 ?k ((ss_up s)\<lparr>ln_read := ln_read (ss_up s) @ bs\<rparr>) (es @ ms)"
    using assms(1) line_read [OF _ assms(4,5,3,2) ms(1)] by (simp add: session_ok_def)
  moreover have "line_inv W k l0 l (ss_down s) fs" using assms(1) by (simp add: session_ok_def)
  then have "line_inv W ?k l0 l (ss_down s) fs" by (rule line_other_read)
  ultimately have "session_ok W a k0 l0 ?k l (es @ ms) fs rs
      (s\<lparr>ss_server := put_conn a (on_read W (Some bs) k (m_incomming (ss_server s))) (ss_server s),
         ss_up := (ss_up s)\<lparr>ln_read := ln_read (ss_up s) @ bs\<rparr>\<rparr>)"
    using assms(1) ms on_read_ends [of W "Some bs" k] on_read_sender(2) [of W "Some bs" k]
    by (simp add: session_ok_def from_client_def)
  then show ?thesis by blast
qed

lemma client_reads_ok:
  assumes "session_ok W a k0 l0 k l es fs rs s" and "ci_connection (ss_client s) = Some l" and "cn_reading l \<noteq> No_io"
    and "0 < w_size W" and "unread (ss_down s) = bs @ later" and "length bs = wanted W l"
    and "on_read W (Some bs) l (ci_incomming (ss_client s)) = (l', q)"
  shows "session_inv W a k0 l0 (s\<lparr>ss_client := (ss_client s)\<lparr>ci_connection := Some l', ci_incomming := q\<rparr>,
      ss_down := (ss_down s)\<lparr>ln_read := ln_read (ss_down s) @ bs\<rparr>\<rparr>)"
proof -
  obtain ms where ms: "m_queue (snd (on_read W (Some bs) l (ci_incomming (ss_client s)))) = m_queue (ci_incomming (ss_client s)) @ ms"
    using on_read_appends by blast
  have "line_inv W k l0 l' ((ss_down s)\<lparr>ln_read := ln_read (ss_down s) @ bs\<rparr>) (fs @ ms)"
    using assms(1,7) line_read [OF _ assms(5,6,4,3) ms] by (simp add: session_ok_def)
  moreover have "line_inv W l k0 k (ss_up s) es" using assms(1) by (simp add: session_ok_def)
  then have "line_inv W (fst (on_read W (Some bs) l (ci_incomming (ss_client s)))) k0 k (ss_up s) es"
    by (rule line_other_read)
  then have "line_inv W l' k0 k (ss_up s) es" using assms(7) by simp
  ultimately have "session_ok W a k0 l0 k l' es (fs @ ms) rs
      (s\<lparr>ss_client := (ss_client s)\<lparr>ci_connection := Some l', ci_incomming := q\<rparr>,
         ss_down := (ss_down s)\<lparr>ln_read := ln_read (ss_down s) @ bs\<rparr>\<rparr>)"
    using assms(1,7) ms by (simp add: session_ok_def)
  then show ?thesis by blast
qed

text \<open>A read that fails.\<close>

lemma server_read_fails_ok:
  assumes "session_ok W a k0 l0 k l es fs rs s"
  shows "session_inv W a k0 l0 (s\<lparr>ss_server := put_conn a (on_read W None k (m_incomming (ss_server s))) (ss_server s)\<rparr>)"
proof -
  let ?k = "fst (on_read W None k (m_incomming (ss_server s)))"
  from assms have "line_inv W l k0 k (ss_up s) es" "line_inv W k l0 l (ss_down s) fs" by (simp_all add: session_ok_def)
  then have "line_inv W l k0 ?k (ss_up s) es" "line_inv W ?k l0 l (ss_down s) fs"
    by (blast intro: line_error line_other_read)+
  then have "session_ok W a k0 l0 ?k l es fs rs (s\<lparr>ss_server := put_conn a (on_read W None k (m_incomming (ss_server s))) (ss_server s)\<rparr>)"
    using assms on_read_ends [of W None k] on_read_sender(2) [of W None k]
    by (simp add: session_ok_def from_client_def on_read_error)
  then show ?thesis by blast
qed

lemma client_read_fails_ok:
  assumes "session_ok W a k0 l0 k l es fs rs s" and "on_read W None l (ci_incomming (ss_client s)) = (l', q)"
  shows "session_inv W a k0 l0 (s\<lparr>ss_client := (ss_client s)\<lparr>ci_connection := Some l', ci_incomming := q\<rparr>\<rparr>)"
proof -
  let ?l = "fst (on_read W None l (ci_incomming (ss_client s)))"
  from assms(1) have "line_inv W k l0 l (ss_down s) fs" "line_inv W l k0 k (ss_up s) es" by (simp_all add: session_ok_def)
  then have "line_inv W k l0 ?l (ss_down s) fs" "line_inv W ?l k0 k (ss_up s) es"
    by (blast intro: line_error line_other_read)+
  moreover have "q = ci_incomming (ss_client s)" using assms(2) on_read_error(2) [of W l "ci_incomming (ss_client s)"] by simp
  ultimately have "session_ok W a k0 l0 k l' es fs rs (s\<lparr>ss_client := (ss_client s)\<lparr>ci_connection := Some l', ci_incomming := q\<rparr>\<rparr>)"
    using assms by (simp add: session_ok_def)
  then show ?thesis by blast
qed

text \<open>The loops.\<close>

lemma server_handles_ok:
  assumes "session_ok W a k0 l0 k l es fs rs s" and "m_queue (m_incomming (ss_server s)) = x # xs"
    and "update (change_server_virtuals E) 1 (ss_server s) = Inr sv'"
  shows "session_inv W a k0 l0 (s\<lparr>ss_server := sv', ss_served := ss_served s @ [msg x],
      ss_handled := ss_handled s @ (if remote x = Some a then [msg x] else [])\<rparr>)"
proof -
  from assms(1) have k: "sv_conns (ss_server s) a = Some k" by (simp add: session_ok_def)
  from update_one_conn [OF assms(2,3) k] obtain ms where ms: "m_queue (m_incomming sv') = xs"
      "sv_conns sv' a = Some (sent ms k)" "if remote x = Some a then answered (msg x) ms else ms = []"
    by blast
  let ?rs = "rs @ (if remote x = Some a then [ms] else [])"
  have "line_inv W l k0 (sent ms k) (ss_up s) es" "line_inv W (sent ms k) l0 l (ss_down s) fs"
    using assms(1) by (auto simp: session_ok_def intro: line_same)
  then have "session_ok W a k0 l0 (sent ms k) l es fs ?rs (s\<lparr>ss_server := sv', ss_served := ss_served s @ [msg x],
      ss_handled := ss_handled s @ (if remote x = Some a then [msg x] else [])\<rparr>)"
    using assms(1,2) ms
    by (cases "remote x = Some a") (simp_all add: session_ok_def from_client_def list_all2_appendI flip: append_assoc)
  then show ?thesis by blast
qed

lemma process_queue:
  assumes "process_server_commands C c = Inr (os, c')"
  shows "ci_connection c' = ci_connection c \<and> m_queue (ci_incomming c') = drop 1 (m_queue (ci_incomming c))"
  using assms by (auto simp: process_server_commands_def queue_empty_def pop_front_def rbind_eq_Inr_iff drop_Suc
      split: if_split_asm)

lemma client_processes_ok:
  assumes "session_ok W a k0 l0 k l es fs rs s" and "process_server_commands C (ss_client s) = Inr (os, cl')"
  shows "session_ok W a k0 l0 k l es fs rs (s\<lparr>ss_client := cl',
      ss_seen := ss_seen s @ map msg (take 1 (m_queue (ci_incomming (ss_client s))))\<rparr>)"
  using assms(1) process_queue [OF assms(2)] by (simp add: session_ok_def flip: map_append)

lemma client_leaves_ok:
  assumes "session_ok W a k0 l0 k l es fs rs s"
  shows "session_ok W a k0 l0 k l es fs rs (s\<lparr>ss_client := ci_disconnect (ss_client s)\<rparr>)"
proof -
  have "ci_connection (ci_disconnect c) = None" "ci_incomming (ci_disconnect c) = ci_incomming c" for c :: change_client
    by (simp_all add: ci_disconnect_def Let_def)
  with assms show ?thesis by (simp add: session_ok_def)
qed

lemma end_step_inv:
  assumes "end_step C W a s t" and "session_inv W a k0 l0 s" and "0 < w_size W"
  shows "session_inv W a k0 l0 t"
proof -
  from assms(2) obtain k l es fs rs where ok: "session_ok W a k0 l0 k l es fs rs s" by (auto simp: session_inv_def)
  then have k: "sv_conns (ss_server s) a = Some k'' \<Longrightarrow> k'' = k" and l: "ci_connection (ss_client s) = Some l'' \<Longrightarrow> l'' = l" for k'' l''
    by (auto simp: session_ok_def)
  from assms(1) show ?thesis
  proof (cases rule: end_step.cases)
    case (client_sends l1 l' out log)
    with client_sends_ok [OF ok, of l' out log] l [of l1] show ?thesis by blast
  next
    case (server_reads k1 bs later)
    with server_reads_ok [OF ok _ assms(3), of bs later] k [of k1] show ?thesis by blast
  next
    case (server_read_fails k1)
    with server_read_fails_ok [OF ok] k [of k1] show ?thesis by blast
  next
    case (server_writes k1 k' out log)
    with server_writes_ok [OF ok, of k' out log] k [of k1] show ?thesis by blast
  next
    case (client_reads l1 bs later l' q)
    with client_reads_ok [OF ok _ _ assms(3), of bs later l' q] l [of l1] show ?thesis by blast
  next
    case (client_read_fails l1 l' q)
    with client_read_fails_ok [OF ok, of l' q] l [of l1] show ?thesis by blast
  next
    case (client_processes os cl')
    with client_processes_ok [OF ok] show ?thesis by blast
  next
    case client_leaves
    with client_leaves_ok [OF ok] show ?thesis by blast
  qed
qed

lemma session_step_inv:
  assumes "session_step E C W a s t" and "session_inv W a k0 l0 s" and "0 < w_size W"
  shows "session_inv W a k0 l0 t"
  using assms(1)
proof (cases rule: session_step.cases)
  case alone
  then show ?thesis
  proof (cases rule: alone_step.cases)
    case own
    then show ?thesis using assms(2,3) by (rule end_step_inv)
  next
    case (server_handles x xs sv')
    with assms(2) show ?thesis using server_handles_ok unfolding session_inv_def by blast
  qed
next
  case (others sv')
  from assms(2) obtain k l es fs rs where "session_ok W a k0 l0 k l es fs rs s" by (auto simp: session_inv_def)
  with others have "session_ok W a k0 l0 k l es fs rs t" by (simp add: session_ok_def)
  then show ?thesis by blast
qed

lemma session_reach_inv:
  assumes "session_reach E C W a s0 s" and "fresh_session a k0 l0 s0" and "0 < w_size W"
  shows "session_inv W a k0 l0 s"
  using assms
proof (induction rule: session_reach.induct)
  case session_start
  then show ?case using session_start_ok by blast
next
  case (session_next s t)
  then show ?case by (blast intro: session_step_inv)
qed

text \<open>Nothing but handling a message changes the collections.\<close>

lemma end_step_server:
  assumes "end_step C W a s t"
  shows "m_state (ss_server t) = m_state (ss_server s)" "ss_served t = ss_served s" "ss_handled t = ss_handled s"
  using assms by (cases; simp)+

section \<open>Requests that go through\<close>

text \<open>A connected end with one message to send writes its frame.\<close>

lemma message_written:
  assumes "cn_tasks c = [Push_message m]" and "cn_open c" and "cn_writing c = No_io" and "m_queue (cn_outbound c) = []"
    and "body m \<noteq> []"
  shows "\<exists>c'. (io_step W)\<^sup>*\<^sup>* (c, out, log) (c', out @ frame W m, log @ [m]) \<and> same_reader c c' \<and>
    is_connected c' = is_connected c \<and> m_queue (cn_outbound c') = [] \<and> cn_tasks c' = []"
proof -
  let ?c2 = "next_task c"
  let ?c3 = "write_body ?c2"
  let ?c4 = "?c3\<lparr>cn_outbound := (cn_outbound ?c3)\<lparr>m_queue := []\<rparr>, cn_writing := No_io\<rparr>"
  have c2: "?c2 = c\<lparr>cn_tasks := [], cn_outbound := (cn_outbound c)\<lparr>m_queue := [m]\<rparr>, cn_writing := Header_io\<rparr>"
    using assms by (simp add: next_task_def run_task_def queue_empty_def push_back_def write_header_def)
  have front: "queue_front (cn_outbound ?c2) = Inr m" by (simp add: c2 queue_front_def)
  have "io_step W (c, out, log) (?c2, out, log @ [m])"
    using send_task [OF assms(1), of W out log] posted_task [OF assms(1), of out log] by (simp add: io_step_def)
  moreover have "io_step W (?c2, out, log @ [m]) (?c3, out @ w_enc W (header m), log @ [m])"
    using send_header [of ?c2 m ?c3 W out "log @ [m]"] front assms(2,5)
    by (simp add: io_step_def accepted_def posted_def c2 on_header_written_def write_body_def)
  moreover have "io_step W (?c3, out @ w_enc W (header m), log @ [m]) (?c4, (out @ w_enc W (header m)) @ body m, log @ [m])"
    using send_body [of ?c3 m ?c4 W "out @ w_enc W (header m)" "log @ [m]"] assms(2)
    by (simp add: io_step_def accepted_def posted_def c2 write_body_def queue_front_def on_body_written_def write_next_eval)
  ultimately have "(io_step W)\<^sup>*\<^sup>* (c, out, log) (?c4, out @ frame W m, log @ [m])"
    by (auto simp: frame_def intro: converse_rtranclp_into_rtranclp)
  moreover have "same_reader c ?c4 \<and> is_connected ?c4 = is_connected c \<and> m_queue (cn_outbound ?c4) = [] \<and> cn_tasks ?c4 = []"
    by (simp add: c2 write_body_def same_reader_def is_connected_def)
  ultimately show ?thesis by blast
qed

text \<open>What an end does on its own is done in the session.\<close>

definition client_at :: "u32 connection \<times> u8 list \<times> u32 message list \<Rightarrow> 'j session \<Rightarrow> 'j session" where
  "client_at p s = s\<lparr>ss_client := (ss_client s)\<lparr>ci_connection := Some (fst p)\<rparr>,
     ss_up := (ss_up s)\<lparr>ln_out := fst (snd p), ln_log := snd (snd p)\<rparr>\<rparr>"

definition server_at :: "nat \<Rightarrow> u32 connection \<times> u8 list \<times> u32 message list \<Rightarrow> 'j session \<Rightarrow> 'j session" where
  "server_at a p s = s\<lparr>ss_server := put_conn a (fst p, m_incomming (ss_server s)) (ss_server s),
     ss_down := (ss_down s)\<lparr>ln_out := fst (snd p), ln_log := snd (snd p)\<rparr>\<rparr>"

lemma client_io:
  assumes "(io_step W)\<^sup>*\<^sup>* p p'" and "alone_reach E C W a s0 (client_at p s)"
  shows "alone_reach E C W a s0 (client_at p' s)"
  using assms(1)
proof (induction rule: rtranclp_induct)
  case (step p1 p2)
  obtain l1 out1 log1 l2 out2 log2 where p: "p1 = (l1, out1, log1)" "p2 = (l2, out2, log2)" by (metis prod_cases3)
  have "alone_step E C W a (client_at p1 s) (client_at p2 s)"
    using own [OF client_sends [of "client_at p1 s" l1 W l2 out2 log2 C a], of E] step(2) p by (simp add: client_at_def io_step_def)
  with step(3) show ?case by (rule alone_next)
qed (rule assms(2))

lemma server_io:
  assumes "(io_step W)\<^sup>*\<^sup>* p p'" and "alone_reach E C W a s0 (server_at a p s)"
  shows "alone_reach E C W a s0 (server_at a p' s)"
  using assms(1)
proof (induction rule: rtranclp_induct)
  case (step p1 p2)
  obtain l1 out1 log1 l2 out2 log2 where p: "p1 = (l1, out1, log1)" "p2 = (l2, out2, log2)" by (metis prod_cases3)
  have "alone_step E C W a (server_at a p1 s) (server_at a p2 s)"
    using own [OF server_writes [of "server_at a p1 s" a l1 W l2 out2 log2 C], of E] step(2) p by (simp add: server_at_def put_conn_def)
  with step(3) show ?case by (rule alone_next)
qed (rule assms(2))

lemma server_receives:
  assumes "receive W k (m_incomming (ss_server s)) bs = (k', q', [])" and "unread (ss_up s) = bs @ later"
    and "sv_conns (ss_server s) a = Some k" and "alone_reach E C W a s0 s"
  shows "alone_reach E C W a s0 (s\<lparr>ss_server := put_conn a (k', q') (ss_server s),
    ss_up := (ss_up s)\<lparr>ln_read := ln_read (ss_up s) @ bs\<rparr>\<rparr>)"
  using assms
proof (induction "length bs" arbitrary: bs k s rule: less_induct)
  case less
  let ?n = "wanted W k"
  show ?case
  proof (cases "?n = 0 \<or> length bs < ?n")
    case True
    with less.prems(1) have "bs = []" "k' = k" "q' = m_incomming (ss_server s)" by (auto simp: receive_unfold [of W k])
    moreover from this have "s\<lparr>ss_server := put_conn a (k', q') (ss_server s), ss_up := (ss_up s)\<lparr>ln_read := ln_read (ss_up s) @ bs\<rparr>\<rparr> = s"
      using less.prems(3) by (auto intro!: session.equality change_server.equality line.equality simp: put_conn_def fun_upd_idem)
    ultimately show ?thesis using less.prems(4) by simp
  next
    case False
    let ?r = "on_read W (Some (take ?n bs)) k (m_incomming (ss_server s))"
    let ?s = "s\<lparr>ss_server := put_conn a ?r (ss_server s), ss_up := (ss_up s)\<lparr>ln_read := ln_read (ss_up s) @ take ?n bs\<rparr>\<rparr>"
    have "cn_reading k \<noteq> No_io" using False by (auto simp: wanted_def)
    then have "alone_step E C W a s ?s"
      using False less.prems(2,3) by (intro own server_reads [of s a k "take ?n bs" "drop ?n bs @ later"]) (simp_all flip: append_assoc)
    with less.prems(4) have reach: "alone_reach E C W a s0 ?s" by (rule alone_next)
    have "receive W (fst ?r) (m_incomming (ss_server ?s)) (drop ?n bs) = (k', q', [])"
      using less.prems(1) False by (simp add: receive_unfold [of W k])
    moreover have "unread (ss_up ?s) = drop ?n bs @ later"
      using unread_read [OF less.prems(2), of ?n] False by simp
    moreover have "length (drop ?n bs) < length bs" using False by auto
    ultimately have "alone_reach E C W a s0 (?s\<lparr>ss_server := put_conn a (k', q') (ss_server ?s),
        ss_up := (ss_up ?s)\<lparr>ln_read := ln_read (ss_up ?s) @ drop ?n bs\<rparr>\<rparr>)"
      using reach by (intro less.hyps) simp_all
    then show ?thesis by (simp add: put_conn_def)
  qed
qed

lemma client_receives:
  assumes "receive W l (ci_incomming (ss_client s)) bs = (l', q', [])" and "unread (ss_down s) = bs @ later"
    and "ci_connection (ss_client s) = Some l" and "alone_reach E C W a s0 s"
  shows "alone_reach E C W a s0 (s\<lparr>ss_client := (ss_client s)\<lparr>ci_connection := Some l', ci_incomming := q'\<rparr>,
    ss_down := (ss_down s)\<lparr>ln_read := ln_read (ss_down s) @ bs\<rparr>\<rparr>)"
  using assms
proof (induction "length bs" arbitrary: bs l s rule: less_induct)
  case less
  let ?n = "wanted W l"
  show ?case
  proof (cases "?n = 0 \<or> length bs < ?n")
    case True
    with less.prems(1) have "bs = []" "l' = l" "q' = ci_incomming (ss_client s)" by (auto simp: receive_unfold [of W l])
    moreover from this have "s\<lparr>ss_client := (ss_client s)\<lparr>ci_connection := Some l', ci_incomming := q'\<rparr>, ss_down := (ss_down s)\<lparr>ln_read := ln_read (ss_down s) @ bs\<rparr>\<rparr> = s"
      using less.prems(3) by (auto intro!: session.equality change_client.equality line.equality)
    ultimately show ?thesis using less.prems(4) by simp
  next
    case False
    obtain l1 q1 where r: "on_read W (Some (take ?n bs)) l (ci_incomming (ss_client s)) = (l1, q1)" by fastforce
    let ?s = "s\<lparr>ss_client := (ss_client s)\<lparr>ci_connection := Some l1, ci_incomming := q1\<rparr>,
      ss_down := (ss_down s)\<lparr>ln_read := ln_read (ss_down s) @ take ?n bs\<rparr>\<rparr>"
    have "cn_reading l \<noteq> No_io" using False by (auto simp: wanted_def)
    then have "alone_step E C W a s ?s"
      using False less.prems(2,3) r
      by (intro own client_reads [of s l "take ?n bs" "drop ?n bs @ later"]) (simp_all flip: append_assoc)
    with less.prems(4) have reach: "alone_reach E C W a s0 ?s" by (rule alone_next)
    have "receive W l1 (ci_incomming (ss_client ?s)) (drop ?n bs) = (l', q', [])"
      using less.prems(1) False r by (simp add: receive_unfold [of W l])
    moreover have "unread (ss_down ?s) = drop ?n bs @ later"
      using unread_read [OF less.prems(2), of ?n] False by simp
    moreover have "length (drop ?n bs) < length bs" using False by auto
    ultimately have "alone_reach E C W a s0 (?s\<lparr>ss_client := (ss_client ?s)\<lparr>ci_connection := Some l', ci_incomming := q'\<rparr>,
        ss_down := (ss_down ?s)\<lparr>ln_read := ln_read (ss_down ?s) @ drop ?n bs\<rparr>\<rparr>)"
      using reach by (intro less.hyps) simp_all
    then show ?thesis by simp
  qed
qed

text \<open>A message that is read by an end which has not read one before.\<close>

lemma framable_receives:
  assumes "wire_format W" and "framable m" and "cn_reading c = Header_io" and "cn_temp_in c = new_message 0"
  shows "receive W c q (frame W m) = (c\<lparr>cn_temp_in := untimed m\<rparr>, push_back (arrival c (untimed m)) q, [])"
proof -
  have "untimed m = (new_message 0)\<lparr>header := header m, body := body m\<rparr>" by (simp add: untimed_def new_message_def)
  then show ?thesis
    using wire_format.receive_frame [OF assms(1,3), of m q "[]"] assms(2,4) by (simp add: framable_def Let_def)
qed

lemma framable_validates: "framable m \<Longrightarrow> validate m"
  by (simp add: framable_def sendable_def finalized_def validate_iff)

lemma untimed_simps [simp]:
  "header (untimed m) = header m" "body (untimed m) = body m" "validate (untimed m) = validate m"
  by (simp_all add: untimed_def)

text \<open>The server has the request: it is handled, and the reply is posted if there is one.\<close>

lemma request_handled:
  assumes "m_queue (m_incomming sv) = [\<lparr>remote = Some a, msg = m\<rparr>]" and "sv_conns sv a = Some k" and "is_connected k"
    and "validate m" and "msg_id (header m) = type_number (request_type q)"
    and "d_from_cbor (se_docs E) (body m) = Inr (request_doc (se_json E) q)"
    and "serve (se_json E) (se_docs E) (se_fs E) q (m_state sv) = Inr (ok, st)"
  shows "\<exists>sv'. update (change_server_virtuals E) 1 sv = Inr sv' \<and> m_state sv' = st \<and> m_queue (m_incomming sv') = [] \<and>
    sv_conns sv' a = Some (sent (if ok then [m_success E] else []) k)"
proof -
  let ?sv = "sv\<lparr>m_incomming := (m_incomming sv)\<lparr>m_queue := []\<rparr>\<rparr>"
  have valid: "valid_client (Some a) ?sv" using assms(2) by (simp add: valid_client_def)
  have "cs_message E (Some a) m ?sv = reply_if E (Some a) (serve (se_json E) (se_docs E) (se_fs E) q (m_state ?sv)) ?sv"
    using m_process_request [OF _ valid, of E m q] assms(4-6) by (simp add: cs_message_def msg_to_json_def)
  with reply_if_Inr [OF valid, of _ ok st E] assms(7) obtain sv'
    where sv': "cs_message E (Some a) m ?sv = Inr sv'" "m_state sv' = st"
      "answers (Some a) (if ok then [m_success E] else []) ?sv sv'" by auto
  have "update (change_server_virtuals E) 1 sv = Inr sv'"
    using sv'(1) assms(1) by (simp add: update_def queue_empty_def pop_front_def change_server_virtuals_def)
  moreover have "m_queue (m_incomming sv') = []" using sv'(3) by (simp add: answers_def)
  moreover have "client_connected (Some a) ?sv" using assms(2,3) by (simp add: client_connected_def)
  then have "sv_conns sv' a = Some (sent (if ok then [m_success E] else []) k)"
    using sv'(3) assms(2) by (simp add: answers_def)
  ultimately show ?thesis using sv'(2) by blast
qed

lemma request_delivered:
  assumes "wire_format W" and "fresh_session a k0 l0 s" and "is_connected k0" and "is_connected l0"
    and "m_queue (m_incomming (ss_server s)) = []" and "framable m" and "msg_id (header m) = type_number (request_type q)"
    and "d_from_cbor (se_docs E) (body m) = Inr (request_doc (se_json E) q)"
    and "serve (se_json E) (se_docs E) (se_fs E) q (m_state (ss_server s)) = Inr (ok, st)"
  shows "\<exists>t l. alone_reach E C W a s t \<and> m_state (ss_server t) = st \<and> m_queue (m_incomming (ss_server t)) = [] \<and>
    sv_conns (ss_server t) a = Some (sent (if ok then [m_success E] else []) (k0\<lparr>cn_temp_in := untimed m\<rparr>)) \<and>
    ss_client t = (ss_client s)\<lparr>ci_connection := Some l\<rparr> \<and> same_reader l0 l \<and> is_connected l \<and>
    m_queue (cn_outbound l) = [] \<and> unread (ss_up t) = [] \<and> ln_log (ss_up t) = [m] \<and> ss_down t = new_line \<and>
    ss_handled t = [untimed m] \<and> ss_seen t = []"
proof -
  from assms(2) have k0: "sv_conns (ss_server s) a = Some k0" "fresh_end k0" "cn_self k0 = a" "cn_owner k0 = Owner_server"
    and l0: "ci_connection (ss_client s) = Some l0" "fresh_end l0"
    and s: "ss_up s = new_line" "ss_down s = new_line" "ss_handled s = []" "ss_seen s = []"
    by (simp_all add: fresh_session_def)
  let ?l1 = "send_message m l0"
  have l1: "cn_tasks ?l1 = [Push_message m]" "cn_open ?l1" "cn_writing ?l1 = No_io" "m_queue (cn_outbound ?l1) = []"
    "is_connected ?l1" "same_reader l0 ?l1"
    using l0(2) assms(4) by (simp_all add: send_message_def fresh_end_def is_connected_def same_reader_def)
  have "alone_step E C W a s (client_at (?l1, [], []) s)"
    using own [OF client_sends [of s l0 W ?l1 "[]" "[]" C a], of E] send_post [of W l0 "[]" "[]" m] l0(1) s(1) by (simp add: client_at_def)
  with alone_start have "alone_reach E C W a s (client_at (?l1, [], []) s)" by (rule alone_next)
  moreover obtain l where l: "(io_step W)\<^sup>*\<^sup>* (?l1, [], []) (l, [] @ frame W m, [] @ [m])" "same_reader ?l1 l"
      "is_connected l = is_connected ?l1" "m_queue (cn_outbound l) = []"
    using message_written [OF l1(1-4), of W "[]" "[]"] assms(6) by (auto simp: framable_def)
  ultimately have reach2: "alone_reach E C W a s (client_at (l, frame W m, [m]) s)"
    using client_io by force
  let ?s2 = "client_at (l, frame W m, [m]) s"
  let ?k1 = "k0\<lparr>cn_temp_in := untimed m\<rparr>"
  have server2: "ss_server ?s2 = ss_server s" "ss_up ?s2 = \<lparr>ln_out = frame W m, ln_read = [], ln_log = [m]\<rparr>"
    by (simp_all add: client_at_def s(1) new_line_def)
  have "receive W k0 (m_incomming (ss_server ?s2)) (frame W m) =
      (?k1, push_back (arrival k0 (untimed m)) (m_incomming (ss_server s)), [])"
    using framable_receives [OF assms(1,6), of k0] k0(2) server2(1) by (simp add: fresh_end_def)
  from server_receives [OF this _ _ reach2, of "[]"]
  have reach3: "alone_reach E C W a s (?s2\<lparr>ss_server := put_conn a (?k1, push_back (arrival k0 (untimed m)) (m_incomming (ss_server s))) (ss_server s),
      ss_up := \<lparr>ln_out = frame W m, ln_read = frame W m, ln_log = [m]\<rparr>\<rparr>)" (is "alone_reach E C W a s ?s3")
    using server2 k0(1) by (simp add: unread_def)
  have q3: "m_queue (m_incomming (ss_server ?s3)) = [\<lparr>remote = Some a, msg = untimed m\<rparr>]"
    using assms(5) k0(3,4) by (simp add: push_back_def arrival_def)
  have k1: "sv_conns (ss_server ?s3) a = Some ?k1" "is_connected ?k1" "m_state (ss_server ?s3) = m_state (ss_server s)"
    using assms(3) by (simp_all add: is_connected_def)
  obtain sv' where sv': "update (change_server_virtuals E) 1 (ss_server ?s3) = Inr sv'" "m_state sv' = st"
      "m_queue (m_incomming sv') = []" "sv_conns sv' a = Some (sent (if ok then [m_success E] else []) ?k1)"
    using request_handled [OF q3 k1(1,2), of q E ok st] framable_validates [OF assms(6)] assms(7-9) k1(3) by auto
  let ?t = "?s3\<lparr>ss_server := sv', ss_served := ss_served ?s3 @ [untimed m], ss_handled := ss_handled ?s3 @ [untimed m]\<rparr>"
  have "alone_step E C W a ?s3 ?t" using server_handles [OF q3 sv'(1), where C = C and W = W and a = a] by simp
  with reach3 have "alone_reach E C W a s ?t" by (rule alone_next)
  moreover have "ss_client ?t = (ss_client s)\<lparr>ci_connection := Some l\<rparr>" "ss_handled ?t = [untimed m]" "ss_seen ?t = []"
    "ss_down ?t = new_line" "unread (ss_up ?t) = []" "ln_log (ss_up ?t) = [m]"
    by (simp_all add: client_at_def s unread_def new_line_def)
  moreover have "same_reader l0 l" "is_connected l" using l(2,3) l1(5,6) same_reader_trans by auto
  ultimately show ?thesis using sv'(2-4) l(4) by (intro exI [of _ ?t] exI [of _ l]) simp
qed

lemma reply_delivered:
  assumes "wire_format W" and "alone_reach E C W a s t" and "framable r" and "process_reply C (untimed r) = Inr (os, b)"
    and "sv_conns (ss_server t) a = Some (sent [r] k)" and "cn_tasks k = []" and "is_connected k"
    and "cn_writing k = No_io" and "m_queue (cn_outbound k) = []" and "ss_down t = new_line"
    and "ci_connection (ss_client t) = Some l" and "is_connected l" and "cn_reading l = Header_io"
    and "cn_temp_in l = new_message 0" and "m_queue (ci_incomming (ss_client t)) = []" and "cc_processing (ss_client t)"
  shows "\<exists>u k' l'. alone_reach E C W a s u \<and> m_state (ss_server u) = m_state (ss_server t) \<and>
    m_incomming (ss_server u) = m_incomming (ss_server t) \<and> ss_up u = ss_up t \<and> ss_handled u = ss_handled t \<and>
    ss_seen u = ss_seen t @ [untimed r] \<and> unread (ss_down u) = [] \<and> ln_log (ss_down u) = [r] \<and> m_queue (ci_incomming (ss_client u)) = [] \<and>
    sv_conns (ss_server u) a = Some k' \<and> m_queue (cn_outbound k') = [] \<and> cn_tasks k' = [] \<and>
    ci_connection (ss_client u) = Some l' \<and> cn_outbound l' = cn_outbound l \<and> cc_processing (ss_client u) = (\<not> b)"
proof -
  let ?k = "sent [r] k"
  have "server_at a (?k, [], []) t = t"
    using assms(5,10) by (auto intro!: session.equality change_server.equality line.equality
      simp: server_at_def put_conn_def fun_upd_idem)
  moreover have k: "cn_tasks ?k = [Push_message r]" "cn_open ?k" "cn_writing ?k = No_io" "m_queue (cn_outbound ?k) = []"
    using assms(6-9) by (simp_all add: sent_def is_connected_def)
  moreover obtain k' where k': "(io_step W)\<^sup>*\<^sup>* (?k, [], []) (k', [] @ frame W r, [] @ [r])"
      "m_queue (cn_outbound k') = []" "cn_tasks k' = []"
    using message_written [OF k, of W "[]" "[]"] assms(3) by (auto simp: framable_def)
  ultimately have reach2: "alone_reach E C W a s (server_at a (k', frame W r, [r]) t)"
    using server_io [OF k'(1)] assms(2) by force
  let ?t2 = "server_at a (k', frame W r, [r]) t"
  let ?l = "l\<lparr>cn_temp_in := untimed r\<rparr>" and ?q = "push_back (arrival l (untimed r)) (ci_incomming (ss_client t))"
  have t2: "ss_client ?t2 = ss_client t" "ss_down ?t2 = \<lparr>ln_out = frame W r, ln_read = [], ln_log = [r]\<rparr>"
    using assms(10) by (simp_all add: server_at_def new_line_def)
  have "receive W l (ci_incomming (ss_client ?t2)) (frame W r) = (?l, ?q, [])"
    using framable_receives [OF assms(1,3,13,14)] t2(1) by simp
  from client_receives [OF this _ _ reach2, of "[]"]
  have reach3: "alone_reach E C W a s (?t2\<lparr>ss_client := (ss_client t)\<lparr>ci_connection := Some ?l, ci_incomming := ?q\<rparr>,
      ss_down := \<lparr>ln_out = frame W r, ln_read = frame W r, ln_log = [r]\<rparr>\<rparr>)" (is "alone_reach E C W a s ?t3")
    using t2 assms(11) by (simp add: unread_def)
  let ?cl = "(ss_client ?t3)\<lparr>ci_incomming := ?q\<lparr>m_queue := []\<rparr>, cc_processing := \<not> b\<rparr>"
  have q: "m_queue ?q = [arrival l (untimed r)]" using assms(15) by (simp add: push_back_def)
  have "process_server_commands C (ss_client ?t3) = Inr (os, ?cl)"
    using assms(4) q framable_validates [OF assms(3)]
    by (simp add: process_server_commands_def queue_empty_def pop_front_def arrival_def)
  moreover have "looping (ss_client ?t3)" using assms(12,16) by (simp add: looping_def ci_is_connected_def is_connected_def)
  ultimately have "alone_step E C W a ?t3 (?t3\<lparr>ss_client := ?cl, ss_seen := ss_seen ?t3 @ map msg (take 1 (m_queue (ci_incomming (ss_client ?t3))))\<rparr>)"
    by (intro own client_processes)
  with reach3 have "alone_reach E C W a s (?t3\<lparr>ss_client := ?cl, ss_seen := ss_seen ?t3 @ map msg (take 1 (m_queue (ci_incomming (ss_client ?t3))))\<rparr>)"
    by (rule alone_next)
  then show ?thesis
    using k'(2,3) q
    by (intro exI [of _ "?t3\<lparr>ss_client := ?cl, ss_seen := ss_seen ?t3 @ map msg (take 1 (m_queue (ci_incomming (ss_client ?t3))))\<rparr>"]
        exI [of _ k'] exI [of _ ?l]) (simp add: server_at_def unread_def arrival_def put_conn_def)
qed

section \<open>Properties\<close>

lemma success_processed: "process_reply C (untimed (m_success E)) = Inr ([], True)"
  by (simp add: process_reply_def)

lemma request_goes_through:
  assumes "wire_format W" and "fresh_session a k0 l0 s" and "is_connected k0" and "is_connected l0"
    and "m_queue (m_incomming (ss_server s)) = []" and "cc_processing (ss_client s)"
    and "framable m" and "msg_id (header m) = type_number (request_type q)"
    and "d_from_cbor (se_docs E) (body m) = Inr (request_doc (se_json E) q)"
    and "serve (se_json E) (se_docs E) (se_fs E) q (m_state (ss_server s)) = Inr (ok, st)" and "framable (m_success E)"
  shows "\<exists>t. alone_reach E C W a s t \<and> m_state (ss_server t) = st \<and> ss_handled t = [untimed m] \<and>
    ss_seen t = (if ok then [untimed (m_success E)] else []) \<and> up_idle a t \<and> down_idle a t \<and>
    (cc_processing (ss_client t) \<longleftrightarrow> \<not> ok) \<and> ln_log (ss_up t) = [m] \<and>
    ln_log (ss_down t) = (if ok then [m_success E] else []) \<and> m_queue (m_incomming (ss_server t)) = []"
proof -
  let ?k = "k0\<lparr>cn_temp_in := untimed m\<rparr>"
  from request_delivered [OF assms(1-5,7-10)] obtain t l where t: "alone_reach E C W a s t" "m_state (ss_server t) = st"
      "m_queue (m_incomming (ss_server t)) = []" "sv_conns (ss_server t) a = Some (sent (if ok then [m_success E] else []) ?k)"
      "ss_client t = (ss_client s)\<lparr>ci_connection := Some l\<rparr>" "same_reader l0 l" "is_connected l" "m_queue (cn_outbound l) = []"
      "unread (ss_up t) = []" "ss_down t = new_line" "ss_handled t = [untimed m]" "ss_seen t = []" "ln_log (ss_up t) = [m]"
    by blast
  from assms(2) have ends: "fresh_end k0" "fresh_end l0" "m_queue (ci_incomming (ss_client s)) = []"
    by (simp_all add: fresh_session_def)
  have client: "ci_connection (ss_client t) = Some l" "cn_reading l = Header_io" "cn_temp_in l = new_message 0"
    "m_queue (ci_incomming (ss_client t)) = []" "cc_processing (ss_client t)"
    using t(5,6) ends assms(6) by (simp_all add: fresh_end_def same_reader_def)
  have up: "up_idle a u" if "m_incomming (ss_server u) = m_incomming (ss_server t)" "ss_up u = ss_up t"
      "ci_connection (ss_client u) = Some l'" "m_queue (cn_outbound l') = []" for u :: "'j session" and l'
    using that t(3,9) by (simp add: up_idle_def from_client_def)
  show ?thesis
  proof (cases ok)
    case False
    have "down_idle a t"
      using False t(4,10) client(4) ends(1) by (simp add: down_idle_def fresh_end_def posted_def unread_def)
    with False t client up [of t l] show ?thesis by (intro exI [of _ t]) simp
  next
    case True
    have k: "sv_conns (ss_server t) a = Some (sent [m_success E] ?k)" "cn_tasks ?k = []" "is_connected ?k"
      "cn_writing ?k = No_io" "m_queue (cn_outbound ?k) = []"
      using True t(4) ends(1) assms(3) by (simp_all add: fresh_end_def is_connected_def)
    from reply_delivered [OF assms(1) t(1) assms(11) success_processed k t(10) client(1) t(7) client(2-5)]
    obtain u k' l' where u: "alone_reach E C W a s u" "m_state (ss_server u) = m_state (ss_server t)"
        "m_incomming (ss_server u) = m_incomming (ss_server t)" "ss_up u = ss_up t" "ss_handled u = ss_handled t"
        "ss_seen u = ss_seen t @ [untimed (m_success E)]" "unread (ss_down u) = []" "m_queue (ci_incomming (ss_client u)) = []"
        "sv_conns (ss_server u) a = Some k'" "m_queue (cn_outbound k') = []" "cn_tasks k' = []"
        "ci_connection (ss_client u) = Some l'" "cn_outbound l' = cn_outbound l" "cc_processing (ss_client u) = (\<not> True)"
        "ln_log (ss_down u) = [m_success E]"
      by blast
    have "up_idle a u" using up [of u l'] u(3,4,12,13) t(8) by simp
    moreover have "down_idle a u" using u(7-11) by (simp add: down_idle_def posted_def)
    ultimately show ?thesis using True t u by (intro exI [of _ u]) simp
  qed
qed

text \<open>
  However asio completes reads and writes, whatever the other clients do, and wherever a read or
  write fails: what the server handles of a client's messages is a beginning of what the client
  sent, in order; each handled message has at most one reply, of a type for it; and what the client
  processes is a beginning of these replies. Once a direction is idle, everything sent in it has
  been taken out.
\<close>

lemma session_in_order:
  assumes "wire_format W" and "fresh_session a k0 l0 s0" and "session_reach E C W a s0 s"
    and "list_all framable (ln_log (ss_up s))" and "list_all framable (ln_log (ss_down s))"
  shows "prefix (ss_handled s) (map untimed (ln_log (ss_up s))) \<and>
    (up_idle a s \<longrightarrow> ss_handled s = map untimed (ln_log (ss_up s))) \<and>
    (\<exists>rs. list_all2 answered (ss_handled s) rs \<and> prefix (ss_seen s) (map untimed (concat rs)) \<and>
       (down_idle a s \<longrightarrow> ss_seen s = map untimed (concat rs)))"
proof -
  have size: "0 < w_size W" using assms(1) by (simp add: wire_format_def)
  from session_reach_inv [OF assms(3,2) size] obtain k l es fs rs where ok: "session_ok W a k0 l0 k l es fs rs s"
    by (auto simp: session_inv_def)
  from assms(2) have start: "cn_reading k0 = Header_io" "time (cn_temp_in k0) = 0" "cn_reading l0 = Header_io" "time (cn_temp_in l0) = 0"
    by (simp_all add: fresh_session_def fresh_end_def new_message_def)
  have msgs: "map msg (map (\<lambda>m. arrival c (m\<lparr>time := 0\<rparr>)) ms) = map untimed ms" for c and ms :: "u32 message list"
    by (simp add: arrival_def untimed_def)
  from ok obtain more1 where up: "map (\<lambda>m. arrival k0 (m\<lparr>time := 0\<rparr>)) (ln_log (ss_up s)) = es @ more1"
      "m_queue (cn_outbound l) = [] \<and> unread (ss_up s) = [] \<longrightarrow> more1 = []"
    using wire_format.line_delivers [OF assms(1) _ start(1) assms(4)] start(2) by (fastforce simp: session_ok_def)
  from ok obtain more2 where down: "map (\<lambda>m. arrival l0 (m\<lparr>time := 0\<rparr>)) (ln_log (ss_down s)) = fs @ more2"
      "m_queue (cn_outbound k) = [] \<and> unread (ss_down s) = [] \<longrightarrow> more2 = []"
    using wire_format.line_delivers [OF assms(1) _ start(3) assms(5)] start(4) by (fastforce simp: session_ok_def)
  have "map untimed (ln_log (ss_up s)) = map msg (es @ more1)" unfolding up(1) [symmetric] msgs ..
  then have handled: "map untimed (ln_log (ss_up s)) = ss_handled s @ map msg (from_client a (ss_server s)) @ map msg more1"
    using ok by (simp add: session_ok_def)
  have "map untimed (ln_log (ss_down s)) = map msg (fs @ more2)" unfolding down(1) [symmetric] msgs ..
  then have seen: "map untimed (ln_log (ss_down s)) = ss_seen s @ map msg (m_queue (ci_incomming (ss_client s))) @ map msg more2"
    using ok by (simp add: session_ok_def)
  have replies: "list_all2 answered (ss_handled s) rs" "concat rs = ln_log (ss_down s) @ posted k" "sv_conns (ss_server s) a = Some k"
    "ci_connection (ss_client s) = Some l \<or> ci_connection (ss_client s) = None"
    using ok by (simp_all add: session_ok_def)
  have "up_idle a s \<longrightarrow> ss_handled s = map untimed (ln_log (ss_up s))"
    using handled up(2) replies(4) by (auto simp: up_idle_def)
  moreover have "down_idle a s \<longrightarrow> ss_seen s = map untimed (concat rs)"
    using seen down(2) replies(2,3) by (auto simp: down_idle_def)
  moreover have "prefix (ss_seen s) (map untimed (concat rs))" using seen replies(2) by simp
  ultimately show ?thesis using handled replies(1) by auto
qed

end
