(* ===== verification/Whole_System.thy ===== *)
theory Whole_System
  imports Session
begin

text \<open>
  The server and all of its clients as one system. A client joins when the server accepts its
  connection; each client then runs its own loop over its own two lines, as in \<open>Session\<close>, and the
  server takes the messages of all of them from one queue. Seen from one client the system is
  a session, so what holds of a session holds of every client at once.
\<close>

section \<open>The system\<close>

text \<open>
  A client is named by the address of the server's end of its connection. The history has every
  message the server handled, with its client, and what each client has processed.
\<close>

record 'j whole =
  wh_server :: "'j change_server"
  wh_clients :: "nat \<Rightarrow> change_client option"
  wh_up :: "nat \<Rightarrow> u32 line"
  wh_down :: "nat \<Rightarrow> u32 line"
  wh_served :: "u32 owned_message list"
  wh_seen :: "nat \<Rightarrow> u32 message list"

definition handled_of :: "nat \<Rightarrow> u32 owned_message list \<Rightarrow> u32 message list" where
  "handled_of a xs = map msg (filter (\<lambda>x. remote x = Some a) xs)"

text \<open>What one client sees, and what its steps change.\<close>

definition view :: "nat \<Rightarrow> change_client \<Rightarrow> 'j whole \<Rightarrow> 'j session" where
  "view a c s = \<lparr>ss_client = c, ss_server = wh_server s, ss_up = wh_up s a, ss_down = wh_down s a,
     ss_served = map msg (wh_served s), ss_handled = handled_of a (wh_served s), ss_seen = wh_seen s a\<rparr>"

definition put_end :: "nat \<Rightarrow> 'j session \<Rightarrow> 'j whole \<Rightarrow> 'j whole" where
  "put_end a v s = s\<lparr>wh_server := ss_server v, wh_clients := (wh_clients s)(a \<mapsto> ss_client v),
     wh_up := (wh_up s)(a := ss_up v), wh_down := (wh_down s)(a := ss_down v), wh_seen := (wh_seen s)(a := ss_seen v)\<rparr>"

text \<open>The client's constructor and the completion of its connect.\<close>

definition joined_client :: change_client where
  "joined_client = (let c = new_change_client True True in c\<lparr>ci_connection := map_option (on_connect True) (ci_connection c)\<rparr>)"

text \<open>
  Both ends are connected in one step, since neither can do anything before the other. A handler
  that throws ends the server, so there is no step.
\<close>

inductive whole_step ::
    "('j, 't) server_env \<Rightarrow> (nat \<Rightarrow> ('i, 'k) client_env) \<Rightarrow> u32 wire \<Rightarrow> 'j whole \<Rightarrow> 'j whole \<Rightarrow> bool"
  for E C W where
  joins: "wh_clients s a = None \<Longrightarrow> on_accept (change_server_virtuals E) 0 (Some (a, True, True, i)) (wh_server s) = Inr sv' \<Longrightarrow>
    whole_step E C W s (s\<lparr>wh_server := sv', wh_clients := (wh_clients s)(a \<mapsto> joined_client)\<rparr>)"
| acts: "wh_clients s a = Some c \<Longrightarrow> end_step (C a) W a (view a c s) v \<Longrightarrow> whole_step E C W s (put_end a v s)"
| handles: "m_queue (m_incomming (wh_server s)) = x # xs \<Longrightarrow>
    update (change_server_virtuals E) 1 (wh_server s) = Inr sv' \<Longrightarrow>
    whole_step E C W s (s\<lparr>wh_server := sv', wh_served := wh_served s @ [x]\<rparr>)"

inductive_cases whole_stepE: "whole_step E C W s t"

inductive whole_reach ::
    "('j, 't) server_env \<Rightarrow> (nat \<Rightarrow> ('i, 'k) client_env) \<Rightarrow> u32 wire \<Rightarrow> 'j whole \<Rightarrow> 'j whole \<Rightarrow> bool"
  for E C W s0 where
  whole_start: "whole_reach E C W s0 s0"
| whole_next: "whole_reach E C W s0 s \<Longrightarrow> whole_step E C W s t \<Longrightarrow> whole_reach E C W s0 t"

lemma whole_reach_trans: "whole_reach E C W s t \<Longrightarrow> whole_reach E C W s0 s \<Longrightarrow> whole_reach E C W s0 t"
  by (induction rule: whole_reach.induct) (blast intro: whole_next)+

text \<open>
  A round of the main loop handles up to a given number of messages before anything else of it
  happens; here it is that many steps, between which the others may act.
\<close>

lemma whole_same_server: "whole_reach E C W s (s\<lparr>wh_server := wh_server s\<rparr>)"
  by (cases s) (simp add: whole_start)

lemma update_loop_handles:
  assumes "update_loop (change_server_virtuals E) n (wh_server s) = Inr sv'"
  shows "whole_reach E C W s (s\<lparr>wh_server := sv', wh_served := wh_served s @ take n (m_queue (m_incomming (wh_server s)))\<rparr>)"
  using assms
proof (induction n arbitrary: s)
  case 0
  then show ?case using whole_same_server by auto
next
  case (Suc n)
  show ?case
  proof (cases "m_queue (m_incomming (wh_server s))")
    case Nil
    with Suc.prems show ?thesis using whole_same_server by (auto simp: queue_empty_def)
  next
    case (Cons x xs)
    from Suc.prems Cons obtain sv1 where
      first: "on_message (change_server_virtuals E) (remote x) (msg x) ((wh_server s)\<lparr>m_incomming := (m_incomming (wh_server s))\<lparr>m_queue := xs\<rparr>\<rparr>) = Inr sv1"
      and rest: "update_loop (change_server_virtuals E) n sv1 = Inr sv'"
      by (auto simp: queue_empty_def pop_front_def rbind_eq_Inr_iff)
    let ?s1 = "s\<lparr>wh_server := sv1, wh_served := wh_served s @ [x]\<rparr>"
    have one: "update (change_server_virtuals E) 1 (wh_server s) = Inr sv1"
      using Cons first by (simp add: update_def queue_empty_def pop_front_def)
    then have "whole_reach E C W s ?s1" using Cons by (blast intro: whole_next whole_start handles)
    moreover have "m_queue (m_incomming sv1) = xs" using message_answered [OF update_one [OF Cons one]] by (auto simp: answers_def)
    ultimately show ?thesis
      using Suc.IH [of ?s1] rest Cons by (auto intro: whole_reach_trans)
  qed
qed

lemma update_handles:
  "update (change_server_virtuals E) k (wh_server s) = Inr sv' \<Longrightarrow>
    whole_reach E C W s (s\<lparr>wh_server := sv', wh_served := wh_served s @ take (unat k) (m_queue (m_incomming (wh_server s)))\<rparr>)"
  unfolding update_def by (rule update_loop_handles)

text \<open>The server was started and nobody has come.\<close>

definition start_whole :: "'j whole \<Rightarrow> bool" where
  "start_whole s \<longleftrightarrow> empty_server (wh_server s) \<and> wh_clients s = (\<lambda>_. None) \<and> wh_up s = (\<lambda>_. new_line) \<and>
     wh_down s = (\<lambda>_. new_line) \<and> wh_served s = [] \<and> wh_seen s = (\<lambda>_. [])"

lemma handled_of_simps [simp]:
  "handled_of a [] = []" "handled_of a (xs @ ys) = handled_of a xs @ handled_of a ys"
  "handled_of a [x] = (if remote x = Some a then [msg x] else [])"
  by (simp_all add: handled_of_def)

lemma view_simps [simp]:
  "ss_client (view a c s) = c" "ss_server (view a c s) = wh_server s" "ss_up (view a c s) = wh_up s a"
  "ss_down (view a c s) = wh_down s a" "ss_served (view a c s) = map msg (wh_served s)"
  "ss_handled (view a c s) = handled_of a (wh_served s)" "ss_seen (view a c s) = wh_seen s a"
  by (simp_all add: view_def)

lemma put_end_simps [simp]:
  "wh_server (put_end a v s) = ss_server v" "wh_clients (put_end a v s) = (wh_clients s)(a \<mapsto> ss_client v)"
  "wh_up (put_end a v s) = (wh_up s)(a := ss_up v)" "wh_down (put_end a v s) = (wh_down s)(a := ss_down v)"
  "wh_served (put_end a v s) = wh_served s" "wh_seen (put_end a v s) = (wh_seen s)(a := ss_seen v)"
  by (simp_all add: put_end_def)

section \<open>The steps of one client, seen by the others\<close>

text \<open>A step at one end touches at most that connection, and appends to the queue in its name.\<close>

lemma end_step_put:
  assumes "end_step C W a s t" and "server_ok (ss_server s)"
  shows "ss_server t = ss_server s \<or>
    (\<exists>k k' q ms. sv_conns (ss_server s) a = Some k \<and> ss_server t = put_conn a (k', q) (ss_server s) \<and>
       cn_self k' = cn_self k \<and> cn_owner k' = cn_owner k \<and> cn_self k = a \<and>
       m_queue q = m_queue (m_incomming (ss_server s)) @ ms \<and> (\<forall>x \<in> set ms. remote x = Some a))"
proof -
  have self: "cn_self k = a \<and> cn_owner k = Owner_server" if "sv_conns (ss_server s) a = Some k" for k
    using assms(2) that by (simp add: server_ok_def)
  have read: ?thesis if k: "sv_conns (ss_server s) a = Some k"
    and t: "ss_server t = put_conn a (on_read W ec k (m_incomming (ss_server s))) (ss_server s)" for k ec
  proof -
    obtain ms where "m_queue (snd (on_read W ec k (m_incomming (ss_server s)))) = m_queue (m_incomming (ss_server s)) @ ms"
      "\<forall>x \<in> set ms. remote x = Some a"
      using on_read_remote [of k W ec "m_incomming (ss_server s)"] self [OF k] by auto
    then show ?thesis using k t self [OF k] on_read_ends [of W ec k "m_incomming (ss_server s)"] by (metis prod.collapse)
  qed
  show ?thesis using assms(1)
  proof (cases rule: end_step.cases)
    case (server_writes k k' out log)
    then have "same_reader k k'" using send_step_reader by (auto simp: io_step_def)
    from server_writes(1,2) self [OF server_writes(2)] same_reader_ends [OF this] show ?thesis
      by (intro disjI2 exI [of _ k] exI [of _ k'] exI [of _ "m_incomming (ss_server s)"] exI [of _ "[]"]) simp
  next
    case (server_reads k bs later)
    then show ?thesis by (intro read [of k "Some bs"]) simp_all
  next
    case (server_read_fails k)
    then show ?thesis by (intro read [of k None]) simp_all
  qed simp_all
qed

lemma end_step_apart:
  assumes "end_step C W a s t" and "server_ok (ss_server s)"
  shows "server_ok (ss_server t)" and "dom (sv_conns (ss_server t)) = dom (sv_conns (ss_server s))"
    and "b \<noteq> a \<Longrightarrow> sv_conns (ss_server t) b = sv_conns (ss_server s) b \<and> from_client b (ss_server t) = from_client b (ss_server s)"
proof -
  have "server_ok (ss_server t) \<and> dom (sv_conns (ss_server t)) = dom (sv_conns (ss_server s)) \<and>
    (b \<noteq> a \<longrightarrow> sv_conns (ss_server t) b = sv_conns (ss_server s) b \<and> from_client b (ss_server t) = from_client b (ss_server s))"
    using end_step_put [OF assms]
  proof (elim disjE exE conjE)
    fix k k' q ms
    assume k: "sv_conns (ss_server s) a = Some k" and t: "ss_server t = put_conn a (k', q) (ss_server s)"
      and ends: "cn_self k' = cn_self k" "cn_owner k' = cn_owner k" "cn_self k = a"
      and q: "m_queue q = m_queue (m_incomming (ss_server s)) @ ms" "\<forall>x \<in> set ms. remote x = Some a"
    have "filter (\<lambda>x. remote x = Some b) ms = []" if "b \<noteq> a" using q(2) that by (auto simp: filter_empty_conv)
    moreover have "server_ok (ss_server t)" unfolding t by (rule put_conn_ok [OF assms(2) k]) (use ends q in auto)
    ultimately show ?thesis using k q by (auto simp: t put_conn_def from_client_def)
  qed (use assms(2) in simp)
  then show "server_ok (ss_server t)" "dom (sv_conns (ss_server t)) = dom (sv_conns (ss_server s))"
    "b \<noteq> a \<Longrightarrow> sv_conns (ss_server t) b = sv_conns (ss_server s) b \<and> from_client b (ss_server t) = from_client b (ss_server s)"
    by blast+
qed

lemma end_step_kept:
  assumes "end_step C W a (view a c s) v"
  shows "view a (ss_client v) (put_end a v s) = v"
  using end_step_server [OF assms] by (simp add: view_def put_end_def)

section \<open>The invariant\<close>

text \<open>
  The connections of the server are those of the clients, every message handled came over one of
  them, and seen from each client there is a session that began when it joined.
\<close>

definition joined_session ::
    "('j, 't) server_env \<Rightarrow> ('i, 'k) client_env \<Rightarrow> u32 wire \<Rightarrow> nat \<Rightarrow> 'j session \<Rightarrow> bool" where
  "joined_session E C W a v \<longleftrightarrow> (\<exists>k0 l0 s0. fresh_session a k0 l0 s0 \<and> session_reach E C W a s0 v)"

definition whole_ok :: "('j, 't) server_env \<Rightarrow> (nat \<Rightarrow> ('i, 'k) client_env) \<Rightarrow> u32 wire \<Rightarrow> 'j whole \<Rightarrow> bool" where
  "whole_ok E C W s \<longleftrightarrow> server_ok (wh_server s) \<and> dom (wh_clients s) = dom (sv_conns (wh_server s)) \<and>
     (\<forall>x \<in> set (wh_served s). remote x \<in> Some ` dom (wh_clients s)) \<and>
     (\<forall>a. wh_clients s a = None \<longrightarrow> wh_up s a = new_line \<and> wh_down s a = new_line \<and> wh_seen s a = []) \<and>
     (\<forall>a c. wh_clients s a = Some c \<longrightarrow> joined_session E (C a) W a (view a c s))"

lemma joined_session_step:
  "joined_session E C W a v \<Longrightarrow> session_step E C W a v v' \<Longrightarrow> joined_session E C W a v'"
  unfolding joined_session_def by (blast intro: session_next)

lemma joined_session_others:
  assumes "joined_session E C W b (view b c s)" and "sv_conns (wh_server t) b = sv_conns (wh_server s) b"
    and "m_state (wh_server t) = m_state (wh_server s)" and "from_client b (wh_server t) = from_client b (wh_server s)"
    and "wh_up t b = wh_up s b" and "wh_down t b = wh_down s b" and "wh_served t = wh_served s" and "wh_seen t b = wh_seen s b"
  shows "joined_session E C W b (view b c t)"
proof -
  have "view b c t = (view b c s)\<lparr>ss_server := wh_server t\<rparr>" using assms(5-8) by (simp add: view_def)
  then show ?thesis
    using joined_session_step [OF assms(1) others [of "wh_server t" b "view b c s" E C W]] assms(2-4) by simp
qed

text \<open>A client that joins finds nothing in its name.\<close>

lemma joined_client_end:
  "ci_connection joined_client = Some (on_connect True (new_connection 0 Owner_client True 0))"
  "m_queue (ci_incomming joined_client) = []" "cc_processing joined_client"
  by (simp_all add: joined_client_def new_change_client_def ci_connect_def new_client_def client.extend_def new_queue_def Let_def)

lemma fresh_connections [simp]:
  "fresh_end (connect_to_client i (new_connection a Owner_server True 0) :: u32 connection)"
  "fresh_end (on_connect True (new_connection a Owner_client True 0) :: u32 connection)"
  "is_connected (connect_to_client i (new_connection a Owner_server True 0) :: u32 connection)"
  "is_connected (on_connect True (new_connection a Owner_client True 0) :: u32 connection)"
  "cn_owner (on_connect True (new_connection a Owner_client True 0) :: u32 connection) = Owner_client"
  by (simp_all add: fresh_end_def connect_to_client_def on_connect_def new_connection_def read_header_def new_queue_def is_connected_def)

lemma accepted_server:
  assumes "on_accept (change_server_virtuals E) 0 (Some (a, True, True, i)) sv = Inr sv'"
  shows "sv_conns sv' = (sv_conns sv)(a \<mapsto> connect_to_client i (new_connection a Owner_server True 0))"
    and "m_state sv' = m_state sv" and "m_incomming sv' = m_incomming sv"
  using assms by (auto simp: server_accept_silent)

lemma nothing_waits:
  assumes "server_ok sv" and "sv_conns sv a = None"
  shows "from_client a sv = []"
  using assms by (auto simp: server_ok_def from_client_def filter_empty_conv valid_client_def)

lemma joined_fresh:
  assumes "whole_ok E C W s" and "wh_clients s a = None"
    and "on_accept (change_server_virtuals E) 0 (Some (a, True, True, i)) (wh_server s) = Inr sv'"
  shows "fresh_session a (connect_to_client i (new_connection a Owner_server True 0)) (on_connect True (new_connection 0 Owner_client True 0))
    (view a joined_client (s\<lparr>wh_server := sv', wh_clients := cl\<rparr>))"
proof -
  have "sv_conns (wh_server s) a = None" using assms(1,2) unfolding whole_ok_def by (metis domIff)
  then have "from_client a (wh_server s) = []" using assms(1) nothing_waits unfolding whole_ok_def by blast
  moreover have "handled_of a (wh_served s) = []"
    using assms(1,2) by (auto simp: handled_of_def filter_empty_conv whole_ok_def)
  moreover have "wh_up s a = new_line" "wh_down s a = new_line" "wh_seen s a = []"
    using assms(1,2) by (simp_all add: whole_ok_def)
  ultimately show ?thesis
    by (simp add: fresh_session_def from_client_def accepted_server [OF assms(3)] joined_client_end)
      (simp add: new_connection_def connect_to_client_def)
qed

lemma handled_server:
  assumes "m_queue (m_incomming sv) = x # xs" and "update (change_server_virtuals E) 1 sv = Inr sv'" and "server_ok sv"
  shows "server_ok sv'" and "dom (sv_conns sv') = dom (sv_conns sv)" and "remote x \<in> Some ` dom (sv_conns sv)"
    and "apply_message E (msg x) (m_state sv) = Inr (m_state sv')"
proof -
  show "server_ok sv'" using assms(2,3) cs.update_loop_ok unfolding update_def by blast
  have msg: "cs_message E (remote x) (msg x) (sv\<lparr>m_incomming := (m_incomming sv)\<lparr>m_queue := xs\<rparr>\<rparr>) = Inr sv'"
    by (rule update_one [OF assms(1,2)])
  then have "\<exists>ms. sv_conns sv' a = map_option (sent ms) (sv_conns sv a)" for a
    using cs_message_sends [OF msg] by (simp add: only_sends_def)
  then have "sv_conns sv' a = None \<longleftrightarrow> sv_conns sv a = None" for a by (metis option.map_disc_iff)
  then show "dom (sv_conns sv') = dom (sv_conns sv)" by (auto simp: dom_def)
  have "valid_client (remote x) sv" using assms(1,3) by (simp add: server_ok_def)
  then show "remote x \<in> Some ` dom (sv_conns sv)" by (cases "remote x") (auto simp: valid_client_def dom_def)
  show "apply_message E (msg x) (m_state sv) = Inr (m_state sv')" using cs_message_applies [OF msg] by simp
qed

lemma whole_step_ok:
  assumes "whole_step E C W s t" and "whole_ok E C W s"
  shows "whole_ok E C W t"
  using assms(1)
proof (cases rule: whole_step.cases)
  case (joins a i sv')
  have none: "sv_conns (wh_server s) a = None" using assms(2) joins(2) unfolding whole_ok_def by (metis domIff)
  have "server_ok sv'" using cs.on_accept_ok [OF _ none joins(3)] assms(2) by (simp add: whole_ok_def)
  moreover have "joined_session E (C a) W a (view a joined_client t)"
    using joined_fresh [OF assms(2) joins(2,3)] session_start unfolding joins(1) joined_session_def by blast
  moreover have "joined_session E (C b) W b (view b c t)" if "wh_clients s b = Some c" for b c
  proof (rule joined_session_others)
    show "joined_session E (C b) W b (view b c s)" using assms(2) that by (simp add: whole_ok_def)
    show "sv_conns (wh_server t) b = sv_conns (wh_server s) b"
      using that joins(1,2) accepted_server(1) [OF joins(3)] by auto
  qed (simp_all add: joins(1) accepted_server [OF joins(3)] from_client_def)
  ultimately show ?thesis
    using assms(2) accepted_server [OF joins(3)] unfolding joins(1) by (auto simp: whole_ok_def)
next
  case (acts a c v)
  have ok: "server_ok (ss_server (view a c s))" using assms(2) by (simp add: whole_ok_def)
  note apart = end_step_apart [OF acts(3) ok]
  have "joined_session E (C a) W a (view a (ss_client v) t)"
    using joined_session_step [of E, OF _ alone [OF own [OF acts(3)]]] assms(2) acts(2)
    unfolding acts(1) end_step_kept [OF acts(3)] by (simp add: whole_ok_def)
  moreover have "joined_session E (C b) W b (view b d t)" if "wh_clients s b = Some d" "b \<noteq> a" for b d
  proof (rule joined_session_others)
    show "joined_session E (C b) W b (view b d s)" using assms(2) that by (simp add: whole_ok_def)
  qed (use that apart(3) end_step_server(1) [OF acts(3)] in \<open>simp_all add: acts(1)\<close>)
  ultimately show ?thesis
    using assms(2) apart acts(2) unfolding acts(1) by (auto simp: whole_ok_def insert_absorb)
next
  case (handles x xs sv')
  have ok: "server_ok (wh_server s)" using assms(2) by (simp add: whole_ok_def)
  note after = handled_server [OF handles(2,3) ok]
  have "joined_session E (C b) W b (view b c t)" if "wh_clients s b = Some c" for b c
  proof -
    have "session_step E (C b) W b (view b c s) (view b c t)"
      using alone [OF server_handles [of "view b c s" x xs E sv' "C b" W b]] handles by (simp add: view_def)
    then show ?thesis by (rule joined_session_step [rotated]) (use assms(2) that in \<open>simp add: whole_ok_def\<close>)
  qed
  then show ?thesis using assms(2) after unfolding handles(1) by (auto simp: whole_ok_def)
qed

lemma whole_reach_ok:
  assumes "whole_reach E C W s0 s" and "start_whole s0"
  shows "whole_ok E C W s"
  using assms
proof (induction rule: whole_reach.induct)
  case whole_start
  then show ?case by (simp add: whole_ok_def start_whole_def empty_server_def server_ok_def)
next
  case (whole_next s t)
  then show ?case by (blast intro: whole_step_ok)
qed

section \<open>What one client and the server do between them\<close>

lemma alone_in_whole:
  assumes "alone_reach E (C a) W a (view a c s) v" and "wh_clients s a = Some c"
  shows "\<exists>t d. whole_reach E C W s t \<and> wh_clients t a = Some d \<and> view a d t = v \<and>
    (\<forall>b. b \<noteq> a \<longrightarrow> wh_clients t b = wh_clients s b \<and> wh_up t b = wh_up s b \<and> wh_down t b = wh_down s b \<and> wh_seen t b = wh_seen s b)"
  using assms(1)
proof (induction rule: alone_reach.induct)
  case alone_start
  then show ?case using assms(2) whole_start by blast
next
  case (alone_next v v')
  then obtain t d where t: "whole_reach E C W s t" "wh_clients t a = Some d" "view a d t = v"
    "\<forall>b. b \<noteq> a \<longrightarrow> wh_clients t b = wh_clients s b \<and> wh_up t b = wh_up s b \<and> wh_down t b = wh_down s b \<and> wh_seen t b = wh_seen s b"
    by blast
  from alone_next(2) show ?case
  proof (cases rule: alone_step.cases)
    case own
    then have own: "end_step (C a) W a (view a d t) v'" using t(3) by simp
    from whole_next [OF t(1) acts [where C = C and E = E, OF t(2) own]] end_step_kept [OF own] t(4) show ?thesis
      by (intro exI [of _ "put_end a v' t"] exI [of _ "ss_client v'"]) simp
  next
    case (server_handles x xs sv')
    let ?t = "t\<lparr>wh_server := sv', wh_served := wh_served t @ [x]\<rparr>"
    have "whole_step E C W t ?t" using server_handles(2,3) t(3) by (intro handles) auto
    with t(1) have "whole_reach E C W s ?t" by (rule whole_next)
    moreover have "view a d ?t = v'" using server_handles(1) t(3) by (auto simp: view_def)
    ultimately show ?thesis using t(2,4) by (intro exI [of _ ?t] exI [of _ d]) simp
  qed
qed

lemma joining:
  assumes "whole_ok E C W s" and "wh_clients s a = None"
  shows "\<exists>sv'. whole_step E C W s (s\<lparr>wh_server := sv', wh_clients := (wh_clients s)(a \<mapsto> joined_client)\<rparr>) \<and>
    fresh_session a (connect_to_client i (new_connection a Owner_server True 0)) (on_connect True (new_connection 0 Owner_client True 0))
      (view a joined_client (s\<lparr>wh_server := sv', wh_clients := (wh_clients s)(a \<mapsto> joined_client)\<rparr>)) \<and>
    m_state sv' = m_state (wh_server s) \<and> m_incomming sv' = m_incomming (wh_server s)"
proof -
  obtain sv' where sv': "on_accept (change_server_virtuals E) 0 (Some (a, True, True, i)) (wh_server s) = Inr sv'"
    using server_accept_silent by blast
  from joins [OF assms(2) sv', of C W] joined_fresh [OF assms sv'] accepted_server [OF sv'] show ?thesis by blast
qed

lemma new_client_answered:
  assumes "wire_format W" and "start_whole s0" and "whole_reach E C W s0 s" and "wh_clients s a = None"
    and "m_queue (m_incomming (wh_server s)) = []" and "framable m" and "msg_id (header m) = type_number (request_type q)"
    and "d_from_cbor (se_docs E) (body m) = Inr (request_doc (se_json E) q)"
    and "serve (se_json E) (se_docs E) (se_fs E) q (m_state (wh_server s)) = Inr (ok, st)" and "framable (m_success E)"
  shows "\<exists>t c. whole_reach E C W s t \<and> wh_clients t a = Some c \<and> m_state (wh_server t) = st \<and>
    handled_of a (wh_served t) = [untimed m] \<and> wh_seen t a = (if ok then [untimed (m_success E)] else []) \<and>
    up_idle a (view a c t) \<and> down_idle a (view a c t) \<and> (cc_processing c \<longleftrightarrow> \<not> ok) \<and>
    ln_log (wh_up t a) = [m] \<and> ln_log (wh_down t a) = (if ok then [m_success E] else []) \<and>
    (\<forall>b. b \<noteq> a \<longrightarrow> wh_clients t b = wh_clients s b \<and> wh_seen t b = wh_seen s b) \<and> m_queue (m_incomming (wh_server t)) = []"
proof -
  obtain sv' where sv': "whole_step E C W s (s\<lparr>wh_server := sv', wh_clients := (wh_clients s)(a \<mapsto> joined_client)\<rparr>)"
    and fresh: "fresh_session a (connect_to_client 0 (new_connection a Owner_server True 0))
      (on_connect True (new_connection 0 Owner_client True 0))
        (view a joined_client (s\<lparr>wh_server := sv', wh_clients := (wh_clients s)(a \<mapsto> joined_client)\<rparr>))"
    and same: "m_state sv' = m_state (wh_server s)" "m_incomming sv' = m_incomming (wh_server s)"
    using joining [OF whole_reach_ok [OF assms(3,2)] assms(4)] by blast
  let ?s1 = "s\<lparr>wh_server := sv', wh_clients := (wh_clients s)(a \<mapsto> joined_client)\<rparr>"
  have "m_queue (m_incomming (ss_server (view a joined_client ?s1))) = []" "cc_processing (ss_client (view a joined_client ?s1))"
    "serve (se_json E) (se_docs E) (se_fs E) q (m_state (ss_server (view a joined_client ?s1))) = Inr (ok, st)"
    using assms(5,9) same by (simp_all add: joined_client_end)
  from request_goes_through [OF assms(1) fresh fresh_connections(3,4) this(1,2) assms(6-8) this(3) assms(10)]
  obtain v where v: "alone_reach E (C a) W a (view a joined_client ?s1) v" "m_state (ss_server v) = st" "ss_handled v = [untimed m]"
      "ss_seen v = (if ok then [untimed (m_success E)] else [])" "up_idle a v" "down_idle a v"
      "cc_processing (ss_client v) \<longleftrightarrow> \<not> ok" "ln_log (ss_up v) = [m]" "ln_log (ss_down v) = (if ok then [m_success E] else [])"
      "m_queue (m_incomming (ss_server v)) = []"
    by blast
  from alone_in_whole [where C = C, OF v(1)] obtain t d where t: "whole_reach E C W ?s1 t" "wh_clients t a = Some d" "view a d t = v"
      "\<forall>b. b \<noteq> a \<longrightarrow> wh_clients t b = wh_clients s b \<and> wh_seen t b = wh_seen s b"
    by auto
  have "whole_reach E C W s t" using whole_reach_trans [OF t(1) whole_next [OF whole_start sv']] .
  with t v(2-10) show ?thesis by (intro exI [of _ t] exI [of _ d]) auto
qed

section \<open>Properties\<close>

text \<open>
  C4: the programs together are, for each client, a queue of requests and a queue of replies, over
  one server for all. However asio completes reads and writes, in whatever order the clients come,
  act and leave, and wherever a read or write fails: what the server handles of a client's messages is a
  beginning of what that client sent, in order and unchanged; each has at most one reply, of a
  type for it; and what the client processes is a beginning of the replies to its own
  messages, in their order. Once a direction of a client is idle, everything sent in it has been
  taken out. Only the times of messages are not transmitted, and messages must have a body.
\<close>

theorem whole_in_order:
  assumes "wire_format W" and "start_whole s0" and "whole_reach E C W s0 s" and "wh_clients s a = Some c"
    and "list_all framable (ln_log (wh_up s a))" and "list_all framable (ln_log (wh_down s a))"
  shows "prefix (handled_of a (wh_served s)) (map untimed (ln_log (wh_up s a))) \<and>
    (up_idle a (view a c s) \<longrightarrow> handled_of a (wh_served s) = map untimed (ln_log (wh_up s a))) \<and>
    (\<exists>rs. list_all2 answered (handled_of a (wh_served s)) rs \<and> prefix (wh_seen s a) (map untimed (concat rs)) \<and>
       (down_idle a (view a c s) \<longrightarrow> wh_seen s a = map untimed (concat rs)))"
proof -
  have "joined_session E (C a) W a (view a c s)"
    using whole_reach_ok [OF assms(3,2)] assms(4) by (simp add: whole_ok_def)
  then obtain k0 l0 v0 where "fresh_session a k0 l0 v0" "session_reach E (C a) W a v0 (view a c s)"
    by (auto simp: joined_session_def)
  from session_in_order [OF assms(1) this] assms(5,6) show ?thesis by simp
qed

text \<open>The collections after a step.\<close>

lemma whole_step_serial:
  assumes "whole_step E C W s t" and "whole_ok E C W s" and "apply_all E (map msg (wh_served s)) st = Inr (m_state (wh_server s))"
  shows "apply_all E (map msg (wh_served t)) st = Inr (m_state (wh_server t))"
  using assms(1)
proof (cases rule: whole_step.cases)
  case (joins a i sv')
  with assms(3) accepted_server [OF joins(3)] show ?thesis by simp
next
  case (acts a c v)
  with assms(3) end_step_server [OF acts(3)] show ?thesis by simp
next
  case (handles x xs sv')
  with assms(2,3) handled_server(4) [OF handles(2,3)] show ?thesis by (simp add: whole_ok_def)
qed

lemma whole_reach_serial:
  assumes "whole_reach E C W s0 s" and "start_whole s0"
  shows "apply_all E (map msg (wh_served s)) (m_state (wh_server s0)) = Inr (m_state (wh_server s))"
  using assms
proof (induction rule: whole_reach.induct)
  case whole_start
  then show ?case by (simp add: start_whole_def)
next
  case (whole_next s t)
  then show ?case using whole_step_serial whole_reach_ok by blast
qed

text \<open>
  C5: the collections of the server are those of a program that takes messages one after the
  other: at every moment there is one order of the messages handled so far, each from a client
  that joined, in which each client's messages keep the order in which it sent them (this is the
  property before), and the state is what these messages make of the state at the start.
  In particular the collections stay in order, if no name in a request has a null character.
\<close>

theorem whole_collections:
  assumes "start_whole s0" and "whole_reach E C W s0 s"
  shows "apply_all E (map msg (wh_served s)) (m_state (wh_server s0)) = Inr (m_state (wh_server s)) \<and>
    (\<forall>x \<in> set (wh_served s). \<exists>a c. remote x = Some a \<and> wh_clients s a = Some c) \<and>
    (collection_refs (se_refs E) \<and> list_all (plain_message E) (map msg (wh_served s)) \<and> manager_ok (m_state (wh_server s0)) \<longrightarrow>
      manager_ok (m_state (wh_server s)))"
proof -
  have serial: "apply_all E (map msg (wh_served s)) (m_state (wh_server s0)) = Inr (m_state (wh_server s))"
    by (rule whole_reach_serial [OF assms(2,1)])
  moreover have "\<forall>x \<in> set (wh_served s). \<exists>a c. remote x = Some a \<and> wh_clients s a = Some c"
    using whole_reach_ok [OF assms(2,1)] by (fastforce simp: whole_ok_def)
  ultimately show ?thesis using apply_all_keeps by blast
qed

text \<open>
  C7: whatever the other clients have done, once the server has nothing waiting a new client
  can come, and a collection request that it sends goes all the way: the server carries it out
  and the reply ends the loop of that client, while the others are as they were.
  But a request that the server refuses has no reply: everything is delivered then, and the
  client goes on waiting.
\<close>

theorem whole_request_answered:
  assumes "wire_format W" and "start_whole s0" and "whole_reach E C W s0 s" and "wh_clients s a = None"
    and "m_queue (m_incomming (wh_server s)) = []" and "framable m" and "msg_id (header m) = type_number (request_type q)"
    and "d_from_cbor (se_docs E) (body m) = Inr (request_doc (se_json E) q)"
    and "serve (se_json E) (se_docs E) (se_fs E) q (m_state (wh_server s)) = Inr (ok, st)" and "framable (m_success E)"
  shows "\<exists>t c. whole_reach E C W s t \<and> wh_clients t a = Some c \<and> m_state (wh_server t) = st \<and>
    handled_of a (wh_served t) = [untimed m] \<and> wh_seen t a = (if ok then [untimed (m_success E)] else []) \<and>
    up_idle a (view a c t) \<and> down_idle a (view a c t) \<and> (cc_processing c \<longleftrightarrow> \<not> ok) \<and>
    ln_log (wh_up t a) = [m] \<and> ln_log (wh_down t a) = (if ok then [m_success E] else []) \<and>
    (\<forall>b. b \<noteq> a \<longrightarrow> wh_clients t b = wh_clients s b \<and> wh_seen t b = wh_seen s b)"
  using new_client_answered [OF assms] by blast

text \<open>When a state can be stored so that it is read back: see \<open>session_roundtrip\<close>.\<close>

definition storable :: "('j, 't) json_ops \<Rightarrow> string \<Rightarrow> (string \<Rightarrow> bool) \<Rightarrow> 't files \<Rightarrow> 'j state \<Rightarrow> bool" where
  "storable J d can_write fs st \<longleftrightarrow> (\<exists>s \<in> set (m_cache_vec (mg_cache st)). m_modified (snd s)) \<and>
     unat (m_current (mg_cache st)) < cache_count (mg_cache st) \<and>
     (pt_modified (mg_path_buf st) \<or> pt_open J d fs = Inr ((mg_path_buf st)\<lparr>pt_modified := False\<rparr>)) \<and>
     can_write (table_path d) \<and> can_write (library_path d)"

text \<open>
  C8: the life of the collections through both programs. The command line stores its state; the
  server is started on the files and serves its clients; when it ends it stores, and the command
  line opens what it left. Then the collections the command line finds are, up to duplicate
  items, what the messages served, one after the other, make of those it had stored, and
  every wallpaper in them can be resolved.
\<close>

theorem whole_life:
  assumes "json_library (se_json E)" and "collection_refs (se_refs E)" and "manager_ok m"
    and "storable (se_json E) d can_write fs0 m" and "store_manager (se_json E) d can_write m fs0 = Inr fs1"
    and "new_state (se_json E) d fs1 = Inr st" and "wh_server s0 = new_change_server now st" and "start_whole s0"
    and "whole_reach E C W s0 s" and "list_all (plain_message E) (map msg (wh_served s))"
    and "storable (se_json E) d can_write fs1 (m_state (wh_server s))"
  shows "\<exists>st' fs2 m'. apply_all E (map msg (wh_served s)) (reopened m) = Inr st' \<and>
    store_state E d can_write (wh_server s) fs1 = Inr fs2 \<and> open_manager (se_json E) d fs2 = Inr m' \<and> manager_ok m' \<and>
    mg_list_collection m' = mg_list_collection st' \<and>
    (\<forall>n. lib_map (mg_cache m') n = map_option reloaded (lib_map (mg_cache st') n)) \<and> mg_previous m' = []"
proof -
  let ?st = "m_state (wh_server s)"
  have "open_manager (se_json E) d fs1 = Inr (reopened m)"
    using json_library.store_open [OF assms(1), of m d fs0 can_write] assms(3-5) by (auto simp: storable_def manager_ok_def)
  then have "st = reopened m" using assms(6) by (simp add: new_state_manager)
  then have serial: "apply_all E (map msg (wh_served s)) (reopened m) = Inr ?st"
    using whole_reach_serial [OF assms(9,8)] assms(7) by simp
  from apply_all_keeps [OF assms(2,10) manager_ok_reopened [OF assms(3)] serial] have ok: "manager_ok ?st" .
  then have "wf_lib (mg_cache ?st)" by (simp add: manager_ok_def)
  then obtain fs2 where "st_store_state (se_json E) d can_write ?st fs1 = Inr fs2" "open_manager (se_json E) d fs2 = Inr (reopened ?st)"
    using st_store_open [OF assms(1), of ?st d fs1 can_write] assms(11) by (auto simp: storable_def)
  with serial manager_ok_reopened [OF ok] show ?thesis
    by (intro exI [of _ ?st] exI [of _ fs2] exI [of _ "reopened ?st"]) (simp add: store_state_def reopened_lists)
qed

section \<open>Witnesses\<close>

text \<open>
  From a server that was just started on two collections: client 3 asks for a new collection and gets
  its reply; client 4 asks for the same, is refused, and waits.
\<close>

definition started_on :: "'j state \<Rightarrow> 'j whole" where
  "started_on st = \<lparr>wh_server = new_change_server 3 st, wh_clients = (\<lambda>_. None), wh_up = (\<lambda>_. new_line), wh_down = (\<lambda>_. new_line),
     wh_served = [], wh_seen = (\<lambda>_. [])\<rparr>"

abbreviation sample_whole :: "json_tree whole" where
  "sample_whole \<equiv> started_on sample_manager"

definition sample_created_b :: "json_tree manager" where
  "sample_created_b = sample_manager\<lparr>mg_cache := snd (lib_insert ''b'' empty_cache sample_collections)\<rparr>"

abbreviation create_b :: "u32 message" where
  "create_b \<equiv> sample_request (Create_empty ''b'')"

abbreviation create_env :: "(json_tree, json_tree) server_env" where
  "create_env \<equiv> document_env (request_doc json_tree_ops (Create_empty ''b''))"

lemma started_simps [simp]:
  "start_whole (started_on st)" "wh_server (started_on st) = new_change_server 3 st" "wh_clients (started_on st) a = None"
  by (simp_all add: start_whole_def started_on_def)

lemma sample_whole_starts:
  "start_whole sample_whole" "m_state (wh_server sample_whole) = sample_manager" "wh_clients sample_whole a = None"
  "m_queue (m_incomming (wh_server (started_on st))) = []"
  by (simp_all add: new_queue_def)

lemma sample_framable: "framable (sample_request q)" "framable (m_success (document_env j))"
  by (simp_all add: sample_request_def m_success_def flag_message_def framable_def sendable_def new_message_def
      document_env_def sample_env_def)

lemma create_b_request:
  "msg_id (header create_b) = type_number (request_type (Create_empty ''b''))"
  "d_from_cbor (se_docs create_env) bs = Inr (request_doc (se_json create_env) (Create_empty ''b''))"
  "serve (se_json create_env) (se_docs create_env) (se_fs create_env) (Create_empty ''b'') sample_manager = Inr (True, sample_created_b)"
  using sample_create [of "request_doc json_tree_ops (Create_empty ''b'')"]
  by (simp_all add: sample_request_def sample_created_b_def) (simp_all add: document_env_def sample_env_def)

lemma create_b_again:
  "\<exists>st. serve (se_json create_env) (se_docs create_env) (se_fs create_env) (Create_empty ''b'') sample_created_b = Inr (False, st)"
proof -
  have eval: "serve json_tree_ops (se_docs create_env) sample_fs (Create_empty ''b'') sample_created_b = Inr (False, sample_created_b)"
    by (simp add: st_create_collection_def arg_bool_def arg_string_def json_tree_eval document_env_def sample_env_def
      sample_docs_def sample_active lib_insert_cases sample_collections_def cache_list_def succeeded_def sample_manager_def
      sample_created_b_def)
  show ?thesis using eval by (auto simp: document_env_def sample_env_def)
qed

lemma sample_client_served:
  fixes C :: "nat \<Rightarrow> ('i, 'k) client_env"
  obtains t c where "whole_reach create_env C native_wire sample_whole t" and "wh_clients t 3 = Some c"
    and "m_state (wh_server t) = sample_created_b" and "m_queue (m_incomming (wh_server t)) = []" and "wh_clients t 4 = None"
    and "handled_of 3 (wh_served t) = [untimed create_b]" and "wh_seen t 3 = [untimed (m_success create_env)]"
    and "down_idle 3 (view 3 c t)" and "ln_log (wh_up t 3) = [create_b]" and "ln_log (wh_down t 3) = [m_success create_env]"
proof -
  have "serve (se_json create_env) (se_docs create_env) (se_fs create_env) (Create_empty ''b'') (m_state (wh_server sample_whole)) =
      Inr (True, sample_created_b)"
    using create_b_request(3) sample_whole_starts(2) by simp
  from new_client_answered [OF native.wire_format_axioms sample_whole_starts(1) whole_start sample_whole_starts(3,4)
      sample_framable(1) create_b_request(1,2) this sample_framable(2), of C 3]
  obtain t c where t: "whole_reach create_env C native_wire sample_whole t" "wh_clients t 3 = Some c"
    "m_state (wh_server t) = sample_created_b" "handled_of 3 (wh_served t) = [untimed create_b]"
    "wh_seen t 3 = [untimed (m_success create_env)]" "up_idle 3 (view 3 c t)" "down_idle 3 (view 3 c t)" "\<not> cc_processing c"
    "ln_log (wh_up t 3) = [create_b]" "ln_log (wh_down t 3) = [m_success create_env]"
    "\<forall>b. b \<noteq> 3 \<longrightarrow> wh_clients t b = wh_clients sample_whole b" "m_queue (m_incomming (wh_server t)) = []"
    by auto
  moreover have "wh_clients t 4 = None" using t(11) sample_whole_starts(3) by simp
  ultimately show thesis by (intro that)
qed

theorem whole_in_order_witness:
  "\<exists>t. whole_reach create_env (\<lambda>_. sample_client_env) native_wire sample_whole t \<and>
    handled_of 3 (wh_served t) = [untimed create_b] \<and>
    (\<exists>r. answered (untimed create_b) [r] \<and> wh_seen t 3 = [untimed r])"
proof -
  obtain t c where t: "whole_reach create_env (\<lambda>_. sample_client_env) native_wire sample_whole t" "wh_clients t 3 = Some c"
    "handled_of 3 (wh_served t) = [untimed create_b]" "wh_seen t 3 = [untimed (m_success create_env)]" "down_idle 3 (view 3 c t)"
    "ln_log (wh_up t 3) = [create_b]" "ln_log (wh_down t 3) = [m_success create_env]"
    by (rule sample_client_served [of "\<lambda>_. sample_client_env"]) (rule that; assumption)
  have "list_all framable (ln_log (wh_up t 3))" "list_all framable (ln_log (wh_down t 3))"
    using t(6,7) by (simp_all add: sample_framable)
  from whole_in_order [OF native.wire_format_axioms sample_whole_starts(1) t(1,2) this] t(3,5)
  obtain rs where rs: "answered (untimed create_b) rs" "wh_seen t 3 = map untimed rs" by (auto simp: list_all2_Cons1)
  with t(4) obtain r where "rs = [r]" by auto
  with rs t show ?thesis by auto
qed

lemma create_b_plain: "plain_message create_env m"
  by (auto simp: plain_message_def plain_doc_def msg_to_json_def document_env_def sample_env_def
      arg_string_def json_tree_eval rbind_eq_Inr_iff split: if_splits)

theorem whole_collections_witness:
  "\<exists>t ms. whole_reach create_env (\<lambda>_. sample_client_env) native_wire sample_whole t \<and> ms \<noteq> [] \<and>
    apply_all create_env ms sample_manager = Inr sample_created_b \<and> manager_ok sample_created_b"
proof -
  obtain t where t: "whole_reach create_env (\<lambda>_. sample_client_env) native_wire sample_whole t"
    "m_state (wh_server t) = sample_created_b" "handled_of 3 (wh_served t) = [untimed create_b]"
    by (rule sample_client_served [of "\<lambda>_. sample_client_env"]) (rule that; assumption)
  have "list_all (plain_message create_env) ms" for ms unfolding list_all_iff using create_b_plain by blast
  moreover have "manager_ok (sample_manager :: json_tree manager)"
    by (rule manager_ok_sample)
  ultimately have "manager_ok sample_created_b" "apply_all create_env (map msg (wh_served t)) sample_manager = Inr sample_created_b"
    using whole_collections [OF sample_whole_starts(1) t(1)] t(2) sample_whole_starts(2) document_refs by simp_all
  with t show ?thesis by (intro exI [of _ t] exI [of _ "map msg (wh_served t)"]) auto
qed

theorem whole_request_answered_witness:
  "\<exists>t c. whole_reach create_env (\<lambda>_. sample_client_env) native_wire sample_whole t \<and> wh_clients t 4 = Some c \<and>
    handled_of 4 (wh_served t) = [untimed create_b] \<and> wh_seen t 4 = [] \<and> down_idle 4 (view 4 c t) \<and> cc_processing c \<and>
    wh_seen t 3 = [untimed (m_success create_env)]"
proof -
  obtain s where s: "whole_reach create_env (\<lambda>_. sample_client_env) native_wire sample_whole s"
    "m_state (wh_server s) = sample_created_b" "m_queue (m_incomming (wh_server s)) = []" "wh_clients s 4 = None"
    "wh_seen s 3 = [untimed (m_success create_env)]"
    by (rule sample_client_served [of "\<lambda>_. sample_client_env"]) (rule that; assumption)
  obtain st where "serve (se_json create_env) (se_docs create_env) (se_fs create_env) (Create_empty ''b'') (m_state (wh_server s)) = Inr (False, st)"
    using create_b_again s(2) by auto
  from whole_request_answered [OF native.wire_format_axioms sample_whole_starts(1) s(1,4,3) sample_framable(1) create_b_request(1,2) this
      sample_framable(2)]
  obtain t c where t: "whole_reach create_env (\<lambda>_. sample_client_env) native_wire s t" "wh_clients t 4 = Some c"
    "handled_of 4 (wh_served t) = [untimed create_b]" "wh_seen t 4 = []" "down_idle 4 (view 4 c t)" "cc_processing c"
    "wh_seen t 3 = wh_seen s 3"
    by auto
  from whole_reach_trans [OF t(1) s(1)] t s(5) show ?thesis by auto
qed

text \<open>The command line has one collection; a client of the server creates another.\<close>

definition sample_reopened_b :: "json_tree manager" where
  "sample_reopened_b = (reopened sample_manager)\<lparr>mg_cache := snd (lib_insert ''b'' empty_cache (reloaded_lib sample_collections))\<rparr>"

lemma create_b_reopened:
  "serve (se_json create_env) (se_docs create_env) (se_fs create_env) (Create_empty ''b'') (reopened sample_manager) = Inr (True, sample_reopened_b)"
proof -
  have eval: "serve json_tree_ops (se_docs create_env) sample_fs (Create_empty ''b'') (reopened sample_manager) = Inr (True, sample_reopened_b)"
    by (simp add: st_create_collection_def arg_bool_def arg_string_def json_tree_eval document_env_def sample_env_def
      sample_docs_def sample_active lib_insert_cases sample_collections_def cache_list_def succeeded_def sample_manager_def
      sample_reopened_b_def reopened_def reloaded_lib_def)
  then show ?thesis by (simp add: document_env_def sample_env_def)
qed

lemma reopened_served:
  obtains t where "whole_reach create_env (\<lambda>_. sample_client_env) native_wire (started_on (reopened sample_manager)) t"
    and "m_state (wh_server t) = sample_reopened_b" and "handled_of 3 (wh_served t) = [untimed create_b]"
proof -
  have "serve (se_json create_env) (se_docs create_env) (se_fs create_env) (Create_empty ''b'')
      (m_state (wh_server (started_on (reopened sample_manager)))) = Inr (True, sample_reopened_b)"
    using create_b_reopened by simp
  from new_client_answered [OF native.wire_format_axioms started_simps(1) whole_start started_simps(3) sample_whole_starts(4)
      sample_framable(1) create_b_request(1,2) this sample_framable(2), of "\<lambda>_. sample_client_env" 3]
  show thesis using that by blast
qed

lemma open_manager_table: "open_manager J d fs = Inr m \<Longrightarrow> pt_open J d fs = Inr (mg_path_buf m)"
  by (auto simp: open_manager_def rbind_eq_Inr_iff)

theorem whole_life_witness:
  "\<exists>fs1 fs2 st' m' ms. store_manager json_tree_ops ''/d'' (\<lambda>_. True) sample_manager Map.empty = Inr fs1 \<and>
    ms \<noteq> [] \<and> apply_all create_env ms (reopened sample_manager) = Inr st' \<and>
    open_manager json_tree_ops ''/d'' fs2 = Inr m' \<and> mg_list_collection m' = mg_list_collection st'"
proof -
  let ?m = "sample_manager :: json_tree manager"
  have json: "se_json create_env = json_tree_ops" by (simp add: document_env_def sample_env_def)
  have jl: "json_library (se_json create_env)" using tree.json_library_axioms json by simp
  have table: "pt_modified (mg_path_buf ?m)" by (simp add: sample_manager_def pt_insert_def pt_exists_iff empty_table_def)
  have lib: "\<exists>s \<in> set (m_cache_vec (mg_cache ?m)). m_modified (snd s)" "unat (m_current (mg_cache ?m)) < cache_count (mg_cache ?m)"
    by (simp_all add: sample_manager_def sample_collections_def sample_cache_def cache_count_def)
  have stored: "storable (se_json create_env) ''/d'' (\<lambda>_. True) Map.empty ?m" using table lib by (simp add: storable_def)
  have "manager_ok ?m" by (rule manager_ok_sample)
  then have "wf_lib (mg_cache ?m)" by (simp add: manager_ok_def)
  from json_library.store_open [where fs = Map.empty and d = "''/d''" and can_write = "\<lambda>_. True", OF jl this lib disjI1 [OF table]]
  obtain fs1 where fs1: "store_manager (se_json create_env) ''/d'' (\<lambda>_. True) ?m Map.empty = Inr fs1"
    "open_manager (se_json create_env) ''/d'' fs1 = Inr (reopened ?m)" by blast
  then have opened: "new_state (se_json create_env) ''/d'' fs1 = Inr (reopened ?m)" by (simp add: new_state_manager)
  have "pt_open (se_json create_env) ''/d'' fs1 = Inr (mg_path_buf (reopened ?m))"
    using fs1(2) by (rule open_manager_table)
  then have again: "storable (se_json create_env) ''/d'' (\<lambda>_. True) fs1 sample_reopened_b"
    by (simp add: storable_def sample_reopened_b_def reopened_def reloaded_lib_def reloaded_def lib_insert_cases sample_collections_def
        sample_cache_def cache_list_def cache_count_def)
  obtain t where t: "whole_reach create_env (\<lambda>_. sample_client_env) native_wire (started_on (reopened ?m)) t"
    "m_state (wh_server t) = sample_reopened_b" "handled_of 3 (wh_served t) = [untimed create_b]"
    by (rule reopened_served)
  have plain: "list_all (plain_message create_env) (map msg (wh_served t))" unfolding list_all_iff using create_b_plain by blast
  have again_t: "storable (se_json create_env) ''/d'' (\<lambda>_. True) fs1 (m_state (wh_server t))" using again t(2) by simp
  have "map msg (wh_served t) \<noteq> []" using t(3) by auto
  with whole_life [OF jl document_refs manager_ok_sample stored fs1(1) opened started_simps(2,1) t(1) plain again_t] fs1(1)
  show ?thesis unfolding json by blast
qed

end
