(* ===== verification/Debug_Format.thy ===== *)
theory Debug_Format
  imports Prelude
begin

text \<open>
  The debug format of strings in \<^verbatim>\<open>std::format\<close>, in which \<^verbatim>\<open>src/src/change_app/wall_app.cpp\<close> and
  \<^verbatim>\<open>wall_manager.cpp\<close> print ranges of strings: a literal in quotation marks in which characters
  that cannot be seen, and bytes that are no UTF-8, have escapes. What the Unicode standard says
  of a character is a parameter. A reader for such literals shows that they lose nothing.
\<close>

section \<open>UTF-8\<close>

text \<open>
  The first character of a text with the number of its bytes; \<open>None\<close> if no well-formed sequence
  starts there, be it too long, a surrogate, out of range or broken off.
\<close>

definition continues :: "nat \<Rightarrow> bool" where
  "continues b \<longleftrightarrow> 128 \<le> b \<and> b < 192"

definition utf8_first :: "nat list \<Rightarrow> (nat \<times> nat) option" where
  "utf8_first bs = (case bs of [] \<Rightarrow> None | a # r \<Rightarrow>
     if a < 128 then Some (a, 1)
     else if 194 \<le> a \<and> a < 224
     then (case r of b # _ \<Rightarrow> if continues b then Some ((a - 192) * 64 + (b - 128), 2) else None | _ \<Rightarrow> None)
     else if 224 \<le> a \<and> a < 240
     then (case r of b # c # _ \<Rightarrow>
         if continues b \<and> continues c \<and> (a = 224 \<longrightarrow> 160 \<le> b) \<and> (a = 237 \<longrightarrow> b < 160)
         then Some (((a - 224) * 64 + (b - 128)) * 64 + (c - 128), 3) else None | _ \<Rightarrow> None)
     else if 240 \<le> a \<and> a < 245
     then (case r of b # c # d # _ \<Rightarrow>
         if continues b \<and> continues c \<and> continues d \<and> (a = 240 \<longrightarrow> 144 \<le> b) \<and> (a = 244 \<longrightarrow> b < 144)
         then Some ((((a - 240) * 64 + (b - 128)) * 64 + (c - 128)) * 64 + (d - 128), 4) else None | _ \<Rightarrow> None)
     else None)"

definition utf8_encode :: "nat \<Rightarrow> nat list" where
  "utf8_encode n =
     (if n < 128 then [n]
      else if n < 2048 then [192 + n div 64, 128 + n mod 64]
      else if n < 65536 then [224 + n div 64 div 64, 128 + n div 64 mod 64, 128 + n mod 64]
      else [240 + n div 64 div 64 div 64, 128 + n div 64 div 64 mod 64, 128 + n div 64 mod 64, 128 + n mod 64])"

lemma continues_iff: "continues b \<longleftrightarrow> (\<exists>y < 64. b = 128 + y)"
proof
  assume "continues b"
  then show "\<exists>y < 64. b = 128 + y" by (intro exI [of _ "b - 128"]) (auto simp: continues_def)
qed (auto simp: continues_def)

text \<open>The four forms, each as the bits that the bytes carry.\<close>

lemma utf8_first_cases:
  assumes "utf8_first bs = Some (n, k)"
  obtains a r where "bs = a # r" and "a < 128" and "n = a" and "k = 1"
  | x y r where "bs = (192 + x) # (128 + y) # r" and "2 \<le> x" and "x < 32" and "y < 64" and "n = x * 64 + y" and "k = 2"
  | x y z r where "bs = (224 + x) # (128 + y) # (128 + z) # r" and "x < 16" and "y < 64" and "z < 64"
      and "x = 0 \<longrightarrow> 32 \<le> y" and "n = (x * 64 + y) * 64 + z" and "k = 3"
  | x y z w r where "bs = (240 + x) # (128 + y) # (128 + z) # (128 + w) # r" and "x < 5" and "y < 64" and "z < 64" and "w < 64"
      and "x = 0 \<longrightarrow> 16 \<le> y" and "n = ((x * 64 + y) * 64 + z) * 64 + w" and "k = 4"
proof -
  from assms obtain a r where bs: "bs = a # r" by (cases bs) (auto simp: utf8_first_def)
  consider "a < 128" | "194 \<le> a" "a < 224" | "224 \<le> a" "a < 240" | "240 \<le> a" "a < 245"
    using assms unfolding bs utf8_first_def by (auto split: if_split_asm)
  then show thesis
  proof cases
    case 1
    with assms bs show ?thesis by (intro that(1)) (auto simp: utf8_first_def)
  next
    case 2
    then obtain x where x: "a = 192 + x" using le_Suc_ex [of 192 a] by auto
    with 2 assms bs obtain b r' where "r = b # r'" "continues b" "n = x * 64 + (b - 128)" "k = 2"
      by (auto simp: utf8_first_def split: list.split_asm if_split_asm)
    with bs x 2 show ?thesis unfolding continues_iff by (elim exE conjE) (rule that(2); simp)
  next
    case 3
    then obtain x where x: "a = 224 + x" using le_Suc_ex [of 224 a] by auto
    with 3 assms bs obtain b c r' where "r = b # c # r'" "continues b" "continues c" "x = 0 \<longrightarrow> 160 \<le> b"
      "n = (x * 64 + (b - 128)) * 64 + (c - 128)" "k = 3"
      by (auto simp: utf8_first_def split: list.split_asm if_split_asm)
    with bs x 3 show ?thesis unfolding continues_iff by (elim exE conjE) (rule that(3); simp)
  next
    case 4
    then obtain x where x: "a = 240 + x" using le_Suc_ex [of 240 a] by auto
    with 4 assms bs obtain b c d r' where "r = b # c # d # r'" "continues b" "continues c" "continues d" "x = 0 \<longrightarrow> 144 \<le> b"
      "n = ((x * 64 + (b - 128)) * 64 + (c - 128)) * 64 + (d - 128)" "k = 4"
      by (auto simp: utf8_first_def split: list.split_asm if_split_asm)
    with bs x 4 show ?thesis unfolding continues_iff by (elim exE conjE) (rule that(4); simp)
  qed
qed

lemma six_bits: "(y :: nat) < 64 \<Longrightarrow> n = q * 64 + y \<Longrightarrow> n div 64 = q" "(y :: nat) < 64 \<Longrightarrow> n = q * 64 + y \<Longrightarrow> n mod 64 = y"
  by simp_all

lemma utf8_first_encode:
  assumes "utf8_first bs = Some (n, k)"
  shows "utf8_encode n = take k bs" and "0 < k" and "k \<le> length bs"
proof -
  have "utf8_encode n = take k bs \<and> 0 < k \<and> k \<le> length bs"
    using assms
  proof (cases rule: utf8_first_cases)
    case (3 x y z r)
    then have "2048 \<le> n" "n < 65536" by (cases "x = 0"; simp)+
    moreover have "n div 64 = x * 64 + y" "n mod 64 = z" "(x * 64 + y) div 64 = x" "(x * 64 + y) mod 64 = y"
      using six_bits 3 by blast+
    ultimately show ?thesis using 3(1,7) by (simp add: utf8_encode_def)
  next
    case (4 x y z w r)
    then have "65536 \<le> n" by (cases "x = 0"; simp)
    moreover have "n div 64 = (x * 64 + y) * 64 + z" "n mod 64 = w" "((x * 64 + y) * 64 + z) div 64 = x * 64 + y"
      "((x * 64 + y) * 64 + z) mod 64 = z" "(x * 64 + y) div 64 = x" "(x * 64 + y) mod 64 = y"
      using six_bits 4 by blast+
    ultimately show ?thesis using 4(1,8) by (simp add: utf8_encode_def)
  qed (simp_all add: utf8_encode_def)
  then show "utf8_encode n = take k bs" "0 < k" "k \<le> length bs" by simp_all
qed

text \<open>The bytes of a character beyond ASCII are beyond ASCII.\<close>

lemma utf8_first_bytes:
  assumes "utf8_first bs = Some (n, k)" and "b \<in> set (take k bs)"
  shows "b = n \<or> 128 \<le> b"
  using assms(1) by (cases rule: utf8_first_cases) (use assms(2) in auto)

section \<open>Escapes\<close>

definition lower_digit :: "nat \<Rightarrow> char" where
  "lower_digit d = ''0123456789abcdef'' ! d"

fun lower_hex :: "nat \<Rightarrow> string" where
  "lower_hex n = (if n < 16 then [lower_digit n] else lower_hex (n div 16) @ [lower_digit (n mod 16)])"

declare lower_hex.simps [simp del]

definition braced :: "char \<Rightarrow> nat \<Rightarrow> string" where
  "braced kind n = [CHR 0x5C, kind, CHR 0x7B] @ lower_hex n @ [CHR 0x7D]"

text \<open>
  Whether a character is a separator or of the category \<^verbatim>\<open>Other\<close> (a control, unassigned, and so on),
  and whether it extends the character before it.
\<close>

record unicode_tables =
  uc_hidden :: "nat \<Rightarrow> bool"
  uc_extends :: "nat \<Rightarrow> bool"

text \<open>
  The escape of a character, if it has one: the five with a short one, then those that cannot be
  seen, but for the space, and those that extend a character that is not printed as it is.
\<close>

definition escape_char :: "unicode_tables \<Rightarrow> bool \<Rightarrow> nat \<Rightarrow> string option" where
  "escape_char U plain n =
     (if n = 0x09 then Some [CHR 0x5C, CHR ''t'']
      else if n = 0x0A then Some [CHR 0x5C, CHR ''n'']
      else if n = 0x0D then Some [CHR 0x5C, CHR ''r'']
      else if n = 0x22 then Some [CHR 0x5C, CHR 0x22]
      else if n = 0x5C then Some [CHR 0x5C, CHR 0x5C]
      else if n \<noteq> 0x20 \<and> (uc_hidden U n \<or> uc_extends U n \<and> \<not> plain) then Some (braced CHR ''u'' n)
      else None)"

text \<open>The flag says whether the character before was printed as it is.\<close>

function escape_text :: "unicode_tables \<Rightarrow> bool \<Rightarrow> string \<Rightarrow> string" where
  "escape_text U plain [] = []"
| "escape_text U plain (c # cs) =
     (case utf8_first (map of_char (c # cs)) of
        None \<Rightarrow> braced CHR ''x'' (of_char c) @ escape_text U False cs
      | Some (n, k) \<Rightarrow>
         (case escape_char U plain n of
            Some e \<Rightarrow> e @ escape_text U False (drop (k - 1) cs)
          | None \<Rightarrow> take k (c # cs) @ escape_text U True (drop (k - 1) cs)))"
  by pat_completeness auto

termination
  by (relation "measure (\<lambda>(U, plain, s). length s)") auto

definition debug_string :: "unicode_tables \<Rightarrow> string \<Rightarrow> string" where
  "debug_string U s = CHR 0x22 # escape_text U False s @ [CHR 0x22]"

section \<open>Reading a literal\<close>

definition lower_value :: "char \<Rightarrow> nat" where
  "lower_value d = find_pos (\<lambda>e. e = d) ''0123456789abcdef''"

definition lower_hex_value :: "string \<Rightarrow> nat" where
  "lower_hex_value ds = foldl (\<lambda>n d. 16 * n + lower_value d) 0 ds"

text \<open>What an escape or a byte at the start of a text stands for, and what follows it.\<close>

definition unescape :: "string \<Rightarrow> (string \<times> string) option" where
  "unescape s = (case s of
     [] \<Rightarrow> None
   | c # cs \<Rightarrow>
       if c \<noteq> CHR 0x5C then Some ([c], cs)
       else case cs of
           [] \<Rightarrow> None
         | d # ds \<Rightarrow>
             let v = lower_hex_value (takeWhile (\<lambda>e. e \<noteq> CHR 0x7D) (drop 1 ds));
                 rest = drop 1 (dropWhile (\<lambda>e. e \<noteq> CHR 0x7D) (drop 1 ds))
             in if d = CHR ''t'' then Some ([CHR 0x09], ds)
                else if d = CHR ''n'' then Some ([CHR 0x0A], ds)
                else if d = CHR ''r'' then Some ([CHR 0x0D], ds)
                else if d = CHR ''u'' then Some (map char_of (utf8_encode v), rest)
                else if d = CHR ''x'' then Some ([char_of v], rest)
                else Some ([d], ds))"

lemma unescape_shorter: "unescape s = Some (t, r) \<Longrightarrow> length r < length s"
proof -
  have drop: "length (drop 1 (dropWhile P (drop 1 ds))) \<le> length ds" for P and ds :: string
    using length_dropWhile_le [of P "drop 1 ds"] by simp
  assume "unescape s = Some (t, r)"
  then show ?thesis
    by (auto simp: unescape_def Let_def le_imp_less_Suc less_SucI split: list.split_asm if_split_asm)
      (use drop in \<open>simp_all add: le_imp_less_Suc less_SucI\<close>)
qed

text \<open>The text of a literal up to its closing quotation mark.\<close>

function read_literal :: "string \<Rightarrow> (string \<times> string) option" where
  "read_literal [] = None"
| "read_literal (c # cs) =
     (if c = CHR 0x22 then Some ([], cs)
      else case unescape (c # cs) of
          None \<Rightarrow> None
        | Some (t, r) \<Rightarrow> map_option (\<lambda>(s, rest). (t @ s, rest)) (read_literal r))"
  by pat_completeness auto

termination
  by (relation "measure length") (auto dest: unescape_shorter)

lemma read_literal_shorter: "read_literal s = Some (t, r) \<Longrightarrow> length r < length s"
proof (induction s arbitrary: t r rule: read_literal.induct)
  case (2 c cs)
  show ?case
  proof (cases "c = CHR 0x22")
    case False
    with "2.prems" obtain d r1 where d: "unescape (c # cs) = Some (d, r1)"
      by (auto split: option.split_asm)
    with False "2.prems" obtain t1 where "read_literal r1 = Some (t1, r)" by auto
    with "2.IH" [OF False d refl] have "length r < length r1" by blast
    with unescape_shorter [OF d] show ?thesis by simp
  qed (use "2.prems" in auto)
qed simp

section \<open>Nothing is lost\<close>

lemma lower_digit:
  assumes "d < 16"
  shows "lower_value (lower_digit d) = d" and "lower_digit d \<noteq> CHR 0x7D"
proof -
  have "\<forall>d \<in> set [0..<16]. lower_value (lower_digit d) = d \<and> lower_digit d \<noteq> CHR 0x7D"
    by (simp add: lower_value_def lower_digit_def upt_rec)
  with assms show "lower_value (lower_digit d) = d" "lower_digit d \<noteq> CHR 0x7D" by simp_all
qed

lemma lower_hex_read: "lower_hex_value (lower_hex n) = n \<and> CHR 0x7D \<notin> set (lower_hex n)"
proof (induction n rule: lower_hex.induct)
  case (1 n)
  show ?case
  proof (cases "n < 16")
    case True
    then show ?thesis using lower_digit [OF True] by (auto simp: lower_hex.simps [of n] lower_hex_value_def)
  next
    case False
    have "n mod 16 < 16" by simp
    with False 1 lower_digit [of "n mod 16"] show ?thesis by (auto simp: lower_hex.simps [of n] lower_hex_value_def)
  qed
qed

lemma unescape_braced:
  "unescape (braced CHR ''u'' n @ r) = Some (map char_of (utf8_encode n), r)"
  "unescape (braced CHR ''x'' n @ r) = Some ([char_of n], r)"
proof -
  have "takeWhile (\<lambda>e. e \<noteq> CHR 0x7D) (lower_hex n @ CHR 0x7D # r) = lower_hex n"
    "dropWhile (\<lambda>e. e \<noteq> CHR 0x7D) (lower_hex n @ CHR 0x7D # r) = CHR 0x7D # r"
    using lower_hex_read [of n] by (auto simp: takeWhile_append dropWhile_append)
  then show "unescape (braced CHR ''u'' n @ r) = Some (map char_of (utf8_encode n), r)"
    "unescape (braced CHR ''x'' n @ r) = Some ([char_of n], r)"
    using lower_hex_read [of n] by (simp_all add: unescape_def braced_def)
qed

lemma unescape_escape:
  "escape_char U plain n = Some e \<Longrightarrow> unescape (e @ r) = Some (map char_of (utf8_encode n), r) \<and> hd e = CHR 0x5C \<and> e \<noteq> []"
  by (auto simp: escape_char_def unescape_braced split: if_split_asm)
    (simp_all add: unescape_def utf8_encode_def braced_def char_of_def bit_0)

lemma read_escape:
  assumes "unescape (e @ r) = Some (t, r)" and "e \<noteq> []" and "hd e = CHR 0x5C"
  shows "read_literal (e @ r) = map_option (\<lambda>(s, rest). (t @ s, rest)) (read_literal r)"
  using assms by (cases e) auto

lemma read_plain:
  "\<forall>c \<in> set cs. c \<noteq> CHR 0x22 \<and> c \<noteq> CHR 0x5C \<Longrightarrow>
    read_literal (cs @ r) = map_option (\<lambda>(s, rest). (cs @ s, rest)) (read_literal r)"
  by (induction cs) (auto simp: unescape_def option.map_comp comp_def case_prod_unfold option.map_ident)

lemma chars_of_bytes: "map char_of (take k (map of_char s) :: nat list) = take k s"
  by (simp add: take_map comp_def)

lemma read_escaped: "read_literal (escape_text U plain s @ CHR 0x22 # r) = Some (s, r)"
proof (induction U plain s rule: escape_text.induct)
  case (2 U plain c cs)
  let ?bs = "map of_char (c # cs) :: nat list"
  show ?case
  proof (cases "utf8_first ?bs")
    case None
    have "read_literal (braced CHR ''x'' (of_char c) @ escape_text U False cs @ CHR 0x22 # r) =
        map_option (\<lambda>(s, rest). ([c] @ s, rest)) (read_literal (escape_text U False cs @ CHR 0x22 # r))"
      by (rule read_escape) (simp add: unescape_braced, simp_all add: braced_def)
    with None 2(1) [OF None] show ?thesis by simp
  next
    case (Some nk)
    then obtain n k where first: "utf8_first ?bs = Some (n, k)" by (cases nk) auto
    note enc = utf8_first_encode [OF first]
    have parts: "take k (c # cs) @ drop (k - 1) cs = c # cs"
      using enc(2) append_take_drop_id [of k "c # cs"] by (cases k) auto
    have same: "map char_of (utf8_encode n) = take k (c # cs)"
      unfolding enc(1) by (rule chars_of_bytes)
    show ?thesis
    proof (cases "escape_char U plain n")
      case None
      have "\<forall>d \<in> set (take k (c # cs)). d \<noteq> CHR 0x22 \<and> d \<noteq> CHR 0x5C"
      proof
        fix d assume "d \<in> set (take k (c # cs))"
        then have "of_char d \<in> set (take k ?bs)" unfolding take_map set_map by (rule imageI)
        then have "of_char d = n \<or> 128 \<le> (of_char d :: nat)" using utf8_first_bytes [OF first] by blast
        moreover have "n \<noteq> 0x22" "n \<noteq> 0x5C" using None by (auto simp: escape_char_def split: if_split_asm)
        ultimately show "d \<noteq> CHR 0x22 \<and> d \<noteq> CHR 0x5C" by auto
      qed
      from read_plain [OF this] 2(2) [OF first refl None] first None parts show ?thesis by simp
    next
      case (Some e)
      note e = unescape_escape [OF Some, of "escape_text U False (drop (k - 1) cs) @ CHR 0x22 # r"]
      from read_escape [of e _ "take k (c # cs)"] e 2(3) [OF first refl Some] first Some parts
      show ?thesis by (simp add: same)
    qed
  qed
qed simp

lemma read_debug_string: "read_literal (tl (debug_string U s @ r)) = Some (s, r)"
  by (simp add: debug_string_def read_escaped)

end
