(* ===== verification/Printing.thy ===== *)
theory Printing
  imports Application Change_Client Debug_Format
begin

text \<open>
  The text on the standard output: what \<^verbatim>\<open>src/src/change_app/wall_app.cpp\<close>, \<^verbatim>\<open>wall_manager.cpp\<close>
  and \<^verbatim>\<open>change_client.hpp\<close> print for the messages that the models of the application and of the
  client collect. The formats are those of the standard library and of fmt. Parameters are
  what other libraries render: the name of an option (boost), a table (tabulate), the version,
  which the build generates, and the decimal number of seconds.
\<close>

section \<open>Formats\<close>

text \<open>A width counts characters; all texts that are padded are ASCII.\<close>

definition pad_right :: "nat \<Rightarrow> string \<Rightarrow> string" where
  "pad_right n s = s @ replicate (n - length s) CHR '' ''"

definition newline :: string where
  "newline = [CHR 0x0A]"

definition println :: "string \<Rightarrow> string" where
  "println s = s @ newline"

fun join_with :: "string \<Rightarrow> string list \<Rightarrow> string" where
  "join_with sep [] = []"
| "join_with sep [x] = x"
| "join_with sep (x # y # ys) = x @ sep @ join_with sep (y # ys)"

text \<open>\<^verbatim>\<open>{:n}\<close> of a range of strings, whose elements have the debug format, and \<^verbatim>\<open>{}\<close>.\<close>

definition debug_names :: "unicode_tables \<Rightarrow> string list \<Rightarrow> string" where
  "debug_names U ns = join_with '', '' (map (debug_string U) ns)"

definition debug_range :: "unicode_tables \<Rightarrow> string list \<Rightarrow> string" where
  "debug_range U ns = ''['' @ debug_names U ns @ '']''"

section \<open>What the application prints\<close>

record print_env =
  pe_format_name :: "command_desc \<Rightarrow> string"
  pe_table :: "string list list \<Rightarrow> string"
  pe_version :: string
  pe_compiler :: "string \<times> string \<times> string"
  pe_unicode :: unicode_tables

definition option_line :: "print_env \<Rightarrow> command_desc \<Rightarrow> string" where
  "option_line E d = println (pad_right 20 (pe_format_name E d) @ '' '' @ pad_right 15 [] @ '' '' @ pad_right 20 (description d))"

definition usage_text :: "print_env \<Rightarrow> command_desc list \<Rightarrow> string list \<Rightarrow> string" where
  "usage_text E table groups =
     println (newline @ ''usage: wallchanger [command] [argument]'' @ newline) @
     concat (map (option_line E) table) @
     println (newline @ ''Avaliable commands: '' @ debug_names (pe_unicode E) groups)"

definition version_text :: "print_env \<Rightarrow> string" where
  "version_text E = (case pe_compiler E of (name, version, arch) \<Rightarrow>
     println (''program version: '' @ pe_version E @ newline @ ''Compiler:'' @ name @ '' '' @ version @ '' '' @ arch))"

definition group_help_text :: "print_env \<Rightarrow> command_desc list \<Rightarrow> string" where
  "group_help_text E table = concat (map (option_line E) table)"

definition validation_text :: "print_env \<Rightarrow> report \<Rightarrow> string" where
  "validation_text E r = (case r of (collection, entries, valid, invalid, paths) \<Rightarrow>
     println (''Validated Collection: '' @ collection @ newline @ ''Total Entries: '' @ dec_string entries @ newline @
       ''Valid Entries: '' @ dec_string valid @ newline @ ''Invalid Entries: '' @ dec_string invalid @ newline @
       debug_range (pe_unicode E) paths))"

definition listing_text :: "print_env \<Rightarrow> printed \<Rightarrow> string" where
  "listing_text E p = (case p of
     Collections ns \<Rightarrow> println (debug_names (pe_unicode E) ns)
   | Wall_table rows \<Rightarrow> pe_table E rows @ newline
   | _ \<Rightarrow> [])"

definition printed_text :: "print_env \<Rightarrow> printed \<Rightarrow> string" where
  "printed_text E p = (case p of
     Usage table groups \<Rightarrow> usage_text E table groups
   | Version_info \<Rightarrow> version_text E
   | Group_help table \<Rightarrow> group_help_text E table
   | Unsupported cmd \<Rightarrow> println (cmd @ '' command not supported'')
   | Collections ns \<Rightarrow> listing_text E p
   | Wall_table rows \<Rightarrow> listing_text E p
   | Validation r \<Rightarrow> validation_text E r)"

section \<open>What the client prints\<close>

text \<open>Errors go to the log, and a wallpaper is set, not printed.\<close>

definition client_text :: "(u64 \<Rightarrow> string) \<Rightarrow> client_output \<Rightarrow> string" where
  "client_text seconds p = (case p of
     Printed_status n up \<Rightarrow> ''Connections:'' @ dec_string (unat n) @ '' Uptime:'' @ dec_string (unat up) @ '' '' @ newline
   | Printed_elapsed t \<Rightarrow> println (seconds t)
   | Printed_names ns \<Rightarrow> println (join_with '','' ns)
   | Printed_library c \<Rightarrow> println (join_with ('','' @ newline) (map format_item (m_list c)))
   | Set_wallpaper file \<Rightarrow> []
   | Logged_error \<Rightarrow> [])"

section \<open>Reading a listing\<close>

function read_names :: "string \<Rightarrow> string list option" where
  "read_names [] = Some []"
| "read_names (c # cs) =
     (case read_literal cs of
        None \<Rightarrow> None
      | Some (n, rest) \<Rightarrow> map_option (Cons n) (read_names (drop 2 rest)))"
  by pat_completeness auto

termination
  by (relation "measure length") (auto dest: read_literal_shorter)

lemma read_debug: "read_names (debug_names U ns) = Some ns"
  unfolding debug_names_def
proof (induction "'', ''" "map (debug_string U) ns" arbitrary: ns rule: join_with.induct)
  case (2 x)
  then show ?case by (auto simp: debug_string_def read_escaped)
next
  case (3 x y ys)
  then obtain m n ms where ns: "ns = m # n # ms" by (cases ns rule: remdups_adj.cases) auto
  have "read_names (join_with '', '' (map (debug_string U) (n # ms))) = Some (n # ms)"
    using "3.hyps"(1) [of "n # ms"] "3.hyps"(2) ns by simp
  then show ?case
    using read_escaped [of U False m "'', '' @ join_with '', '' (map (debug_string U) (n # ms))"] by (simp add: ns debug_string_def)
qed simp

section \<open>Properties\<close>

text \<open>
  C37: the listing of the collections can be read back: the line that \<^verbatim>\<open>collection --list\<close> prints
  determines the names, whatever bytes they consist of and whichever characters the library takes
  for unprintable, because they are printed as quoted literals in which every character and every
  byte that is no UTF-8 is printed as it is or has an escape of its own. The line that the client
  prints for the same list does not: a name with a comma looks like two.
\<close>

theorem listing_reads_back:
  "read_names (butlast (printed_text E (Collections ns))) = Some ns \<and>
   client_text seconds (Printed_names [m @ '','' @ n]) = client_text seconds (Printed_names [m, n])"
  by (simp add: printed_text_def listing_text_def println_def newline_def read_debug client_text_def butlast_append)

text \<open>Every help line has its description from column 37 on, if the names of the options fit.\<close>

lemma option_line_columns:
  assumes "length (pe_format_name E d) \<le> 20"
  shows "\<exists>pad. option_line E d = pe_format_name E d @ pad @ description d @ replicate (20 - length (description d)) CHR '' '' @ newline \<and>
    length (pe_format_name E d @ pad) = 37"
  using assms by (intro exI [of _ "replicate (20 - length (pe_format_name E d)) CHR '' '' @ '' '' @ pad_right 15 [] @ '' ''"])
    (simp add: option_line_def println_def pad_right_def)

end
