(* ===== verification/Desktop.thy ===== *)
theory Desktop
  imports Change_Client Background
begin

text \<open>
  A wallpaper on its way from the collections of the server to the desktop: the handler that
  \<^verbatim>\<open>background_handler::create\<close> of \<^verbatim>\<open>src/src/change_lib/wall_background.cpp\<close> makes for the
  platform, the calls the client makes through it while it processes a reply, and its
  destruction at the end of the case.
\<close>

section \<open>The handler of the platform\<close>

datatype background_handler =
    Win32_background win32_background_handler
  | Linux_background linux_background_handler

text \<open>
  What the desktop answers to setting a wallpaper and a position, and what compiling the Lua file
  and the folder of the program are.
\<close>

record desktop =
  dk_set :: hresult
  dk_position :: hresult
  dk_compiles :: "string \<Rightarrow> bool"
  dk_data_dir :: string

definition new_linux_background :: linux_background_handler where
  "new_linux_background = \<lparr>lua_globals = Map.empty, lua_ran = []\<rparr>"

text \<open>The pointer that is returned is never null.\<close>

definition create_background :: "bool \<Rightarrow> hresult \<Rightarrow> hresult \<Rightarrow> background_handler" where
  "create_background on_windows initialize create_instance =
     (if on_windows then Win32_background (new_win32_background initialize create_instance)
      else Linux_background new_linux_background)"

primrec background_error :: "background_handler \<Rightarrow> error_text" where
  "background_error (Win32_background h) = m_error h"
| "background_error (Linux_background h) = None"

primrec background_active :: "background_handler \<Rightarrow> bool" where
  "background_active (Win32_background h) = win32_is_active h"
| "background_active (Linux_background h) = linux_is_active h"

primrec background_set ::
    "desktop \<Rightarrow> string \<Rightarrow> nat \<Rightarrow> background_handler \<Rightarrow> bool \<times> desktop_call list \<times> background_handler" where
  "background_set D file position (Win32_background h) =
     (case win32_set_wallpaper (dk_set D) (dk_position D) file (int position) h of (ok, calls, h') \<Rightarrow>
        (ok, calls, Win32_background h'))"
| "background_set D file position (Linux_background h) =
     (case linux_set_wallpaper (dk_compiles D) (dk_data_dir D) file (int position) h of (ok, h') \<Rightarrow>
        (ok, [], Linux_background h'))"

primrec delete_background :: "background_handler \<Rightarrow> unit result" where
  "delete_background (Win32_background h) = delete_win32_background h"
| "delete_background (Linux_background h) = Inr ()"

section \<open>The client with the handler\<close>

definition with_background :: "desktop \<Rightarrow> background_handler \<Rightarrow> ('j, 't) client_env \<Rightarrow> ('j, 't) client_env" where
  "with_background D b C = C\<lparr>ce_background := Some (background_active b, \<lambda>file position. fst (background_set D file position b))\<rparr>"

text \<open>The calls to the desktop and the handler after a wallpaper was set, or was not.\<close>

definition set_outputs :: "desktop \<Rightarrow> background_handler \<Rightarrow> client_output list \<Rightarrow> desktop_call list \<times> background_handler" where
  "set_outputs D b os = (case os of
     Set_wallpaper file # _ \<Rightarrow> snd (background_set D file 2 b)
   | _ \<Rightarrow> ([], b))"

text \<open>The case of a reply with a wallpaper, up to its end, where the handler is destroyed.\<close>

definition show_on_desktop ::
    "desktop \<Rightarrow> background_handler \<Rightarrow> ('j, 't) client_env \<Rightarrow> u32 message \<Rightarrow>
      (client_output list \<times> desktop_call list \<times> background_handler) result" where
  "show_on_desktop D b C m =
     rbind (show_wallpaper (with_background D b C) m) (\<lambda>os.
     case set_outputs D b os of (calls, b') \<Rightarrow> rbind (delete_background b') (\<lambda>_. Inr (os, calls, b')))"

lemma create_windows:
  "background_active (create_background True i c) \<longleftrightarrow> \<not> FAILED_hr c"
  "delete_background (create_background True i c) = (if FAILED_hr c then Inl Undefined else Inr ())"
  by (auto simp: create_background_def new_win32_background_def win32_is_active_def delete_win32_background_def Let_def)

lemma set_windows:
  assumes "\<not> FAILED_hr c" and "dk_set D = S_OK" and "dk_position D = S_OK"
  shows "background_set D file 2 (create_background True i c) =
    (True, [SetWallpaper (c_str file), SetPosition 2], create_background True i c)"
  using assms
  by (auto simp: create_background_def new_win32_background_def win32_set_wallpaper_def FAILED_hr_def Let_def)

lemma set_linux:
  "background_set D file 2 (create_background False i c) =
    (True, [], Linux_background \<lparr>lua_globals = [''background'' \<mapsto> Lua_string file, ''position'' \<mapsto> Lua_number 2], lua_ran = []\<rparr>)"
  by (simp add: create_background_def new_linux_background_def linux_set_wallpaper_def Let_def)

section \<open>From the choice to the desktop\<close>

context json_library begin

lemma show_document:
  assumes "ce_json C = J" and "msg_to_json (ce_docs C) m = Inr (wall_document J name dir idx active)"
    and "ce_background C = Some (True, set_wallpaper)"
  shows "show_wallpaper C m = Inr (let file = dir @ ''/'' @ name in
    if set_wallpaper file 2 then [Set_wallpaper file] else [Set_wallpaper file, Logged_error])"
  using assms by (simp add: show_wallpaper_def wall_document_def json_simps Let_def)

lemma inactive_document:
  assumes "msg_to_json (ce_docs C) m = Inr j" and "ce_background C = Some (False, set_wallpaper)"
  shows "show_wallpaper C m = Inr [Logged_error]"
  using assms by (simp add: show_wallpaper_def)

end

lemma st_next_choice:
  assumes "json_library J" and "collection_refs R" and "manager_ok m"
    and "lib_map (mg_cache m) (m_active_name (mg_cache m)) = Some c" and "0 < cache_size c" and "cache_size c < 2 ^ 31"
    and "returned (st_get_next_wallpaper J R draws m) = Inr (doc, m')"
  obtains x dir idx where "x \<in> set (m_list c)" and "cache_state x = Unused" and "pt_get (mg_path_buf m) (loc x) = Some dir"
    and "path_hash dir = loc x" and "doc = wall_document J (cache_value x) dir idx (m_active_name (mg_cache m))"
proof -
  have eval: "st_get_next_wallpaper J R draws m = Some (Inr (doc, m'))"
    using assms(7) by (auto simp: returned_def split: option.splits)
  then obtain idx where pick: "pick_loop draws 0 (m_list c) = Some (Inr idx)"
    and doc: "doc = wall_document J (cache_value (m_list c ! idx))
      (the (pt_get (mg_path_buf m) (loc (m_list c ! idx)))) idx (m_active_name (mg_cache m))"
    using json_library.st_next_active [OF assms(1-6), of draws] by (auto simp: Let_def split: option.splits sum.splits)
  from pick have idx: "idx < length (m_list c)" "cache_state (m_list c ! idx) = Unused" by (auto elim: pick_loop_index)
  then have "m_list c ! idx \<in> set (m_list c)" by simp
  moreover from manager_ok_item [OF assms(3,4) this] obtain dir
    where "pt_get (mg_path_buf m) (loc (m_list c ! idx)) = Some dir" "path_hash dir = loc (m_list c ! idx)" by blast
  ultimately show ?thesis using that [of "m_list c ! idx" dir idx] idx(2) doc by simp
qed

section \<open>Properties\<close>

text \<open>
  C10: the wallpaper that the server chooses is the one that is set. A client that asks for the next wallpaper
  gets one reply, which leads to an unused item of the active collection: its name in the
  directory whose checksum the item holds. On Windows the desktop is told this file and the
  position two, if the desktop object could be created; if not, the error is logged and destroying
  the handler is undefined. On Linux the file is left in a variable, and no script runs.
\<close>

theorem next_reaches_desktop:
  assumes "json_library (se_json E)" and "collection_refs (se_refs E)" and "manager_ok (m_state sv)"
    and "lib_map (mg_cache (m_state sv)) (m_active_name (mg_cache (m_state sv))) = Some c"
    and "0 < cache_size c" and "cache_size c < 2 ^ 31" and "se_next E (m_state sv) = Inr (doc, st)"
    and "d_from_cbor (se_docs E) (d_to_cbor (se_docs E) doc) = Inr doc" and "ce_json C = se_json E" and "ce_docs C = se_docs E"
    and "validate m" and "msg_id (header m) = type_number Get_Next_Wallpaper" and "d_from_cbor (se_docs E) (body m) = Inr j"
    and "valid_client p sv" and "dk_set D = S_OK" and "dk_position D = S_OK"
  shows "\<exists>sv' r x dir. cs_message E p m sv = Inr sv' \<and> answers p [r] sv sv' \<and>
    x \<in> set (m_list c) \<and> cache_state x = Unused \<and> pt_get (mg_path_buf (m_state sv)) (loc x) = Some dir \<and> path_hash dir = loc x \<and>
    show_on_desktop D (create_background True initialize create_instance) C (r\<lparr>time := t\<rparr>) =
      (if FAILED_hr create_instance then Inl Undefined
       else Inr ([Set_wallpaper (dir @ ''/'' @ cache_value x)],
         [SetWallpaper (c_str (dir @ ''/'' @ cache_value x)), SetPosition 2], create_background True initialize create_instance)) \<and>
    (\<exists>h. show_on_desktop D (create_background False initialize create_instance) C (r\<lparr>time := t\<rparr>) =
        Inr ([Set_wallpaper (dir @ ''/'' @ cache_value x)], [], Linux_background h) \<and>
      lua_globals h ''background'' = Some (Lua_string (dir @ ''/'' @ cache_value x)) \<and> lua_ran h = [])"
proof -
  from st_next_choice [OF assms(1-6)] assms(7) obtain x dir idx where x: "x \<in> set (m_list c)" "cache_state x = Unused"
      "pt_get (mg_path_buf (m_state sv)) (loc x) = Some dir" "path_hash dir = loc x"
      "doc = wall_document (se_json E) (cache_value x) dir idx (m_active_name (mg_cache (m_state sv)))"
    unfolding se_next_def by metis
  let ?r = "json_to_msg (se_docs E) (se_now E) Get_Next_Wallpaper doc" and ?file = "dir @ ''/'' @ cache_value x"
  let ?w = "create_background True initialize create_instance" and ?l = "create_background False initialize create_instance"
  have valid: "valid_client p (sv\<lparr>m_state := st\<rparr>)" using assms(14) by simp
  obtain sv' where sv': "client_send p ?r (sv\<lparr>m_state := st\<rparr>) = Inr sv'" using client_send_valid [OF valid] by blast
  have "valid_client p sv'" using only_sends_valid [OF client_send_sends [OF sv']] valid by simp
  then obtain i where i: "client_id p sv' = Inr i" using client_id_valid by blast
  have "cs_message E p m sv = Inr sv'"
    using assms(7,11-13) sv' i by (simp add: cs_message_def m_process_def msg_to_json_def reply_logged_def Let_def)
  moreover have "answers p [?r] sv sv'" using sv' by (rule answers_send)
  moreover have msg: "msg_to_json (ce_docs (with_background D b C)) (?r\<lparr>time := t\<rparr>) = Inr doc" for b
    using assms(8,10) by (simp add: msg_to_json_def with_background_def)
  have win: "show_on_desktop D ?w C (?r\<lparr>time := t\<rparr>) = (if FAILED_hr create_instance then Inl Undefined
       else Inr ([Set_wallpaper ?file], [SetWallpaper (c_str ?file), SetPosition 2], ?w))"
  proof (cases "FAILED_hr create_instance")
    case True
    have "show_wallpaper (with_background D ?w C) (?r\<lparr>time := t\<rparr>) = Inr [Logged_error]"
      using True create_windows(1) by (intro json_library.inactive_document [OF assms(1) msg]) (simp add: with_background_def)
    with True show ?thesis by (simp add: show_on_desktop_def set_outputs_def create_windows)
  next
    case False
    have "show_wallpaper (with_background D ?w C) (?r\<lparr>time := t\<rparr>) = Inr [Set_wallpaper ?file]"
      using json_library.show_document [OF assms(1) _ msg [unfolded x(5)], of ?w] assms(9) False create_windows(1)
        set_windows [OF False assms(15,16)] x(5) by (simp add: with_background_def)
    with False show ?thesis
      by (simp add: show_on_desktop_def set_outputs_def create_windows set_windows [OF False assms(15,16)])
  qed
  have lin: "show_on_desktop D ?l C (?r\<lparr>time := t\<rparr>) = Inr ([Set_wallpaper ?file], [],
      Linux_background \<lparr>lua_globals = [''background'' \<mapsto> Lua_string ?file, ''position'' \<mapsto> Lua_number 2], lua_ran = []\<rparr>)"
  proof -
    have "background_active ?l" by (simp add: create_background_def linux_is_active_def)
    then have "show_wallpaper (with_background D ?l C) (?r\<lparr>time := t\<rparr>) = Inr [Set_wallpaper ?file]"
      using json_library.show_document [OF assms(1) _ msg [unfolded x(5)], of ?l] assms(9) x(5)
      by (simp add: with_background_def set_linux)
    then show ?thesis by (simp add: show_on_desktop_def set_outputs_def set_linux)
  qed
  ultimately show ?thesis using x(1-4) win lin
    by (intro exI [of _ sv'] exI [of _ ?r] exI [of _ x] exI [of _ dir] conjI exI [of _ "\<lparr>lua_globals = [''background'' \<mapsto> Lua_string ?file, ''position'' \<mapsto> Lua_number 2], lua_ran = []\<rparr>"]) simp_all
qed

section \<open>Witness\<close>

definition sample_desktop :: desktop where
  "sample_desktop = \<lparr>dk_set = S_OK, dk_position = S_OK, dk_compiles = (\<lambda>_. False), dk_data_dir = ''/d''\<rparr>"

theorem next_reaches_desktop_witness:
  "\<exists>r x. x \<in> set (m_list sample_cache) \<and>
    show_on_desktop sample_desktop (create_background True S_OK S_OK)
      (sample_client_env\<lparr>ce_docs := se_docs (document_env (wall_document json_tree_ops ''y'' ''/p'' 1 ''a''))\<rparr>) (r\<lparr>time := 0\<rparr>) =
    Inr ([Set_wallpaper (''/p/'' @ cache_value x)], [SetWallpaper (c_str (''/p/'' @ cache_value x)), SetPosition 2],
      create_background True S_OK S_OK)"
proof -
  let ?doc = "wall_document json_tree_ops ''y'' ''/p'' 1 ''a''"
  let ?E = "document_env ?doc" and ?m = "flag_message sample_env Get_Next_Wallpaper True"
  let ?sv = "sample_busy ?m" and ?C = "sample_client_env\<lparr>ce_docs := se_docs (document_env ?doc)\<rparr>"
  have env: "se_json ?E = json_tree_ops" "se_refs ?E = span_refs" "se_draws ?E = (\<lambda>_ _. 1)" "ce_json ?C = json_tree_ops"
    "d_from_cbor (se_docs ?E) bs = Inr ?doc" "ce_docs ?C = se_docs ?E" for bs
    by (simp_all add: document_env_def sample_env_def sample_client_env_def)
  have size: "0 < cache_size sample_cache" "cache_size sample_cache < 2 ^ 31" by (simp_all add: sample_cache_def cache_size_def)
  have active: "lib_map (mg_cache (m_state ?sv)) (m_active_name (mg_cache (m_state ?sv))) = Some sample_cache"
    by (simp add: sample_active(1))
  have "pick_loop (\<lambda>_. 1) 0 (m_list sample_cache) = Some (Inr 1)"
    using pick_loop_first [where j = 0 and draws = "\<lambda>_. 1" and items = "m_list sample_cache"]
    by (simp add: sample_cache_def passed_over_def)
  then have "st_get_next_wallpaper json_tree_ops span_refs (\<lambda>_. 1) sample_manager =
      Some (Inr (?doc, sample_manager\<lparr>mg_previous := [?doc]\<rparr>))"
    using json_library.st_next_active [OF tree_library span.collection_refs_axioms manager_ok_sample sample_active(1) size, of "\<lambda>_. 1"]
    by (simp add: Let_def sample_active(2-5) sample_cache_def sample_lookup)
  then have next_: "se_next ?E (m_state ?sv) = Inr (?doc, sample_manager\<lparr>mg_previous := [?doc]\<rparr>)"
    unfolding se_next_def env by (simp only: sample_busy_simps returned_def option.case)
  have lib: "json_library (se_json ?E)" "collection_refs (se_refs ?E)" "manager_ok (m_state ?sv)"
    unfolding env(1,2) using tree_library span.collection_refs_axioms manager_ok_sample by simp_all
  have "\<not> FAILED_hr S_OK" by (simp add: FAILED_hr_def)
  moreover have "x \<in> set (m_list sample_cache) \<Longrightarrow> pt_get (mg_path_buf (m_state ?sv)) (loc x) = Some ''/p''" for x
    by (auto simp: sample_cache_def sample_active(4) sample_lookup)
  ultimately show ?thesis
    using next_reaches_desktop [OF lib active size next_, of ?C ?m ?doc "Some 0" sample_desktop S_OK S_OK 0] env
    by (auto simp: sample_desktop_def) blast
qed

end
