(* ===== verification/Repository_Tests.thy ===== *)
theory Repository_Tests
  imports Cache_Library
begin

text \<open>
  The tests that come with the program, \<^verbatim>\<open>src/tests/testing_cache.cpp\<close> and
  \<^verbatim>\<open>test_cache_library.cpp\<close>, run on the model: a test case or section is the list of its
  requirements, and they hold. An object that was moved from keeps its members but the vector,
  which is empty, and a string, which can be any.
\<close>

section \<open>Moving\<close>

definition move_cache :: "'v cache \<Rightarrow> 'v cache \<times> 'v cache" where
  "move_cache c = (c, c\<lparr>m_list := []\<rparr>)"

definition move_lib :: "string \<Rightarrow> cache_lib \<Rightarrow> cache_lib \<times> cache_lib" where
  "move_lib left l = (l, l\<lparr>m_cache_vec := [], m_active_name := left\<rparr>)"

section \<open>The cache\<close>

definition test_cache_construction :: "bool list result" where
  "test_cache_construction =
     (let cache2 = cache_insert ''hello'' 0 empty_cache
      in rbind (cache_at cache2 0) (\<lambda>x2.
         let cache3 = cache2
         in rbind (cache_at cache3 0) (\<lambda>x3.
         let (cache4, moved) = move_cache cache2
         in rbind (cache_at cache4 0) (\<lambda>x4.
           Inr [cache_value x2 = ''hello'', cache_value x3 = ''hello'', cache3 = cache2,
                cache_value x4 = ''hello'', moved \<noteq> cache4, cache_empty moved]))))"

definition test_cache_insertion :: "bool list result" where
  "test_cache_insertion =
     (let cache = cache_insert ''hello world'' 0 empty_cache
      in rbind (cache_at cache 0) (\<lambda>x.
         Inr [cache_value x = ''hello world'', \<not> cache_empty cache, cache_contains cache ''hello world'']))"

section \<open>The library\<close>

definition test_library_construction :: "string \<Rightarrow> bool list" where
  "test_library_construction left =
     (let cache = cache_insert ''hello'' 0 empty_cache;
          lib1 = snd (lib_insert ''cache1'' cache new_lib);
          lib2 = lib1;
          (lib3, moved) = move_lib left lib1
      in [cache_count lib1 = 1, cache_count lib2 = 1, lib2 = lib1, lib3 \<noteq> moved, is_empty_lib moved])"

text \<open>What every section of the second test case begins with.\<close>

definition test_cache :: "string cache" where
  "test_cache = cache_insert ''world'' 0 (cache_insert ''hello'' 0 empty_cache)"

definition test_library :: "string cache \<Rightarrow> cache_lib" where
  "test_library cache2 = snd (lib_insert ''cache2'' cache2 (snd (lib_insert ''cache1'' test_cache new_lib)))"

definition test_library_insertion :: "bool list result" where
  "test_library_insertion =
     (let lib = test_library empty_cache
      in rbind (lib_modified lib) (\<lambda>b. Inr [b, \<not> is_empty_lib lib]))"

definition test_library_exists :: "bool list" where
  "test_library_exists =
     (let lib = test_library empty_cache in [lib_exists lib ''cache1'', lib_exists lib ''cache2''])"

text \<open>\<^verbatim>\<open>value\<close> of an expected that holds an error throws.\<close>

definition value_of :: "(error_code + 'a) \<times> cache_lib \<Rightarrow> ('a \<times> cache_lib) result" where
  "value_of r = (case fst r of Inr x \<Rightarrow> Inr (x, snd r) | Inl _ \<Rightarrow> Inl (Throws Bad_expected_access))"

definition test_library_get :: "bool list result" where
  "test_library_get =
     rbind (value_of (get_cache ''cache2'' (test_library empty_cache))) (\<lambda>(s2, lib).
     rbind (value_of (get_cache ''cache1'' lib)) (\<lambda>(s1, lib').
       Inr [slice_items lib s2 = [], slice_items lib' s1 \<noteq> []]))"

definition test_library_erase :: "bool list" where
  "test_library_erase =
     (let lib = snd (lib_remove ''cache1'' (test_library empty_cache)) in [\<not> lib_exists lib ''cache1''])"

definition test_library_current :: "bool list result" where
  "test_library_current =
     (let lib = snd (change_active ''cache1'' (snd (get_cache ''cache1'' (test_library empty_cache))))
      in rbind (get_current lib) (\<lambda>(s, lib'). Inr [slice_items lib' s = m_list test_cache]))"

definition test_library_merge :: "bool list result" where
  "test_library_merge =
     (let cache2 = cache_insert ''brave'' 0 (cache_insert ''test'' 0 (cache_insert ''merge'' 0 empty_cache));
          new_cache = (sized_cache [] (cache_size test_cache + cache_size cache2))
            \<lparr>m_list := merge_ranges (m_list test_cache) (m_list cache2)\<rparr>;
          lib = snd (merge_cache ''cache1'' ''cache2'' (test_library cache2))
      in rbind (value_of (get_cache ''cache1'' lib)) (\<lambda>(merged, lib'). Inr [slice_items lib' merged = m_list new_cache]))"

section \<open>They pass\<close>

lemma cache_tests_pass:
  "test_cache_construction = Inr [True, True, True, True, True, True]"
  "test_cache_insertion = Inr [True, True, True]"
  by (simp_all add: test_cache_construction_def test_cache_insertion_def cache_insert_def cache_contains_def empty_cache_def
      cache_at_def make_item_def move_cache_def cache_empty_def)

lemma test_library_eval:
  "m_cache_vec (test_library c) = [(''cache1'', test_cache), (''cache2'', c)]" "m_current (test_library c) = 0"
  by (simp_all add: test_library_def lib_insert_def lib_exists_def is_empty_lib_def new_lib_def store_pos_def)

lemma test_cache_eval: "m_list test_cache = [make_item ''hello'' Unused 0, make_item ''world'' Unused 0]" "m_modified test_cache"
  by (simp_all add: test_cache_def cache_insert_def cache_contains_def empty_cache_def make_item_def)

lemma test_merge_eval:
  "m_cache_vec (snd (merge_cache ''cache1'' ''cache2'' (test_library c))) =
     [(''cache1'', \<lparr>m_modified = True, m_list = merge_ranges (m_list test_cache) (m_list c)\<rparr>)]"
  by (simp add: merge_cache_def lib_exists_def is_empty_lib_def store_pos_def test_library_eval lib_remove_def erase_at_def
      cache_of_def put_cache_def cache_begin_def cache_clear_def sized_cache_def c_str_def Let_def)

lemma library_tests_pass:
  "test_library_construction left = [True, True, True, True, True]"
  "test_library_insertion = Inr [True, True]" "test_library_exists = [True, True]"
  "test_library_get = Inr [True, True]" "test_library_erase = [True]"
  "test_library_current = Inr [True]" "test_library_merge = Inr [True]"
proof -
  show "test_library_construction left = [True, True, True, True, True]"
    by (simp add: test_library_construction_def lib_insert_def lib_exists_def is_empty_lib_def new_lib_def cache_count_def move_lib_def)
  show "test_library_insertion = Inr [True, True]"
    by (simp add: test_library_insertion_def lib_modified_def is_empty_lib_def test_library_eval test_cache_eval
        cache_modified_def cache_of_def)
  show "test_library_exists = [True, True]"
    by (simp add: test_library_exists_def lib_exists_def is_empty_lib_def store_pos_def test_library_eval)
  show "test_library_get = Inr [True, True]"
    by (simp add: test_library_get_def value_of_def get_cache_def lib_exists_def is_empty_lib_def store_pos_def test_library_eval
        cache_data_def cache_of_def put_cache_def slice_items_def cache_size_def test_cache_eval empty_cache_def)
  show "test_library_erase = [True]"
    by (simp add: test_library_erase_def lib_remove_def lib_exists_def is_empty_lib_def store_pos_def test_library_eval
        cache_clear_def cache_of_def put_cache_def erase_at_def)
  show "test_library_current = Inr [True]"
    by (simp add: test_library_current_def get_cache_def change_active_def get_current_def lib_exists_def is_empty_lib_def
        store_pos_def test_library_eval cache_data_def cache_begin_def cache_of_def put_cache_def slice_items_def
        cache_size_def test_cache_eval)
  show "test_library_merge = Inr [True]"
    by (simp add: test_library_merge_def test_merge_eval value_of_def get_cache_def lib_exists_def is_empty_lib_def store_pos_def
        cache_data_def cache_of_def put_cache_def slice_items_def cache_size_def Let_def)
qed

end
