(* ===== verification/Benchmarks.thy ===== *)
theory Benchmarks
  imports Manager
begin

text \<open>
  The two benchmark programs, \<^verbatim>\<open>benchmarking/bench_cache.cpp\<close> and \<^verbatim>\<open>bench_cache_google.cpp\<close>: a
  round fills a new cache with the names in one directory. How often the frameworks run a round
  is up to them, and a round lists the directory as it then is, so a run is the list of the file
  systems that its rounds see.
\<close>

section \<open>A round\<close>

text \<open>A counter of type \<^verbatim>\<open>int\<close>, whose overflow is undefined.\<close>

definition increment :: "int \<Rightarrow> int result" where
  "increment i = (if i < 2147483647 then Inr (i + 1) else Inl Undefined)"

text \<open>\<^verbatim>\<open>std::forward<std::string>\<close> of a temporary is the temporary.\<close>

definition forward :: "string \<Rightarrow> string" where
  "forward s = s"

text \<open>
  The loop over the directory, subdirectories not being told apart; \<open>pass\<close> is how the name is
  handed to \<^verbatim>\<open>insert\<close>.
\<close>

primrec insert_entries ::
    "(string \<Rightarrow> string) \<Rightarrow> (path \<times> bool) list \<Rightarrow> string cache \<Rightarrow> int \<Rightarrow> (string cache \<times> int) result" where
  "insert_entries pass [] c i = Inr (c, i)"
| "insert_entries pass (x # xs) c i =
     (let c1 = cache_insert (pass (path_filename (fst x))) 0 c
      in rbind (increment i) (insert_entries pass xs c1))"

definition bench_round ::
    "(string \<Rightarrow> string) \<Rightarrow> fs_calls \<Rightarrow> int \<Rightarrow> (string cache \<times> int) result" where
  "bench_round pass fs i =
     rbind (fs_entries fs False ''D:/Wallpaper'') (\<lambda>xs. insert_entries pass xs empty_cache i)"

section \<open>Catch2\<close>

text \<open>The measured lambda has its own counter; the cache is the one around it.\<close>

primrec measure_rounds :: "(string \<Rightarrow> string) \<Rightarrow> fs_calls list \<Rightarrow> string cache \<Rightarrow> string cache result" where
  "measure_rounds pass [] c = Inr c"
| "measure_rounds pass (fs # rounds) c =
     rbind (bench_round pass fs 0) (\<lambda>(c1, i). measure_rounds pass rounds c1)"

definition cache_insert_benchmark :: "fs_calls list \<Rightarrow> string cache result" where
  "cache_insert_benchmark rounds = measure_rounds (\<lambda>s. s) rounds empty_cache"

definition cache_insert_forward_benchmark :: "fs_calls list \<Rightarrow> string cache result" where
  "cache_insert_forward_benchmark rounds = measure_rounds forward rounds empty_cache"

section \<open>Google Benchmark\<close>

text \<open>One counter for all rounds.\<close>

primrec state_rounds ::
    "(string \<Rightarrow> string) \<Rightarrow> fs_calls list \<Rightarrow> string cache \<Rightarrow> int \<Rightarrow> string cache result" where
  "state_rounds pass [] c i = Inr c"
| "state_rounds pass (fs # rounds) c i =
     rbind (bench_round pass fs i) (\<lambda>(c1, i1). state_rounds pass rounds c1 i1)"

definition BM_SomeFunction :: "fs_calls list \<Rightarrow> string cache result" where
  "BM_SomeFunction rounds = state_rounds forward rounds empty_cache 0"

definition BM_SomeFunction_MOVE :: "fs_calls list \<Rightarrow> string cache result" where
  "BM_SomeFunction_MOVE rounds = state_rounds (\<lambda>s. s) rounds empty_cache 0"

section \<open>What the benchmarks compute\<close>

lemma forward_id: "forward = (\<lambda>s. s)"
  by (rule ext) (simp add: forward_def)

lemma insert_entries_eval:
  assumes "0 \<le> i" and "i \<le> 2147483647"
  shows "insert_entries (\<lambda>s. s) xs c i =
    (if i + int (length xs) \<le> 2147483647
     then Inr (fold (\<lambda>v. cache_insert v 0) (map (path_filename \<circ> fst) xs) c, i + int (length xs)) else Inl Undefined)"
  using assms
proof (induction xs arbitrary: c i)
  case (Cons x xs)
  then show ?case by (cases "i < 2147483647") (simp_all add: increment_def add.assoc)
qed simp

text \<open>The rounds whose listings are known, and how many entries they count.\<close>

definition lists_as :: "fs_calls list \<Rightarrow> (path \<times> bool) list list \<Rightarrow> bool" where
  "lists_as rounds xss \<longleftrightarrow> map (\<lambda>fs. fs_entries fs False ''D:/Wallpaper'') rounds = map Inr xss"

definition filled :: "(path \<times> bool) list \<Rightarrow> string cache" where
  "filled xs = fold (\<lambda>v. cache_insert v 0) (map (path_filename \<circ> fst) xs) empty_cache"

lemma lists_as_Cons:
  "lists_as (fs # rounds) xss \<longleftrightarrow> (\<exists>xs yss. xss = xs # yss \<and> fs_entries fs False ''D:/Wallpaper'' = Inr xs \<and> lists_as rounds yss)"
  by (cases xss) (auto simp: lists_as_def)

lemma state_rounds_eval:
  assumes "lists_as rounds xss" and "0 \<le> i" and "i \<le> 2147483647"
  shows "state_rounds (\<lambda>s. s) rounds c i =
    (if i + (\<Sum>xs\<leftarrow>xss. int (length xs)) \<le> 2147483647
     then Inr (if xss = [] then c else filled (last xss)) else Inl Undefined)"
  using assms
proof (induction rounds arbitrary: xss c i)
  case Nil
  then show ?case by (simp add: lists_as_def)
next
  case (Cons fs rounds)
  then obtain xs yss where xss: "xss = xs # yss" and xs: "fs_entries fs False ''D:/Wallpaper'' = Inr xs" and yss: "lists_as rounds yss"
    by (auto simp: lists_as_Cons)
  have pos: "0 \<le> (\<Sum>xs\<leftarrow>yss. int (length xs))" by (induction yss) simp_all
  show ?case
  proof (cases "i + int (length xs) \<le> 2147483647")
    case True
    with Cons.prems(2,3) Cons.IH [OF yss, of "i + int (length xs)"] xs show ?thesis
      by (simp add: xss bench_round_def insert_entries_eval filled_def add.assoc)
  next
    case False
    with Cons.prems(2,3) xs pos show ?thesis by (simp add: xss bench_round_def insert_entries_eval)
  qed
qed

lemma measure_rounds_eval:
  assumes "lists_as rounds xss" and "\<forall>xs \<in> set xss. length xs \<le> 2147483647"
  shows "measure_rounds (\<lambda>s. s) rounds c = Inr (if xss = [] then c else filled (last xss))"
  using assms
proof (induction rounds arbitrary: xss c)
  case Nil
  then show ?case by (simp add: lists_as_def)
next
  case (Cons fs rounds)
  then obtain xs yss where xss: "xss = xs # yss" and xs: "fs_entries fs False ''D:/Wallpaper'' = Inr xs" and yss: "lists_as rounds yss"
    by (auto simp: lists_as_Cons)
  with Cons show ?case by (simp add: bench_round_def insert_entries_eval filled_def)
qed

text \<open>
  The four benchmarks measure the same work: the cache they end with has the names of the last
  listing, each once and in order. Only the counter of Google Benchmark, which no round resets,
  overflows when all rounds together have seen more than \<open>2147483647\<close> entries.
\<close>

theorem benchmarks_fill:
  assumes "lists_as rounds xss" and "xss \<noteq> []" and "\<forall>xs \<in> set xss. length xs \<le> 2147483647"
  shows "(\<exists>c. cache_insert_benchmark rounds = Inr c \<and> cache_insert_forward_benchmark rounds = Inr c \<and>
      m_list c = map (\<lambda>v. make_item v Unused 0) (first_occurrences (map (path_filename \<circ> fst) (last xss))) \<and>
      BM_SomeFunction rounds = (if (\<Sum>xs\<leftarrow>xss. int (length xs)) \<le> 2147483647 then Inr c else Inl Undefined)) \<and>
    BM_SomeFunction_MOVE rounds = BM_SomeFunction rounds"
  using assms state_rounds_eval [OF assms(1), of 0 empty_cache] measure_rounds_eval [OF assms(1,3), of empty_cache]
  by (simp add: cache_insert_benchmark_def cache_insert_forward_benchmark_def BM_SomeFunction_def BM_SomeFunction_MOVE_def
      forward_id filled_def m_list_load)

end
